(* ===== verification/Prelude.thy ===== *)
theory Prelude
  imports Main "HOL-Library.Word" "HOL-Library.AList"
begin

text \<open>
  Shared by every theory of the development: the names of the model's basic types, the
  theorem collections, the result type of operations that can fail, and generic facts on
  lists that the component theories use.
\<close>

section \<open>Types\<close>

text \<open>Go's fixed-width integers. \<open>int64\<close> values are words read with \<^const>\<open>sint\<close>.\<close>

type_synonym byte = "8 word"
type_synonym u16 = "16 word"
type_synonym u32 = "32 word"
type_synonym u64 = "64 word"
type_synonym i64 = "64 word"

text \<open>Readings of the clock: nanoseconds on the monotonic clock of the process.\<close>

type_synonym go_time = int

text \<open>Go's integer division truncates towards zero.\<close>

definition go_quot :: "int \<Rightarrow> int \<Rightarrow> int" where
  "go_quot a b = sgn a * sgn b * (\<bar>a\<bar> div \<bar>b\<bar>)"

section \<open>Theorem collections\<close>

named_theorems layout_simps \<open>byte layouts of buffers: lengths, slices and single bytes\<close>
named_theorems map_simps \<open>lookup, length and key sets of Go maps after an operation\<close>
named_theorems inv_intros \<open>an operation preserves its component's invariant\<close>
named_theorems frame_simps \<open>what an operation leaves unchanged\<close>

section \<open>Slices\<close>

text \<open>\<open>subslice i j xs\<close> is Go's \<open>xs[i:j]\<close> for \<open>i \<le> j \<le> len(xs)\<close>.\<close>

definition subslice :: "nat \<Rightarrow> nat \<Rightarrow> 'a list \<Rightarrow> 'a list" where
  "subslice i j xs = take (j - i) (drop i xs)"

text \<open>
  \<open>blit off src dst\<close> is \<open>copy(dst[off:], src)\<close>: it copies as many elements as fit, so the
  destination keeps its length.
\<close>

definition blit :: "nat \<Rightarrow> 'a list \<Rightarrow> 'a list \<Rightarrow> 'a list" where
  "blit off src dst =
     (let n = min (length src) (length dst - off)
      in take off dst @ take n src @ drop (off + n) dst)"

lemma length_subslice [simp, layout_simps]: "length (subslice i j xs) = min (j - i) (length xs - i)"
  by (simp add: subslice_def min.commute)

lemma length_blit [simp, layout_simps]: "off \<le> length dst \<Longrightarrow> length (blit off src dst) = length dst"
  by (auto simp: blit_def Let_def min_def)

lemma blit_fits:
  "off + length src \<le> length dst \<Longrightarrow>
   blit off src dst = take off dst @ src @ drop (off + length src) dst"
  by (simp add: blit_def Let_def)

lemma subslice_append_left: "j \<le> length xs \<Longrightarrow> subslice i j (xs @ ys) = subslice i j xs"
  by (simp add: subslice_def)

lemma subslice_append_right:
  "length xs \<le> i \<Longrightarrow> subslice i j (xs @ ys) = subslice (i - length xs) (j - length xs) ys"
  by (simp add: subslice_def)

lemma subslice_full [simp]: "subslice 0 (length xs) xs = xs"
  by (simp add: subslice_def)

section \<open>Assertions on results\<close>

lemma sum_case_Inr_iff:
  "(case r of Inl e \<Rightarrow> Inl e | Inr x \<Rightarrow> f x) = Inr y \<longleftrightarrow> (\<exists>x. r = Inr x \<and> f x = Inr y)"
  by (cases r) auto

end
