(* ===== verification/GoFloat.thy ===== *)
theory GoFloat
  imports Prelude Complex_Main "HOL-Library.Log_Nat"
begin

text \<open>
  Go's \<^verbatim>\<open>float32\<close> and \<^verbatim>\<open>float64\<close>: IEEE 754 binary formats, round to nearest, ties to even.
  A finite float is the rational it denotes; \<^verbatim>\<open>rnd\<close> rounds a rational to the format, with
  gradual underflow, and every arithmetic operation is the exact one followed by rounding.
  The sign of a zero is not kept: no operation of the modelled code observes it (the code
  compares, adds, multiplies, divides by non-zero constants and converts to integers).
\<close>

section \<open>Formats and values\<close>

datatype fmt = F32 | F64

primrec prec :: "fmt \<Rightarrow> nat" where
  "prec F32 = 24"
| "prec F64 = 53"

text \<open>The exponent of the least positive float is \<open>- qmin\<close>.\<close>

primrec qmin :: "fmt \<Rightarrow> nat" where
  "qmin F32 = 149"
| "qmin F64 = 1074"

text \<open>Values of magnitude \<open>2 ^ emax\<close> and more are out of the finite range.\<close>

primrec emax :: "fmt \<Rightarrow> nat" where
  "emax F32 = 128"
| "emax F64 = 1024"

declare emax.simps [simp del]

datatype fl = Fin rat | PosInf | NegInf | NaN

section \<open>Rounding a rational\<close>

fun lg2 :: "nat \<Rightarrow> nat" where
  "lg2 n = (if n < 2 then 0 else Suc (lg2 (n div 2)))"

declare lg2.simps [simp del]

definition pow2 :: "int \<Rightarrow> rat" where
  "pow2 e = (if 0 \<le> e then 2 ^ nat e else 1 / 2 ^ nat (- e))"

text \<open>\<open>rlog2 x\<close> is the exponent of the binade of \<open>x > 0\<close>.\<close>

definition rlog2 :: "rat \<Rightarrow> int" where
  "rlog2 x =
     (let (n, d) = quotient_of x;
          k = int (lg2 (nat n)) - int (lg2 (nat d))
      in if pow2 k \<le> x then k else k - 1)"

definition round_half_even :: "rat \<Rightarrow> int" where
  "round_half_even x =
     (let f = \<lfloor>x\<rfloor>; r = x - of_int f
      in if r < 1 / 2 then f else if 1 / 2 < r then f + 1 else if even f then f else f + 1)"

text \<open>\<open>ulp_exp\<close> is the exponent of the last place of the floats next to \<open>x\<close>.\<close>

definition ulp_exp :: "fmt \<Rightarrow> rat \<Rightarrow> int" where
  "ulp_exp f x = max (rlog2 \<bar>x\<bar> - (int (prec f) - 1)) (- int (qmin f))"

definition rnd :: "fmt \<Rightarrow> rat \<Rightarrow> rat" where
  "rnd f x =
     (if x = 0 then 0
      else of_int (round_half_even (x / pow2 (ulp_exp f x))) * pow2 (ulp_exp f x))"

definition to_fl :: "fmt \<Rightarrow> rat \<Rightarrow> fl" where
  "to_fl f x =
     (let r = rnd f x
      in if pow2 (int (emax f)) \<le> r then PosInf
         else if r \<le> - pow2 (int (emax f)) then NegInf
         else Fin r)"

section \<open>Operations\<close>

fun fadd :: "fmt \<Rightarrow> fl \<Rightarrow> fl \<Rightarrow> fl" where
  "fadd f (Fin x) (Fin y) = to_fl f (x + y)"
| "fadd f NaN _ = NaN"
| "fadd f _ NaN = NaN"
| "fadd f PosInf NegInf = NaN"
| "fadd f NegInf PosInf = NaN"
| "fadd f PosInf _ = PosInf"
| "fadd f _ PosInf = PosInf"
| "fadd f NegInf _ = NegInf"
| "fadd f _ NegInf = NegInf"

fun fneg :: "fl \<Rightarrow> fl" where
  "fneg (Fin x) = Fin (- x)"
| "fneg PosInf = NegInf"
| "fneg NegInf = PosInf"
| "fneg NaN = NaN"

definition fsub :: "fmt \<Rightarrow> fl \<Rightarrow> fl \<Rightarrow> fl" where
  "fsub f x y = fadd f x (fneg y)"

text \<open>Multiplication by a finite non-zero constant \<open>c\<close> of the format.\<close>

fun fmulc :: "fmt \<Rightarrow> rat \<Rightarrow> fl \<Rightarrow> fl" where
  "fmulc f c (Fin x) = to_fl f (c * x)"
| "fmulc f c PosInf = (if 0 < c then PosInf else NegInf)"
| "fmulc f c NegInf = (if 0 < c then NegInf else PosInf)"
| "fmulc f c NaN = NaN"

text \<open>Division by a finite non-zero constant \<open>c\<close> of the format.\<close>

fun fdivc :: "fmt \<Rightarrow> fl \<Rightarrow> rat \<Rightarrow> fl" where
  "fdivc f (Fin x) c = to_fl f (x / c)"
| "fdivc f PosInf c = (if 0 < c then PosInf else NegInf)"
| "fdivc f NegInf c = (if 0 < c then NegInf else PosInf)"
| "fdivc f NaN c = NaN"

fun fabs :: "fl \<Rightarrow> fl" where
  "fabs (Fin x) = Fin \<bar>x\<bar>"
| "fabs NaN = NaN"
| "fabs _ = PosInf"

text \<open>The comparisons: false as soon as an operand is \<^verbatim>\<open>NaN\<close>.\<close>

fun flt :: "fl \<Rightarrow> fl \<Rightarrow> bool" where
  "flt (Fin x) (Fin y) = (x < y)"
| "flt NaN _ = False"
| "flt _ NaN = False"
| "flt NegInf NegInf = False"
| "flt NegInf _ = True"
| "flt _ NegInf = False"
| "flt PosInf _ = False"
| "flt _ PosInf = True"

abbreviation fgt :: "fl \<Rightarrow> fl \<Rightarrow> bool" where
  "fgt x y \<equiv> flt y x"

definition fle :: "fl \<Rightarrow> fl \<Rightarrow> bool" where
  "fle x y \<longleftrightarrow> x \<noteq> NaN \<and> y \<noteq> NaN \<and> \<not> flt y x"

text \<open>Conversion of an integer to a float.\<close>

definition fl_of_int :: "fmt \<Rightarrow> int \<Rightarrow> fl" where
  "fl_of_int f n = to_fl f (of_int n)"

text \<open>
  Conversion of a float to a signed integer of \<open>w\<close> bits: the fraction is dropped. A value
  that does not fit is, in Go, implementation-dependent: the argument \<open>unrep\<close> gives it.
\<close>

definition trunc_rat :: "rat \<Rightarrow> int" where
  "trunc_rat x = (if 0 \<le> x then \<lfloor>x\<rfloor> else \<lceil>x\<rceil>)"

definition fl_to_int :: "nat \<Rightarrow> (fl \<Rightarrow> int) \<Rightarrow> fl \<Rightarrow> int" where
  "fl_to_int w unrep x =
     (case x of
        Fin q \<Rightarrow>
          (let n = trunc_rat q
           in if - (2 ^ (w - 1)) \<le> n \<and> n < 2 ^ (w - 1) then n else unrep x)
      | _ \<Rightarrow> unrep x)"

section \<open>Powers of two and binades\<close>

lemma pow2_pos [simp]: "0 < pow2 e" and pow2_nonneg [simp]: "0 \<le> pow2 e"
  and pow2_nz [simp]: "pow2 e \<noteq> 0"
  by (simp_all add: pow2_def)

lemma pow2_0 [simp]: "pow2 0 = 1"
  by (simp add: pow2_def)

lemma pow2_powi: "pow2 e = power_int 2 e"
  by (simp add: pow2_def power_int_def power_one_over inverse_eq_divide)

lemma pow2_add: "pow2 (a + b) = pow2 a * pow2 b"
  by (simp add: pow2_powi power_int_add)

lemma pow2_minus: "pow2 (- a) = 1 / pow2 a"
  by (simp add: pow2_powi power_int_minus divide_inverse)

lemma pow2_diff: "pow2 (a - b) = pow2 a / pow2 b"
  by (simp add: pow2_powi power_int_diff)

lemma pow2_mono: "a \<le> b \<Longrightarrow> pow2 a \<le> pow2 b"
  by (simp add: pow2_powi power_int_increasing)

lemma pow2_strict_mono: "a < b \<Longrightarrow> pow2 a < pow2 b"
  by (simp add: pow2_powi power_int_strict_increasing)

lemma pow2_le_iff [simp]: "pow2 a \<le> pow2 b \<longleftrightarrow> a \<le> b"
  by (meson leI not_less pow2_mono pow2_strict_mono)

lemma pow2_less_iff [simp]: "pow2 a < pow2 b \<longleftrightarrow> a < b"
  by (meson leI not_less pow2_mono pow2_strict_mono)

lemma pow2_of_nat: "pow2 (int n) = of_int (2 ^ n)"
  by (simp add: pow2_def)

lemma pow2_int: "0 \<le> e \<Longrightarrow> pow2 e = of_int (2 ^ nat e)"
  by (simp add: pow2_def)

lemma pow2_scale: "a \<le> b \<Longrightarrow> of_int (2 ^ nat (b - a)) * pow2 a = pow2 b"
  by (simp only: pow2_int [symmetric] diff_ge_0_iff_ge pow2_diff) simp

lemma lg2_bounds: "0 < n \<Longrightarrow> 2 ^ lg2 n \<le> n \<and> n < 2 ^ Suc (lg2 n)"
proof (induction n rule: lg2.induct)
  case (1 n)
  show ?case
  proof (cases "n < 2")
    case True
    with 1 show ?thesis by (subst (1 2) lg2.simps) auto
  next
    case False
    with 1 have "2 ^ lg2 (n div 2) \<le> n div 2 \<and> n div 2 < 2 ^ Suc (lg2 (n div 2))"
      by simp
    then have "2 * 2 ^ lg2 (n div 2) \<le> n \<and> n < 2 * 2 ^ Suc (lg2 (n div 2))"
      by (auto simp: div_less_iff_less_mult)
    with False show ?thesis by (subst (1 2) lg2.simps) auto
  qed
qed

lemma rlog2_bounds:
  assumes "0 < x"
  shows "pow2 (rlog2 x) \<le> x" and "x < pow2 (rlog2 x + 1)"
proof -
  obtain n d where q: "quotient_of x = (n, d)" by force
  with assms have d: "0 < d" and xq: "x = of_int n / of_int d"
    by (auto simp: quotient_of_denom_pos quotient_of_div)
  with assms have n: "0 < n" by (simp add: zero_less_divide_iff)
  define a b where "a = lg2 (nat n)" and "b = lg2 (nat d)"
  have nat_bounds: "2 ^ a \<le> nat n \<and> nat n < 2 ^ Suc a" "2 ^ b \<le> nat d \<and> nat d < 2 ^ Suc b"
    using lg2_bounds [of "nat n"] lg2_bounds [of "nat d"] n d
    unfolding a_def b_def by simp_all
  have n1: "(2 ^ a :: rat) \<le> of_int n" and n2: "of_int n < (2 ^ Suc a :: rat)"
    and d1: "(2 ^ b :: rat) \<le> of_int d" and d2: "of_int d < (2 ^ Suc b :: rat)"
    using nat_bounds n d
    by (metis less_imp_le of_nat_numeral of_nat_power nat_0_le of_int_of_nat_eq of_nat_le_iff of_nat_less_iff)+
  define k where "k = int a - int b"
  have pk: "pow2 k = 2 ^ a / 2 ^ b"
    by (simp add: k_def pow2_diff pow2_of_nat)
  have dpos: "(0::rat) < of_int d" using d by simp
  have up: "x < pow2 (k + 1)"
  proof -
    have "x \<le> of_int n / 2 ^ b"
      unfolding xq using d1 n d by (intro divide_left_mono mult_pos_pos) auto
    also have "\<dots> < 2 ^ Suc a / 2 ^ b"
      using n2 by (simp add: divide_strict_right_mono)
    also have "\<dots> = pow2 (k + 1)"
      unfolding pow2_add pk by (simp add: pow2_def)
    finally show ?thesis .
  qed
  have lo: "pow2 (k - 1) \<le> x"
  proof -
    have "pow2 (k - 1) = 2 ^ a / 2 ^ Suc b"
      by (simp add: pow2_diff pk) (simp add: pow2_def)
    also have "\<dots> \<le> of_int n / 2 ^ Suc b"
      using n1 by (simp add: divide_right_mono)
    also have "\<dots> \<le> x"
      unfolding xq using d2 dpos n by (intro divide_left_mono mult_pos_pos) auto
    finally show ?thesis .
  qed
  have r: "rlog2 x = (if pow2 k \<le> x then k else k - 1)"
    by (simp add: rlog2_def q k_def a_def b_def)
  show "pow2 (rlog2 x) \<le> x" using r lo by simp
  show "x < pow2 (rlog2 x + 1)" using r up by simp
qed

lemma rlog2_unique:
  assumes "pow2 k \<le> x" and "x < pow2 (k + 1)"
  shows "rlog2 x = k"
proof -
  have "0 < x" using assms(1) pow2_pos less_le_trans by blast
  note b = rlog2_bounds [OF this]
  have "pow2 k < pow2 (rlog2 x + 1)" "pow2 (rlog2 x) < pow2 (k + 1)"
    using assms b by (metis le_less_trans)+
  then show ?thesis by simp
qed

lemma rlog2_mono: "0 < x \<Longrightarrow> x \<le> y \<Longrightarrow> rlog2 x \<le> rlog2 y"
proof -
  assume a: "0 < x" "x \<le> y"
  then have "pow2 (rlog2 x) < pow2 (rlog2 y + 1)"
    using rlog2_bounds(1) [of x] rlog2_bounds(2) [of y] by linarith
  then show ?thesis by simp
qed

section \<open>Rounding to an integer\<close>

lemma round_half_even_of_int [simp]: "round_half_even (of_int n) = n"
  by (simp add: round_half_even_def)

lemma round_half_even_error: "\<bar>of_int (round_half_even x) - x\<bar> \<le> 1 / 2"
proof -
  define f where "f = \<lfloor>x\<rfloor>"
  have "of_int f \<le> x" "x < of_int f + 1" by (simp_all add: f_def) linarith
  then show ?thesis
    by (auto simp: round_half_even_def Let_def f_def [symmetric] abs_if)
qed

lemma round_half_even_mono: "x \<le> y \<Longrightarrow> round_half_even x \<le> round_half_even y"
proof -
  assume xy: "x \<le> y"
  then have f: "\<lfloor>x\<rfloor> \<le> \<lfloor>y\<rfloor>" by (rule floor_mono)
  show ?thesis
  proof (cases "\<lfloor>x\<rfloor> = \<lfloor>y\<rfloor>")
    case True
    with xy show ?thesis by (auto simp: round_half_even_def Let_def)
  next
    case False
    have "round_half_even x \<le> \<lfloor>x\<rfloor> + 1" "\<lfloor>y\<rfloor> \<le> round_half_even y"
      by (auto simp: round_half_even_def Let_def)
    with False f show ?thesis by linarith
  qed
qed

lemma round_half_even_minus: "round_half_even (- x) = - round_half_even x"
proof (cases "x = of_int \<lfloor>x\<rfloor>")
  case True
  then obtain n where "x = of_int n" by blast
  then show ?thesis by (metis of_int_minus round_half_even_of_int)
next
  case False
  define f where "f = \<lfloor>x\<rfloor>"
  have "of_int f \<le> x" "x < of_int f + 1" by (simp_all add: f_def) linarith
  with False have fl: "\<lfloor>- x\<rfloor> = - f - 1"
    by (intro floor_unique) (auto simp: f_def [symmetric])
  show ?thesis
    unfolding round_half_even_def fl f_def [symmetric] Let_def
    by (auto; linarith)
qed

lemma round_half_even_le_int: "x \<le> of_int n \<Longrightarrow> round_half_even x \<le> n"
  by (metis round_half_even_mono round_half_even_of_int)

lemma round_half_even_ge_int: "of_int n \<le> x \<Longrightarrow> n \<le> round_half_even x"
  by (metis round_half_even_mono round_half_even_of_int)

lemma round_half_even_near:
  assumes "\<bar>x - of_int n\<bar> < 1 / 2" shows "round_half_even x = n"
proof -
  have "\<bar>of_int (round_half_even x) - of_int n :: rat\<bar> < 1"
    using round_half_even_error [of x] assms by linarith
  then have "\<bar>round_half_even x - n\<bar> < 1"
    by (metis of_int_abs of_int_diff of_int_less_1_iff)
  then show ?thesis by simp
qed

section \<open>Rounding to the format\<close>

text \<open>\<open>rep f x\<close>: \<open>x\<close> is a value of the format with its exponent range unbounded above.\<close>

definition rep :: "fmt \<Rightarrow> rat \<Rightarrow> bool" where
  "rep f x \<longleftrightarrow> (\<exists>m e. x = of_int m * pow2 e \<and> \<bar>m\<bar> < 2 ^ prec f \<and> - int (qmin f) \<le> e)"

lemma prec_pos [simp]: "0 < prec f"
  by (cases f) auto

lemma rnd_0 [simp]: "rnd f 0 = 0"
  by (simp add: rnd_def)

lemma rnd_minus: "rnd f (- x) = - rnd f x"
  by (simp add: rnd_def ulp_exp_def round_half_even_minus minus_divide_left [symmetric])

lemma rep_minus [simp]: "rep f (- x) \<longleftrightarrow> rep f x"
proof -
  have "rep f x \<Longrightarrow> rep f (- x)" for x
    unfolding rep_def by (metis abs_minus_cancel minus_mult_left of_int_minus)
  then show ?thesis by force
qed

lemma rep_0 [simp]: "rep f 0"
  unfolding rep_def by (intro exI [of _ 0] exI [of _ "0::int"]) auto

text \<open>A representable number is rounded to itself.\<close>

lemma rnd_rep:
  assumes "rep f x" shows "rnd f x = x"
proof (cases "x = 0")
  case False
  from assms obtain m e where x: "x = of_int m * pow2 e" and m: "\<bar>m\<bar> < 2 ^ prec f"
    and e: "- int (qmin f) \<le> e" unfolding rep_def by blast
  have "\<bar>x\<bar> < pow2 (int (prec f) + e)"
  proof -
    have "(of_int \<bar>m\<bar> :: rat) < of_int (2 ^ prec f)" using m by (simp only: of_int_less_iff)
    then have "(of_int \<bar>m\<bar> :: rat) < pow2 (int (prec f))" by (simp only: pow2_of_nat)
    then show ?thesis by (simp add: x abs_mult pow2_add mult_strict_right_mono)
  qed
  moreover have "pow2 (rlog2 \<bar>x\<bar>) \<le> \<bar>x\<bar>" using False by (intro rlog2_bounds) simp
  ultimately have "pow2 (rlog2 \<bar>x\<bar>) < pow2 (int (prec f) + e)" by linarith
  then have le: "ulp_exp f x \<le> e" using e by (simp add: ulp_exp_def)
  have "x / pow2 (ulp_exp f x) = of_int m * pow2 (e - ulp_exp f x)"
    by (simp add: x pow2_diff)
  also have "\<dots> = of_int (m * 2 ^ nat (e - ulp_exp f x))"
    using le by (simp add: pow2_int)
  finally have "x / pow2 (ulp_exp f x) = of_int (m * 2 ^ nat (e - ulp_exp f x))" .
  then have "rnd f x = (x / pow2 (ulp_exp f x)) * pow2 (ulp_exp f x)"
    using False by (metis rnd_def round_half_even_of_int)
  then show ?thesis by simp
qed simp

text \<open>An integer of at most \<open>prec f\<close> bits is representable, and so is its quotient by a power of 2.\<close>

lemma rep_of_int: "\<bar>n\<bar> < 2 ^ prec f \<Longrightarrow> rep f (of_int n)"
  unfolding rep_def by (intro exI [of _ n] exI [of _ "0::int"]) auto

lemma rep_dyadic: "\<bar>n\<bar> < 2 ^ prec f \<Longrightarrow> - int (qmin f) \<le> e \<Longrightarrow> rep f (of_int n * pow2 e)"
  unfolding rep_def by blast

lemma rep_le_dyadic: "\<bar>n\<bar> \<le> 2 ^ prec f \<Longrightarrow> - int (qmin f) \<le> e \<Longrightarrow> rep f (of_int n * pow2 e)"
proof (cases "\<bar>n\<bar> = 2 ^ prec f")
  case True
  assume e: "- int (qmin f) \<le> e"
  obtain k where k: "prec f = Suc k" by (metis Suc_pred prec_pos)
  define s :: int where "s = sgn n"
  have n: "n = s * 2 ^ prec f" by (metis True abs_mult_sgn mult.commute s_def)
  have "of_int n * pow2 e = of_int (s * 2 ^ k) * pow2 (e + 1)"
    by (simp add: n k pow2_add) (simp add: pow2_def)
  moreover have "\<bar>s * 2 ^ k\<bar> < 2 ^ prec f" by (auto simp: s_def sgn_if abs_mult k)
  ultimately show ?thesis using e by (metis rep_dyadic add_increasing2 zero_le_one)
qed (simp add: rep_dyadic)

lemma ulp_exp_ge: "- int (qmin f) \<le> ulp_exp f x"
  by (simp add: ulp_exp_def)

lemma scaled_bound:
  assumes "x \<noteq> 0" shows "\<bar>x / pow2 (ulp_exp f x)\<bar> < of_int (2 ^ prec f)"
proof -
  have "\<bar>x\<bar> < pow2 (rlog2 \<bar>x\<bar> + 1)" using assms by (intro rlog2_bounds) simp
  also have "\<dots> \<le> pow2 (int (prec f) + ulp_exp f x)" by (simp add: ulp_exp_def)
  finally have "\<bar>x\<bar> < of_int (2 ^ prec f) * pow2 (ulp_exp f x)" by (simp add: pow2_add pow2_of_nat)
  then show ?thesis by (simp add: abs_divide divide_less_eq)
qed

lemma rep_rnd: "rep f (rnd f x)"
proof (cases "x = 0")
  case False
  define e y where "e = ulp_exp f x" and "y = x / pow2 (ulp_exp f x)"
  have y: "\<bar>y\<bar> < of_int (2 ^ prec f)" unfolding y_def by (rule scaled_bound [OF False])
  have "round_half_even y \<le> 2 ^ prec f" "- (2 ^ prec f) \<le> round_half_even y"
    using y by (intro round_half_even_le_int round_half_even_ge_int; simp)+
  then have "\<bar>round_half_even y\<bar> \<le> 2 ^ prec f" by linarith
  moreover have "rnd f x = of_int (round_half_even y) * pow2 e"
    using False by (simp add: rnd_def y_def e_def)
  ultimately show ?thesis by (metis e_def rep_le_dyadic ulp_exp_ge)
qed simp

lemma rnd_idem [simp]: "rnd f (rnd f x) = rnd f x"
  by (rule rnd_rep [OF rep_rnd])

lemma rnd_nonneg: "0 \<le> x \<Longrightarrow> 0 \<le> rnd f x"
  by (auto simp: rnd_def intro!: mult_nonneg_nonneg round_half_even_ge_int)

lemma rnd_mono_pos:
  assumes x: "0 < x" and xy: "x \<le> y" shows "rnd f x \<le> rnd f y"
proof -
  have y: "0 < y" using x xy by simp
  define ex ey where "ex = ulp_exp f x" and "ey = ulp_exp f y"
  have le: "ex \<le> ey"
    unfolding ex_def ey_def ulp_exp_def using rlog2_mono [OF x xy] x y by auto
  have rx: "rnd f x = of_int (round_half_even (x / pow2 ex)) * pow2 ex"
    and ry: "rnd f y = of_int (round_half_even (y / pow2 ey)) * pow2 ey"
    using x y by (simp_all add: rnd_def ex_def ey_def)
  show ?thesis
  proof (cases "ex = ey")
    case True
    then show ?thesis
      unfolding rx ry using xy by (simp add: round_half_even_mono divide_right_mono)
  next
    case False
    define L where "L = rlog2 y"
    have ey: "ey = L - (int (prec f) - 1)" and exL: "rlog2 x < L" and "ex \<le> L"
      using False le x y unfolding ex_def ey_def ulp_exp_def L_def by (auto simp: max_def split: if_splits)
    have eyL: "ey \<le> L" using prec_pos [of f] ey by linarith
    have "x / pow2 ex \<le> of_int (2 ^ nat (L - ex))"
    proof -
      have "x < pow2 (rlog2 x + 1)" by (rule rlog2_bounds [OF x])
      also have "\<dots> \<le> pow2 L" using exL by simp
      also have "\<dots> = of_int (2 ^ nat (L - ex)) * pow2 ex"
        using \<open>ex \<le> L\<close> by (simp only: pow2_scale)
      finally show ?thesis by (simp add: divide_le_eq)
    qed
    then have "round_half_even (x / pow2 ex) \<le> 2 ^ nat (L - ex)"
      by (rule round_half_even_le_int)
    then have "(of_int (round_half_even (x / pow2 ex)) :: rat) \<le> of_int (2 ^ nat (L - ex))"
      by (simp only: of_int_le_iff)
    then have "rnd f x \<le> of_int (2 ^ nat (L - ex)) * pow2 ex"
      unfolding rx by (intro mult_right_mono) auto
    also have "\<dots> = pow2 L" using \<open>ex \<le> L\<close> by (simp only: pow2_scale)
    also have "\<dots> = of_int (2 ^ nat (L - ey)) * pow2 ey" using eyL by (simp only: pow2_scale)
    also have "\<dots> \<le> rnd f y"
    proof -
      have "of_int (2 ^ nat (L - ey)) * pow2 ey \<le> y"
        using rlog2_bounds(1) [OF y] eyL by (simp only: pow2_scale L_def)
      then have "2 ^ nat (L - ey) \<le> round_half_even (y / pow2 ey)"
        by (intro round_half_even_ge_int) (simp add: le_divide_eq)
      then have "(of_int (2 ^ nat (L - ey)) :: rat) \<le> of_int (round_half_even (y / pow2 ey))"
        by (simp only: of_int_le_iff)
      then show ?thesis unfolding ry by (intro mult_right_mono) auto
    qed
    finally show ?thesis .
  qed
qed

text \<open>Rounding is monotone.\<close>

lemma rnd_mono: "x \<le> y \<Longrightarrow> rnd f x \<le> rnd f y"
proof -
  assume xy: "x \<le> y"
  consider "0 < x" | "y < 0" | "x \<le> 0" "0 \<le> y" using xy by linarith
  then show ?thesis
  proof cases
    case 1 from this xy show ?thesis by (rule rnd_mono_pos)
  next
    case 2
    then have "rnd f (- y) \<le> rnd f (- x)" using xy by (intro rnd_mono_pos) auto
    then show ?thesis by (simp add: rnd_minus)
  next
    case 3
    then have "0 \<le> rnd f (- x)" "0 \<le> rnd f y" by (intro rnd_nonneg; simp)+
    then show ?thesis by (simp add: rnd_minus)
  qed
qed

lemma rnd_le_rep: "rep f b \<Longrightarrow> x \<le> b \<Longrightarrow> rnd f x \<le> b"
  by (metis rnd_mono rnd_rep)

lemma rnd_ge_rep: "rep f b \<Longrightarrow> b \<le> x \<Longrightarrow> b \<le> rnd f x"
  by (metis rnd_mono rnd_rep)

lemma rnd_gt_rep: "rep f b \<Longrightarrow> b < rnd f x \<Longrightarrow> b < x"
  by (meson not_less rnd_le_rep)

lemma rnd_lt_rep: "rep f b \<Longrightarrow> rnd f x < b \<Longrightarrow> x < b"
  by (meson not_less rnd_ge_rep)

text \<open>The error is at most half a unit in the last place.\<close>

lemma rnd_error: "\<bar>rnd f x - x\<bar> \<le> pow2 (ulp_exp f x) / 2"
proof (cases "x = 0")
  case False
  define e where "e = ulp_exp f x"
  define d where "d = of_int (round_half_even (x / pow2 e)) - x / pow2 e"
  have "rnd f x - x = d * pow2 e"
    using False by (simp add: rnd_def e_def d_def left_diff_distrib)
  then have "\<bar>rnd f x - x\<bar> = \<bar>d\<bar> * pow2 e" by (simp add: abs_mult)
  also have "\<dots> \<le> 1 / 2 * pow2 e"
    using round_half_even_error [of "x / pow2 e"] by (intro mult_right_mono) (auto simp: d_def)
  finally show ?thesis by (simp add: e_def)
qed simp

section \<open>Finite values\<close>

text \<open>\<open>fl_wf f v\<close>: \<open>v\<close> is a value of the format.\<close>

fun fl_wf :: "fmt \<Rightarrow> fl \<Rightarrow> bool" where
  "fl_wf f (Fin x) = (rep f x \<and> \<bar>x\<bar> < pow2 (int (emax f)))"
| "fl_wf f _ = True"

lemma emax_le_prec: "int (prec f) \<le> int (emax f)"
  by (cases f) (auto simp: emax.simps)

lemma to_fl_wf [simp]: "fl_wf f (to_fl f x)"
  by (auto simp: to_fl_def Let_def rep_rnd)

lemma to_fl_rep: "rep f x \<Longrightarrow> \<bar>x\<bar> < pow2 (int (emax f)) \<Longrightarrow> to_fl f x = Fin x"
  by (auto simp: to_fl_def rnd_rep)

lemma to_fl_wf_id: "fl_wf f (Fin x) \<Longrightarrow> to_fl f x = Fin x"
  by (simp add: to_fl_rep)

text \<open>Integers of at most \<open>prec f\<close> bits are exact.\<close>

lemma small_int_range: "\<bar>n\<bar> < 2 ^ prec f \<Longrightarrow> \<bar>of_int n\<bar> < pow2 (int (emax f))"
proof -
  assume "\<bar>n\<bar> < 2 ^ prec f"
  then have "(of_int \<bar>n\<bar> :: rat) < of_int (2 ^ prec f)" by (simp only: of_int_less_iff)
  also have "\<dots> = pow2 (int (prec f))" by (simp only: pow2_of_nat)
  also have "\<dots> \<le> pow2 (int (emax f))" using emax_le_prec by simp
  finally show ?thesis by simp
qed

lemma to_fl_of_int: "\<bar>n\<bar> < 2 ^ prec f \<Longrightarrow> to_fl f (of_int n) = Fin (of_int n)"
  by (simp add: to_fl_rep rep_of_int small_int_range)

lemma to_fl_numeral: "numeral w < (2::int) ^ prec f \<Longrightarrow> to_fl f (numeral w) = Fin (numeral w)"
  using to_fl_of_int [of "numeral w" f] by simp

lemma fl_wf_of_int: "\<bar>n\<bar> < 2 ^ prec f \<Longrightarrow> fl_wf f (Fin (of_int n))"
  by (simp add: rep_of_int small_int_range)

lemma fl_wf_numeral: "numeral w < (2::int) ^ prec f \<Longrightarrow> fl_wf f (Fin (numeral w))"
  using fl_wf_of_int [of "numeral w" f] by simp

lemma to_fl_cases:
  obtains "to_fl f x = PosInf" "pow2 (int (emax f)) \<le> rnd f x"
  | "to_fl f x = NegInf" "rnd f x \<le> - pow2 (int (emax f))"
  | "to_fl f x = Fin (rnd f x)"
  unfolding to_fl_def Let_def by (metis (no_types))

lemma flt_irrefl [simp]: "\<not> flt x x"
  by (cases x) auto

lemma flt_trans: "flt x y \<Longrightarrow> flt y z \<Longrightarrow> flt x z"
  by (cases x; cases y; cases z) auto

lemma flt_NaN [simp]: "\<not> flt NaN y" "\<not> flt x NaN"
  by (cases y; simp) (cases x; simp)

lemma flt_total: "x \<noteq> NaN \<Longrightarrow> y \<noteq> NaN \<Longrightarrow> flt x y \<or> x = y \<or> flt y x"
  by (cases x; cases y) auto

lemma fle_Fin [simp]: "fle (Fin x) (Fin y) \<longleftrightarrow> x \<le> y"
  by (auto simp: fle_def)

lemma fsub_Fin: "fsub f (Fin x) (Fin y) = to_fl f (x - y)"
  by (simp add: fsub_def)

text \<open>The rounded sum lies on the same side of a float as the exact sum.\<close>

lemma to_fl_less_iff:
  assumes "fl_wf f (Fin b)"
  shows "flt (to_fl f x) (Fin b) \<longleftrightarrow> rnd f x < b" and "flt (Fin b) (to_fl f x) \<longleftrightarrow> b < rnd f x"
  using assms by (auto simp: to_fl_def Let_def) 

end
