(* ===== verification/GoMap.thy ===== *)
theory GoMap
  imports Prelude "HOL-Library.Multiset"
begin

text \<open>
  Go's maps as association lists with distinct keys, their interface as the locale
  \<^verbatim>\<open>go_map\<close>, the order in which a \<^verbatim>\<open>range\<close> loop visits a map, and the contract \<^verbatim>\<open>registry\<close>
  shared by the four components that keep one entry per client (session, stream manager,
  clock synchronisation, latency equaliser).
\<close>

section \<open>Maps\<close>

type_synonym ('k, 'v) gomap = "('k \<times> 'v) list"

definition gm_empty :: "('k, 'v) gomap" where
  "gm_empty = []"

definition gm_get :: "('k, 'v) gomap \<Rightarrow> 'k \<Rightarrow> 'v option" where
  "gm_get m = map_of m"

definition gm_put :: "'k \<Rightarrow> 'v \<Rightarrow> ('k, 'v) gomap \<Rightarrow> ('k, 'v) gomap" where
  "gm_put k v m = AList.update k v m"

definition gm_del :: "'k \<Rightarrow> ('k, 'v) gomap \<Rightarrow> ('k, 'v) gomap" where
  "gm_del k m = AList.delete k m"

definition gm_len :: "('k, 'v) gomap \<Rightarrow> nat" where
  "gm_len m = length m"

definition gm_keys :: "('k, 'v) gomap \<Rightarrow> 'k list" where
  "gm_keys m = map fst m"

definition gm_wf :: "('k, 'v) gomap \<Rightarrow> bool" where
  "gm_wf m \<longleftrightarrow> distinct (map fst m)"

text \<open>\<^verbatim>\<open>if v, ok := m[k]; ok { ... v.field = ... }\<close> on a map of pointers.\<close>

definition gm_upd :: "'k \<Rightarrow> ('v \<Rightarrow> 'v) \<Rightarrow> ('k, 'v) gomap \<Rightarrow> ('k, 'v) gomap" where
  "gm_upd k f m = (case gm_get m k of None \<Rightarrow> m | Some v \<Rightarrow> gm_put k (f v) m)"

text \<open>
  A \<^verbatim>\<open>range\<close> loop visits every key once, in an order the language leaves open: an operation
  whose result depends on it takes the order as an argument \<open>ks\<close>.
\<close>

definition range_order :: "('k, 'v) gomap \<Rightarrow> 'k list \<Rightarrow> bool" where
  "range_order m ks \<longleftrightarrow> distinct ks \<and> set ks = set (gm_keys m)"

locale go_map =
  fixes empty :: 'm
    and get :: "'m \<Rightarrow> 'k \<Rightarrow> 'v option"
    and put :: "'k \<Rightarrow> 'v \<Rightarrow> 'm \<Rightarrow> 'm"
    and del :: "'k \<Rightarrow> 'm \<Rightarrow> 'm"
    and len :: "'m \<Rightarrow> nat"
    and wf :: "'m \<Rightarrow> bool"
  assumes get_empty: "get empty k = None"
    and get_put: "get (put k v m) = (get m)(k \<mapsto> v)"
    and get_del: "get (del k m) = (get m)(k := None)"
    and len_eq: "wf m \<Longrightarrow> len m = card (dom (get m))"
    and dom_fin: "finite (dom (get m))"
    and wf_empty: "wf empty"
    and wf_put: "wf m \<Longrightarrow> wf (put k v m)"
    and wf_del: "wf m \<Longrightarrow> wf (del k m)"
begin

lemma dom_put: "dom (get (put k v m)) = insert k (dom (get m))"
  by (simp add: get_put)

lemma dom_del: "dom (get (del k m)) = dom (get m) - {k}"
  by (simp add: get_del)

lemma len_empty: "len empty = 0"
  using len_eq [OF wf_empty] by (simp add: get_empty dom_def)

lemma len_put_new: "wf m \<Longrightarrow> get m k = None \<Longrightarrow> len (put k v m) = Suc (len m)"
  by (simp add: len_eq wf_put dom_put card_insert_if dom_fin domIff)

lemma len_put_old: "wf m \<Longrightarrow> get m k = Some w \<Longrightarrow> len (put k v m) = len m"
  by (simp add: len_eq wf_put dom_put card_insert_if dom_fin domIff)

lemma len_del: "wf m \<Longrightarrow> len (del k m) = len m - (if get m k = None then 0 else 1)"
  by (auto simp: len_eq wf_del dom_del card_Diff_singleton_if domIff)

lemma len_0_iff: "wf m \<Longrightarrow> len m = 0 \<longleftrightarrow> (\<forall>k. get m k = None)"
  by (simp add: len_eq dom_fin) (auto simp: dom_def)

lemma del_put: "get (del k (put k v m)) = get (del k m)"
  by (simp add: get_del get_put)

end

lemma gm_get_empty [simp, map_simps]: "gm_get gm_empty k = None"
  by (simp add: gm_get_def gm_empty_def)

lemma gm_get_put [map_simps]: "gm_get (gm_put k v m) = (gm_get m)(k \<mapsto> v)"
  by (simp add: gm_get_def gm_put_def update_conv')

lemma gm_get_del [map_simps]: "gm_get (gm_del k m) = (gm_get m)(k := None)"
  by (simp add: gm_get_def gm_del_def delete_conv')

lemma gm_dom: "dom (gm_get m) = set (gm_keys m)"
  by (simp add: gm_get_def gm_keys_def dom_map_of_conv_image_fst)

lemma gm_get_None_iff: "gm_get m k = None \<longleftrightarrow> k \<notin> set (gm_keys m)"
  using gm_dom [of m] by auto

lemma gm_wf_empty [simp, inv_intros]: "gm_wf gm_empty"
  by (simp add: gm_wf_def gm_empty_def)

lemma gm_wf_put [simp, inv_intros]: "gm_wf m \<Longrightarrow> gm_wf (gm_put k v m)"
  by (simp add: gm_wf_def gm_put_def distinct_update)

lemma gm_wf_del [simp, inv_intros]: "gm_wf m \<Longrightarrow> gm_wf (gm_del k m)"
  by (simp add: gm_wf_def gm_del_def distinct_delete)

lemma gm_len_card: "gm_wf m \<Longrightarrow> gm_len m = card (dom (gm_get m))"
  unfolding gm_wf_def gm_len_def gm_dom gm_keys_def by (metis distinct_card length_map)

interpretation gm: go_map gm_empty gm_get gm_put gm_del gm_len gm_wf
  by unfold_locales (simp_all add: gm_get_put gm_get_del gm_len_card gm_dom)

lemma gm_wf_upd [simp, inv_intros]: "gm_wf m \<Longrightarrow> gm_wf (gm_upd k f m)"
  by (simp add: gm_upd_def split: option.split)

lemma gm_get_upd [map_simps]:
  "gm_get (gm_upd k f m) j = (if j = k then map_option f (gm_get m k) else gm_get m j)"
  by (auto simp: gm_upd_def gm_get_put split: option.split)

lemma gm_dom_upd [simp]: "dom (gm_get (gm_upd k f m)) = dom (gm_get m)"
  by (auto simp: gm_upd_def gm_get_put split: option.split)

lemma gm_keys_put [simp]: "set (gm_keys (gm_put k v m)) = insert k (set (gm_keys m))"
  by (simp flip: gm_dom add: gm_get_put)

lemma gm_keys_del [simp]: "set (gm_keys (gm_del k m)) = set (gm_keys m) - {k}"
  by (simp flip: gm_dom add: gm_get_del)

lemma gm_keys_upd [simp]: "set (gm_keys (gm_upd k f m)) = set (gm_keys m)"
  by (simp flip: gm_dom)

lemma gm_keys_empty [simp]: "gm_keys gm_empty = []"
  by (simp add: gm_keys_def gm_empty_def)

lemma range_order_set: "range_order m ks \<Longrightarrow> k \<in> set ks \<longleftrightarrow> gm_get m k \<noteq> None"
  by (simp add: range_order_def gm_get_None_iff)

lemma range_order_length: "gm_wf m \<Longrightarrow> range_order m ks \<Longrightarrow> length ks = gm_len m"
  by (metis range_order_def distinct_card gm_wf_def gm_keys_def gm_len_def length_map)

lemma range_order_keys: "gm_wf m \<Longrightarrow> range_order m (gm_keys m)"
  by (simp add: range_order_def gm_wf_def gm_keys_def)

lemma gm_get_mem: "gm_wf m \<Longrightarrow> gm_get m k = Some v \<longleftrightarrow> (k, v) \<in> set m"
  by (simp add: gm_wf_def gm_get_def map_of_eq_Some_iff)

section \<open>Registries of clients\<close>

datatype 'a reg_op = RegAdd string 'a | RegRemove string

fun reg_run :: "(string \<Rightarrow> 'a \<Rightarrow> 's \<Rightarrow> 's) \<Rightarrow> (string \<Rightarrow> 's \<Rightarrow> 's) \<Rightarrow> 'a reg_op list \<Rightarrow> 's \<Rightarrow> 's" where
  "reg_run add remove [] s = s"
| "reg_run add remove (RegAdd k a # ops) s = reg_run add remove ops (add k a s)"
| "reg_run add remove (RegRemove k # ops) s = reg_run add remove ops (remove k s)"

text \<open>The operation on a key that decides: the last one that names it.\<close>

fun last_op :: "string \<Rightarrow> 'a reg_op list \<Rightarrow> bool option" where
  "last_op k [] = None"
| "last_op k (x # ops) =
     (case last_op k ops of
        Some b \<Rightarrow> Some b
      | None \<Rightarrow>
          (case x of RegAdd j a \<Rightarrow> (if j = k then Some True else None)
           | RegRemove j \<Rightarrow> (if j = k then Some False else None)))"

locale registry =
  fixes ids :: "'s \<Rightarrow> string set"
    and add :: "string \<Rightarrow> 'a \<Rightarrow> 's \<Rightarrow> 's"
    and remove :: "string \<Rightarrow> 's \<Rightarrow> 's"
    and invar :: "'s \<Rightarrow> bool"
  assumes ids_add: "invar s \<Longrightarrow> ids (add k a s) = insert k (ids s)"
    and ids_remove: "invar s \<Longrightarrow> ids (remove k s) = ids s - {k}"
    and invar_add: "invar s \<Longrightarrow> invar (add k a s)"
    and invar_remove: "invar s \<Longrightarrow> invar (remove k s)"
begin

lemma remove_gone: "invar s \<Longrightarrow> k \<notin> ids (remove k s)"
  by (simp add: ids_remove)

lemma remove_others: "invar s \<Longrightarrow> j \<noteq> k \<Longrightarrow> j \<in> ids (remove k s) \<longleftrightarrow> j \<in> ids s"
  by (simp add: ids_remove)

lemma remove_idem: "invar s \<Longrightarrow> ids (remove k (remove k s)) = ids (remove k s)"
  by (simp add: ids_remove invar_remove)

lemma remove_comm: "invar s \<Longrightarrow> ids (remove j (remove k s)) = ids (remove k (remove j s))"
  by (auto simp: ids_remove invar_remove)

lemma run_invar: "invar s \<Longrightarrow> invar (reg_run add remove ops s)"
proof (induction ops arbitrary: s)
  case (Cons x ops)
  then show ?case by (cases x) (auto simp: invar_add invar_remove)
qed simp

text \<open>After any sequence of operations a client is registered iff its last operation was an add.\<close>

lemma run_ids:
  "invar s \<Longrightarrow> k \<in> ids (reg_run add remove ops s) \<longleftrightarrow>
     (case last_op k ops of None \<Rightarrow> k \<in> ids s | Some b \<Rightarrow> b)"
proof (induction ops arbitrary: s)
  case (Cons x ops)
  then show ?case
    by (cases x) (auto simp: ids_add ids_remove invar_add invar_remove split: option.splits)
qed simp

end

end
