(* ===== verification/Latency.thy ===== *)
theory Latency
  imports GoFloat GoMap
begin

text \<open>
  \<^verbatim>\<open>internal/sync/latency.go\<close>: the global playback delay computed from the jitter reports of
  all clients. Every method of \<^verbatim>\<open>LatencyEqualizer\<close> holds its mutex for the whole call, so each is
  one function on the state; the calls it makes to the broadcaster and the frame-size setter
  are returned as a list of effects in order.
\<close>

section \<open>Constants\<close>

definition DefaultHeadroomMs :: fl where "DefaultHeadroomMs = Fin 20"
definition MinGlobalDelayMs :: fl where "MinGlobalDelayMs = Fin 20"
definition MaxGlobalDelayMs :: fl where "MaxGlobalDelayMs = Fin 500"
definition ReBroadcastThresholdMs :: fl where "ReBroadcastThresholdMs = Fin 10"
definition IosBgJitterThresholdMs :: fl where "IosBgJitterThresholdMs = Fin 30"
definition IosBgFrameMs :: int where "IosBgFrameMs = 40"

lemmas latency_consts = DefaultHeadroomMs_def MinGlobalDelayMs_def MaxGlobalDelayMs_def
  ReBroadcastThresholdMs_def IosBgJitterThresholdMs_def IosBgFrameMs_def

section \<open>State\<close>

record jitter_report =
  P95Ms :: fl
  UpdatedAt :: go_time

record latency_eq =
  reports :: "(string, jitter_report) gomap"
  globalDelay :: fl
  headroom :: fl
  has_broadcaster :: bool
  has_frameSetter :: bool
  laptopClientID :: string
  loopbackLatencyMs :: fl

datatype le_effect = Broadcast fl | FrameSize string int

definition NewLatencyEqualizer :: "bool \<Rightarrow> bool \<Rightarrow> latency_eq" where
  "NewLatencyEqualizer broadcaster frameSetter =
     \<lparr>reports = gm_empty, globalDelay = MinGlobalDelayMs, headroom = DefaultHeadroomMs,
      has_broadcaster = broadcaster, has_frameSetter = frameSetter,
      laptopClientID = '''', loopbackLatencyMs = Fin 0\<rparr>"

section \<open>Operations\<close>

definition SetLoopbackCompensation :: "string \<Rightarrow> fl \<Rightarrow> latency_eq \<Rightarrow> latency_eq" where
  "SetLoopbackCompensation laptop captureLatencyMs le =
     le\<lparr>laptopClientID := laptop, loopbackLatencyMs := captureLatencyMs\<rparr>"

text \<open>The loop over the reports; the variable starts at 0.\<close>

fun p95_step :: "string \<times> jitter_report \<Rightarrow> fl \<Rightarrow> fl" where
  "p95_step (k, r) m = (if fgt (P95Ms r) m then P95Ms r else m)"

definition max_p95 :: "(string, jitter_report) gomap \<Rightarrow> fl" where
  "max_p95 rs = fold p95_step rs (Fin 0)"

definition clamp_delay :: "fl \<Rightarrow> fl" where
  "clamp_delay d =
     (let d = (if flt d MinGlobalDelayMs then MinGlobalDelayMs else d)
      in if fgt d MaxGlobalDelayMs then MaxGlobalDelayMs else d)"

definition hysteresis :: "fl \<Rightarrow> fl \<Rightarrow> fl" where
  "hysteresis current newDelay =
     (if flt newDelay current
      then (if fgt (fsub F64 current newDelay) (Fin 2) then fsub F64 current (Fin 2) else newDelay)
      else newDelay)"

definition recalculate :: "latency_eq \<Rightarrow> latency_eq \<times> le_effect list" where
  "recalculate le =
     (if gm_len (reports le) = 0 then (le, [])
      else
        let newDelay = fadd F64 (max_p95 (reports le)) (headroom le);
            newDelay = clamp_delay newDelay;
            newDelay = hysteresis (globalDelay le) newDelay
        in if flt (fabs (fsub F64 newDelay (globalDelay le))) (Fin (1 / 2)) then (le, [])
           else (le\<lparr>globalDelay := newDelay\<rparr>,
                 if has_broadcaster le then [Broadcast newDelay] else []))"

text \<open>
  \<^verbatim>\<open>ReportJitter\<close>. The result is \<^const>\<open>None\<close> where the code calls a nil frame-size setter, which
  panics: the branch that restores the frame size does not test for it.
\<close>

definition ReportJitter ::
    "string \<Rightarrow> fl \<Rightarrow> go_time \<Rightarrow> latency_eq \<Rightarrow> (latency_eq \<times> le_effect list) option" where
  "ReportJitter clientID p95Ms now le =
     (let old = gm_get (reports le) clientID;
          le = le\<lparr>reports := gm_put clientID \<lparr>P95Ms = p95Ms, UpdatedAt = now\<rparr> (reports le)\<rparr>
      in if (case old of None \<Rightarrow> False
             | Some r \<Rightarrow> flt (fabs (fsub F64 p95Ms (P95Ms r))) ReBroadcastThresholdMs)
         then Some (le, [])
         else
           let (le, effs) = recalculate le
           in if fgt p95Ms IosBgJitterThresholdMs \<and> has_frameSetter le
              then Some (le, effs @ [FrameSize clientID IosBgFrameMs])
              else if (case old of None \<Rightarrow> False
                       | Some r \<Rightarrow> fgt (P95Ms r) IosBgJitterThresholdMs)
                    \<and> fle p95Ms IosBgJitterThresholdMs
              then (if has_frameSetter le then Some (le, effs @ [FrameSize clientID 10]) else None)
              else Some (le, effs))"

definition le_RemoveClient :: "string \<Rightarrow> latency_eq \<Rightarrow> latency_eq \<times> le_effect list" where
  "le_RemoveClient clientID le = recalculate (le\<lparr>reports := gm_del clientID (reports le)\<rparr>)"

definition GlobalDelay :: "latency_eq \<Rightarrow> fl" where
  "GlobalDelay le = globalDelay le"

definition LaptopPlaybackTarget :: "latency_eq \<Rightarrow> fl" where
  "LaptopPlaybackTarget le =
     (let target = fsub F64 (globalDelay le) (loopbackLatencyMs le)
      in if flt target (Fin 0) then Fin 0 else target)"

definition GetClientReport :: "string \<Rightarrow> latency_eq \<Rightarrow> fl \<times> bool" where
  "GetClientReport clientID le =
     (case gm_get (reports le) clientID of None \<Rightarrow> (Fin 0, False) | Some r \<Rightarrow> (P95Ms r, True))"

definition SetHeadroom :: "fl \<Rightarrow> latency_eq \<Rightarrow> latency_eq \<times> le_effect list" where
  "SetHeadroom ms le = recalculate (le\<lparr>headroom := ms\<rparr>)"

section \<open>The maximum of the reports\<close>

lemma not_flt_trans: "\<not> flt a b \<Longrightarrow> \<not> flt b c \<Longrightarrow> b \<noteq> NaN \<Longrightarrow> \<not> flt a c"
  by (cases a; cases b; cases c) auto

lemma p95_step_not_NaN: "a \<noteq> NaN \<Longrightarrow> p95_step x a \<noteq> NaN"
  by (cases x) (auto split: if_splits)

lemma p95_step_ge: "\<not> flt (p95_step x a) a"
  by (cases x) (auto dest: flt_trans)

lemma p95_fold_not_NaN: "a \<noteq> NaN \<Longrightarrow> fold p95_step rs a \<noteq> NaN"
  by (induction rs arbitrary: a) (simp_all add: p95_step_not_NaN)

lemma p95_fold_ge: "a \<noteq> NaN \<Longrightarrow> \<not> flt (fold p95_step rs a) a"
proof (induction rs arbitrary: a)
  case (Cons x rs)
  have "\<not> flt (fold p95_step rs (p95_step x a)) (p95_step x a)"
    using Cons.prems by (intro Cons.IH p95_step_not_NaN)
  then show ?case
    using not_flt_trans [OF _ p95_step_ge p95_step_not_NaN] Cons.prems by simp
qed simp

lemma p95_fold_upper:
  "a \<noteq> NaN \<Longrightarrow> (k, r) \<in> set rs \<Longrightarrow> \<not> flt (fold p95_step rs a) (P95Ms r)"
proof (induction rs arbitrary: a)
  case (Cons x rs)
  have nn: "p95_step x a \<noteq> NaN" using Cons.prems(1) by (rule p95_step_not_NaN)
  show ?case
  proof (cases "(k, r) \<in> set rs")
    case True
    then show ?thesis using Cons.IH [OF nn] by simp
  next
    case False
    with Cons.prems have x: "x = (k, r)" by simp
    have "\<not> flt (p95_step x a) (P95Ms r)" by (simp add: x)
    with p95_fold_ge [OF nn] have "\<not> flt (fold p95_step rs (p95_step x a)) (P95Ms r)"
      using nn by (rule not_flt_trans)
    then show ?thesis by simp
  qed
qed simp

lemma p95_fold_mem: "fold p95_step rs a = a \<or> (\<exists>k r. (k, r) \<in> set rs \<and> fold p95_step rs a = P95Ms r)"
proof (induction rs arbitrary: a)
  case (Cons x rs)
  obtain k r where x: "x = (k, r)" by force
  then have "p95_step x a = a \<or> p95_step x a = P95Ms r" by simp
  moreover have "fold p95_step (x # rs) a = fold p95_step rs (p95_step x a)" by simp
  ultimately show ?case
    using Cons.IH [of "p95_step x a"] by (metis x list.set_intros)
qed simp

lemma max_p95_not_NaN: "max_p95 rs \<noteq> NaN"
  by (simp add: max_p95_def p95_fold_not_NaN)

lemma max_p95_nonneg: "\<not> flt (max_p95 rs) (Fin 0)"
  unfolding max_p95_def by (rule p95_fold_ge) simp

lemma max_p95_upper: "(k, r) \<in> set rs \<Longrightarrow> \<not> flt (max_p95 rs) (P95Ms r)"
  unfolding max_p95_def by (rule p95_fold_upper) auto

lemma max_p95_mem: "max_p95 rs = Fin 0 \<or> (\<exists>k r. (k, r) \<in> set rs \<and> max_p95 rs = P95Ms r)"
  using p95_fold_mem [of rs "Fin 0"] unfolding max_p95_def .

lemma max_p95_subset: "set rs \<subseteq> set rs' \<Longrightarrow> \<not> flt (max_p95 rs') (max_p95 rs)"
  using max_p95_mem [of rs] max_p95_nonneg [of rs'] max_p95_upper [of _ _ rs'] by auto

text \<open>The order in which the loop visits the map does not matter.\<close>

lemma max_p95_set: "set rs = set rs' \<Longrightarrow> max_p95 rs = max_p95 rs'"
  using max_p95_subset [of rs rs'] max_p95_subset [of rs' rs]
    flt_total [OF max_p95_not_NaN max_p95_not_NaN, of rs rs'] by auto

section \<open>The invariant of the delay\<close>

text \<open>A finite \<^verbatim>\<open>float64\<close> between the two bounds.\<close>

definition delay_ok :: "fl \<Rightarrow> bool" where
  "delay_ok d \<longleftrightarrow> (\<exists>x. d = Fin x \<and> rep F64 x \<and> 20 \<le> x \<and> x \<le> 500)"

definition le_inv :: "latency_eq \<Rightarrow> bool" where
  "le_inv le \<longleftrightarrow> gm_wf (reports le) \<and> delay_ok (globalDelay le) \<and> (\<exists>h. headroom le = Fin h)"

lemma delay_okE:
  assumes "delay_ok d"
  obtains x where "d = Fin x" "rep F64 x" "20 \<le> x" "x \<le> 500"
  using assms unfolding delay_ok_def by blast

lemma rep_20: "rep F64 20" and rep_500: "rep F64 500" and rep_2: "rep F64 2"
  using rep_of_int [of 20 F64] rep_of_int [of 500 F64] rep_of_int [of 2 F64] by simp_all

lemma rep_half: "rep F64 (1 / 2)"
  using rep_dyadic [of 1 F64 "-1"] by (simp add: pow2_def)

lemma in_range: "\<bar>x\<bar> \<le> 500 \<Longrightarrow> \<bar>x\<bar> < pow2 (int (emax f))"
proof -
  have "(500 :: rat) < pow2 9" by (simp add: pow2_def)
  also have "pow2 9 \<le> pow2 (int (emax f))" by (cases f) (auto simp: emax.simps)
  finally have "(500 :: rat) < pow2 (int (emax f))" .
  then show "\<bar>x\<bar> \<le> 500 \<Longrightarrow> ?thesis" by linarith
qed

lemma to_fl_in_range: "\<bar>rnd f x\<bar> \<le> 500 \<Longrightarrow> to_fl f x = Fin (rnd f x)"
  using in_range [of "rnd f x" f] by (auto simp: to_fl_def Let_def)

lemma to_fl_exact: "rep f x \<Longrightarrow> \<bar>x\<bar> \<le> 500 \<Longrightarrow> to_fl f x = Fin x"
  by (intro to_fl_rep in_range)

lemma limit_gt_500: "500 < pow2 (int (emax f))"
  using in_range [of 500 f] by simp

lemma clamp_delay_ok:
  assumes "d \<noteq> NaN" and "fl_wf F64 d" shows "delay_ok (clamp_delay d)"
  using assms
  by (cases d) (auto simp: clamp_delay_def Let_def latency_consts delay_ok_def rep_20 rep_500)

lemma fadd_not_NaN: "x \<noteq> NaN \<Longrightarrow> fadd f x (Fin h) \<noteq> NaN"
  by (cases x) (auto simp: to_fl_def Let_def)

lemma fadd_wf [simp]: "fl_wf f (fadd f x y)"
  by (cases "(f, x, y)" rule: fadd.cases) auto

text \<open>Subtracting 2 from a delay is exact.\<close>

lemma rep_minus_2:
  assumes "rep F64 x" and "2 \<le> x" and "x \<le> 500" shows "rep F64 (x - 2)"
proof -
  from assms(1) obtain m e where x: "x = of_int m * pow2 e" and m: "\<bar>m\<bar> < 2 ^ 53"
    and e: "- 1074 \<le> e" unfolding rep_def by auto
  show ?thesis
  proof (cases "0 \<le> e")
    case True
    then have xi: "x = of_int (m * 2 ^ nat e)" by (simp add: x pow2_def)
    with assms have "2 \<le> m * 2 ^ nat e \<and> m * 2 ^ nat e \<le> 500"
      by (metis of_int_le_iff of_int_numeral)
    then have "rep F64 (of_int (m * 2 ^ nat e - 2))" by (intro rep_of_int) auto
    then show ?thesis by (simp add: xi)
  next
    case False
    define n where "n = m - 2 * 2 ^ nat (- e)"
    have two: "(2 :: rat) = of_int (2 * 2 ^ nat (- e)) * pow2 e"
      using False by (simp add: pow2_def)
    have xn: "x - 2 = of_int n * pow2 e"
      unfolding x n_def by (subst two) (simp add: left_diff_distrib)
    have "0 \<le> of_int n * pow2 e" using assms(2) xn by linarith
    then have "0 \<le> n" by (simp add: zero_le_mult_iff) (meson not_less pow2_pos)
    moreover have "n \<le> m" by (simp add: n_def)
    ultimately have "\<bar>n\<bar> < 2 ^ prec F64" using m by simp
    then show ?thesis unfolding xn using e by (intro rep_dyadic) auto
  qed
qed

lemma hysteresis_ok:
  assumes "delay_ok c" and "delay_ok d" shows "delay_ok (hysteresis c d)"
proof -
  obtain x where c: "c = Fin x" "rep F64 x" "20 \<le> x" "x \<le> 500" using assms(1) by (rule delay_okE)
  obtain y where d: "d = Fin y" "rep F64 y" "20 \<le> y" "y \<le> 500" using assms(2) by (rule delay_okE)
  show ?thesis
  proof (cases "y < x \<and> fgt (fsub F64 c d) (Fin 2)")
    case True
    have wf2: "fl_wf F64 (Fin 2)" by (rule fl_wf_numeral) simp
    have "2 < rnd F64 (x - y)"
      using True to_fl_less_iff(2) [OF wf2] by (simp add: c d fsub_Fin)
    then have xy: "2 < x - y" by (rule rnd_gt_rep [OF rep_2])
    have "rep F64 (x - 2)" using c by (intro rep_minus_2) auto
    moreover have "\<bar>x - 2\<bar> \<le> 500" using c by (simp add: abs_le_iff)
    ultimately have "fsub F64 c (Fin 2) = Fin (x - 2)"
      unfolding c fsub_Fin by (rule to_fl_exact)
    then have "hysteresis c d = Fin (x - 2)"
      using True by (simp add: hysteresis_def c d)
    then show ?thesis using \<open>rep F64 (x - 2)\<close> xy c d by (simp add: delay_ok_def)
  next
    case False
    then have "hysteresis c d = d" by (auto simp: hysteresis_def c d)
    then show ?thesis using assms(2) by simp
  qed
qed

definition target :: "latency_eq \<Rightarrow> fl" where
  "target le = clamp_delay (fadd F64 (max_p95 (reports le)) (headroom le))"

lemma target_ok: "headroom le = Fin h \<Longrightarrow> delay_ok (target le)"
  unfolding target_def by (intro clamp_delay_ok fadd_wf) (simp add: fadd_not_NaN max_p95_not_NaN)

lemma recalculate_inv [inv_intros]: "le_inv le \<Longrightarrow> le_inv (fst (recalculate le))"
  using target_ok [of le]
  by (auto simp: recalculate_def le_inv_def Let_def target_def [symmetric] hysteresis_ok)

lemma recalculate_frame [frame_simps]:
  "reports (fst (recalculate le)) = reports le"
  "headroom (fst (recalculate le)) = headroom le"
  "has_frameSetter (fst (recalculate le)) = has_frameSetter le"
  "has_broadcaster (fst (recalculate le)) = has_broadcaster le"
  "loopbackLatencyMs (fst (recalculate le)) = loopbackLatencyMs le"
  by (auto simp: recalculate_def Let_def)

text \<open>The effects of a recalculation: a broadcast exactly when the delay is stored.\<close>

lemma recalculate_effects:
  assumes "le_inv le"
  shows "snd (recalculate le) =
     (if globalDelay (fst (recalculate le)) \<noteq> globalDelay le \<and> has_broadcaster le
      then [Broadcast (globalDelay (fst (recalculate le)))] else [])"
proof -
  obtain x where x: "globalDelay le = Fin x" "rep F64 x" "20 \<le> x" "x \<le> 500"
    using assms unfolding le_inv_def delay_ok_def by blast
  have "flt (fabs (fsub F64 (Fin x) (Fin x))) (Fin (1 / 2))"
    by (simp add: fsub_Fin to_fl_rep)
  then show ?thesis
    by (auto simp: recalculate_def Let_def x)
qed

lemma NewLatencyEqualizer_inv [inv_intros]: "le_inv (NewLatencyEqualizer b f)"
  by (simp add: le_inv_def NewLatencyEqualizer_def delay_ok_def latency_consts rep_20)

lemma ReportJitter_inv [inv_intros]:
  "le_inv le \<Longrightarrow> ReportJitter k p now le = Some (le', effs) \<Longrightarrow> le_inv le'"
proof -
  assume inv: "le_inv le" and r: "ReportJitter k p now le = Some (le', effs)"
  define le1 where "le1 = le\<lparr>reports := gm_put k \<lparr>P95Ms = p, UpdatedAt = now\<rparr> (reports le)\<rparr>"
  have i1: "le_inv le1" using inv by (simp add: le_inv_def le1_def)
  have "le' = le1 \<or> le' = fst (recalculate le1)"
    using r unfolding ReportJitter_def Let_def le1_def [symmetric]
    by (auto split: if_splits prod.splits)
  then show ?thesis using i1 recalculate_inv by blast
qed

lemma le_RemoveClient_inv [inv_intros]: "le_inv le \<Longrightarrow> le_inv (fst (le_RemoveClient k le))"
  unfolding le_RemoveClient_def by (rule recalculate_inv) (simp add: le_inv_def)

lemma SetHeadroom_inv [inv_intros]: "le_inv le \<Longrightarrow> le_inv (fst (SetHeadroom (Fin h) le))"
  unfolding SetHeadroom_def by (rule recalculate_inv) (simp add: le_inv_def)

lemma SetLoopbackCompensation_inv [inv_intros]: "le_inv le \<Longrightarrow> le_inv (SetLoopbackCompensation k h le)"
  by (simp add: SetLoopbackCompensation_def le_inv_def)

section \<open>What a recalculation guarantees\<close>

lemma headroom_target:
  assumes "headroom le = Fin h" and "(k, r) \<in> set (reports le)" and "P95Ms r = Fin p"
  obtains t where "target le = Fin t" "rep F64 t" "20 \<le> t" "t \<le> 500" "min 500 (rnd F64 (p + h)) \<le> t"
proof -
  obtain t where t: "target le = Fin t" "rep F64 t" "20 \<le> t" "t \<le> 500"
    using target_ok [OF assms(1)] by (rule delay_okE)
  define m where "m = max_p95 (reports le)"
  have m: "\<not> flt m (Fin p)" "m \<noteq> NaN"
    using max_p95_upper [OF assms(2)] max_p95_not_NaN assms(3) by (auto simp: m_def)
  have "min 500 (rnd F64 (p + h)) \<le> t"
  proof (cases m)
    case (Fin x)
    with m have "p + h \<le> x + h" by simp
    then have le: "rnd F64 (p + h) \<le> rnd F64 (x + h)" by (rule rnd_mono)
    show ?thesis
      using t(1) le limit_gt_500 [of F64] unfolding target_def m_def [symmetric] Fin assms(1)
      by (auto simp: to_fl_def Let_def clamp_delay_def latency_consts split: if_splits)
  next
    case PosInf
    then show ?thesis
      using t(1) unfolding target_def m_def [symmetric] assms(1)
      by (simp add: clamp_delay_def Let_def latency_consts)
  qed (use m in auto)
  with t that show ?thesis by blast
qed

text \<open>The value \<open>recalculate\<close> compares with the current delay, as rationals.\<close>

lemma hysteresis_Fin:
  assumes "rep F64 x" "20 \<le> x" "x \<le> 500" and "rep F64 t" "20 \<le> t" "t \<le> 500"
  shows "hysteresis (Fin x) (Fin t) = Fin (if 2 < rnd F64 (x - t) then x - 2 else t)"
proof -
  have wf2: "fl_wf F64 (Fin 2)" by (rule fl_wf_numeral) simp
  have ab: "\<bar>x - 2\<bar> \<le> 500" using assms by (simp add: abs_le_iff)
  have s2: "fsub F64 (Fin x) (Fin 2) = Fin (x - 2)"
    unfolding fsub_Fin by (rule to_fl_exact [OF rep_minus_2 ab]) (use assms in auto)
  have "2 < x - t" if "2 < rnd F64 (x - t)" by (rule rnd_gt_rep [OF rep_2 that])
  then show ?thesis
    using to_fl_less_iff(2) [OF wf2] by (auto simp: hysteresis_def s2) (auto simp: fsub_Fin)
qed

lemma near_iff:
  assumes "\<bar>a - b\<bar> \<le> 500"
  shows "flt (fabs (fsub F64 (Fin a) (Fin b))) (Fin (1 / 2)) \<longleftrightarrow> \<bar>rnd F64 (a - b)\<bar> < 1 / 2"
proof -
  have "rnd F64 (a - b) \<le> 500" "- 500 \<le> rnd F64 (a - b)"
    using assms rep_500 by (auto intro!: rnd_le_rep rnd_ge_rep)
  then show ?thesis by (simp add: fsub_Fin to_fl_in_range)
qed

text \<open>
  Delays are multiples of \<open>2 ^ - 48\<close>, so a difference of two of them below 32 is itself a
  \<^verbatim>\<open>float64\<close>: the comparisons with 2 and with one half are those of exact arithmetic.
\<close>

lemma delay_grid:
  assumes "rep F64 x" and "20 \<le> x" obtains n where "x = of_int n * pow2 (- 48)"
proof -
  from assms(1) obtain m e where x: "x = of_int m * pow2 e" and m: "\<bar>m\<bar> < 2 ^ 53"
    unfolding rep_def by auto
  have "- 48 \<le> e"
  proof (rule ccontr)
    assume "\<not> - 48 \<le> e"
    then have "pow2 e \<le> pow2 (- 49)" by simp
    moreover have "(of_int m :: rat) \<le> of_int (2 ^ 53)" using m by (subst of_int_le_iff) linarith
    ultimately have "of_int m * pow2 e \<le> of_int (2 ^ 53) * pow2 (- 49)"
      by (intro mult_mono) auto
    then show False using assms(2) x by (simp add: pow2_def)
  qed
  then have "pow2 e = of_int (2 ^ nat (e - - 48)) * pow2 (- 48)" by (simp only: pow2_scale)
  then have "x = of_int (m * 2 ^ nat (e - - 48)) * pow2 (- 48)" by (simp add: x)
  then show ?thesis by (rule that)
qed

lemma rep_delay_diff:
  assumes "rep F64 x" "20 \<le> x" "rep F64 t" "20 \<le> t" "\<bar>x - t\<bar> < 32"
  shows "rep F64 (x - t)"
proof -
  obtain n where n: "x = of_int n * pow2 (- 48)" using assms by (blast elim: delay_grid)
  obtain k where k: "t = of_int k * pow2 (- 48)" using assms by (blast elim: delay_grid)
  have d: "x - t = of_int (n - k) * pow2 (- 48)" by (simp add: n k left_diff_distrib)
  have "\<bar>of_int (n - k)\<bar> * pow2 (- 48) < 32" using assms(5) unfolding d by (simp add: abs_mult)
  then have "(of_int \<bar>n - k\<bar> :: rat) < of_int (2 ^ 53)" by (simp add: pow2_def)
  then have "\<bar>n - k\<bar> < 2 ^ prec F64" by (simp only: of_int_less_iff prec.simps)
  then show ?thesis unfolding d by (intro rep_dyadic) auto
qed

lemma rnd_far:
  assumes "32 \<le> \<bar>d\<bar>" shows "32 \<le> \<bar>rnd F64 d\<bar>" "0 \<le> d \<Longrightarrow> 32 \<le> rnd F64 d"
proof -
  have r: "rep F64 32" "rep F64 (- 32)" using rep_of_int [of 32 F64] by simp_all
  show "0 \<le> d \<Longrightarrow> 32 \<le> rnd F64 d" using assms r by (auto intro: rnd_ge_rep)
  have "32 \<le> rnd F64 d \<or> rnd F64 d \<le> - 32"
    using assms r by (cases "0 \<le> d") (auto intro: rnd_ge_rep rnd_le_rep)
  then show "32 \<le> \<bar>rnd F64 d\<bar>" by linarith
qed

lemma delay_diff_exact:
  assumes "rep F64 x" "20 \<le> x" "rep F64 t" "20 \<le> t"
  shows "2 < rnd F64 (x - t) \<longleftrightarrow> 2 < x - t"
    and "\<bar>rnd F64 (t - x)\<bar> < 1 / 2 \<longleftrightarrow> \<bar>t - x\<bar> < 1 / 2"
proof -
  have "rnd F64 (x - t) = x - t \<and> rnd F64 (t - x) = t - x \<or> 32 \<le> \<bar>x - t\<bar>"
    using assms rep_delay_diff [of x t] rep_delay_diff [of t x] rnd_rep
    by (metis abs_minus_commute not_le)
  moreover have "\<bar>rnd F64 (t - x)\<bar> = \<bar>rnd F64 (x - t)\<bar>"
    using rnd_minus [of F64 "x - t"] by simp
  moreover have "rnd F64 (x - t) \<le> 0" if "x \<le> t"
    using that by (intro rnd_le_rep) auto
  ultimately show "2 < rnd F64 (x - t) \<longleftrightarrow> 2 < x - t"
    and "\<bar>rnd F64 (t - x)\<bar> < 1 / 2 \<longleftrightarrow> \<bar>t - x\<bar> < 1 / 2"
    using rnd_far [of "x - t"] by linarith+
qed

text \<open>
  The specification of one step, in exact arithmetic: at most 2 down, straight up, and no move
  for less than half a millisecond.
\<close>

definition delay_step :: "rat \<Rightarrow> rat \<Rightarrow> rat" where
  "delay_step t x = (if 2 < x - t then x - 2 else if \<bar>t - x\<bar> < 1 / 2 then x else t)"

lemma recalculate_step:
  assumes x: "globalDelay le = Fin x" "rep F64 x" "20 \<le> x" "x \<le> 500"
    and t: "target le = Fin t" "rep F64 t" "20 \<le> t" "t \<le> 500"
    and ne: "gm_len (reports le) \<noteq> 0"
  shows "globalDelay (fst (recalculate le)) = Fin (delay_step t x)"
proof -
  define n where "n = (if 2 < x - t then x - 2 else t)"
  have hy: "hysteresis (Fin x) (Fin t) = Fin n"
    using hysteresis_Fin [of x t] delay_diff_exact [of x t] x t by (simp add: n_def)
  have ab: "\<bar>n - x\<bar> \<le> 500" using x t by (auto simp: n_def abs_le_iff)
  have near: "\<bar>rnd F64 (n - x)\<bar> < 1 / 2 \<longleftrightarrow> \<bar>n - x\<bar> < 1 / 2"
  proof (cases "2 < x - t")
    case True
    have "rnd F64 (- 2) = - 2" using rnd_rep [OF rep_2] by (simp add: rnd_minus)
    with True show ?thesis by (simp add: n_def)
  qed (use delay_diff_exact [of x t] x t in \<open>simp add: n_def\<close>)
  show ?thesis
    using ne near_iff [OF ab] near
    unfolding recalculate_def target_def [symmetric] Let_def t(1) x(1) hy
    by (auto simp: x(1) delay_step_def n_def)
qed

text \<open>The same with the invariant as the only assumption.\<close>

lemma recalculate_cases:
  assumes inv: "le_inv le" and ne: "gm_len (reports le) \<noteq> 0"
  obtains x t where "globalDelay le = Fin x" "rep F64 x" "20 \<le> x" "x \<le> 500"
    "target le = Fin t" "rep F64 t" "20 \<le> t" "t \<le> 500"
    "globalDelay (fst (recalculate le)) = Fin (delay_step t x)"
proof -
  from inv obtain h x where h: "headroom le = Fin h"
    and x: "globalDelay le = Fin x" "rep F64 x" "20 \<le> x" "x \<le> 500"
    unfolding le_inv_def delay_ok_def by blast
  obtain t where t: "target le = Fin t" "rep F64 t" "20 \<le> t" "t \<le> 500"
    using target_ok [OF h] by (rule delay_okE)
  show ?thesis using that [OF x t recalculate_step [OF x t ne]] .
qed

lemma recalculate_empty: "gm_len (reports le) = 0 \<Longrightarrow> recalculate le = (le, [])"
  by (simp add: recalculate_def)

lemma reports_nonempty: "gm_get (reports le) k = Some r \<Longrightarrow> gm_len (reports le) \<noteq> 0"
  by (auto simp: gm_len_def gm_get_def)

lemma delay_step_bounds: "x - 2 \<le> delay_step t x" "t - 1 / 2 < delay_step t x"
  unfolding delay_step_def by (auto split: abs_split)

lemma delay_step_fix: "\<bar>t - x\<bar> < 1 / 2 \<Longrightarrow> delay_step t x = x"
  by (auto simp: delay_step_def)

section \<open>Histories of the equaliser\<close>

datatype le_op =
    OpReport string fl go_time
  | OpRemove string
  | OpHeadroom rat
  | OpLoopback string fl

fun le_step :: "le_op \<Rightarrow> latency_eq \<Rightarrow> (latency_eq \<times> le_effect list) option" where
  "le_step (OpReport k p now) le = ReportJitter k p now le"
| "le_step (OpRemove k) le = Some (le_RemoveClient k le)"
| "le_step (OpHeadroom h) le = Some (SetHeadroom (Fin h) le)"
| "le_step (OpLoopback k d) le = Some (SetLoopbackCompensation k d le, [])"

fun le_run :: "le_op list \<Rightarrow> latency_eq \<Rightarrow> (latency_eq \<times> le_effect list) option" where
  "le_run [] le = Some (le, [])"
| "le_run (x # xs) le =
     (case le_step x le of None \<Rightarrow> None
      | Some (le, e) \<Rightarrow>
          (case le_run xs le of None \<Rightarrow> None | Some (le, es) \<Rightarrow> Some (le, e @ es)))"

text \<open>The delay the clients were last told, \<open>d\<close> if they were told none.\<close>

fun last_broadcast :: "le_effect list \<Rightarrow> fl \<Rightarrow> fl" where
  "last_broadcast [] d = d"
| "last_broadcast (Broadcast x # es) d = last_broadcast es x"
| "last_broadcast (FrameSize k n # es) d = last_broadcast es d"

lemma last_broadcast_append [simp]:
  "last_broadcast (xs @ ys) d = last_broadcast ys (last_broadcast xs d)"
  by (induction xs d rule: last_broadcast.induct) auto

lemma ReportJitter_cases:
  assumes "ReportJitter k p now le = Some (le', effs)"
  defines "le1 \<equiv> le\<lparr>reports := gm_put k \<lparr>P95Ms = p, UpdatedAt = now\<rparr> (reports le)\<rparr>"
  obtains "le' = le1" "effs = []"
  | fs where "le' = fst (recalculate le1)" "effs = snd (recalculate le1) @ fs"
      "\<forall>x \<in> set fs. \<exists>n. x = FrameSize k n"
  using assms(1) unfolding ReportJitter_def Let_def le1_def [symmetric]
  by (auto split: if_splits prod.splits simp: prod_eq_iff)

lemma last_broadcast_frames:
  "\<forall>x \<in> set fs. \<exists>n. x = FrameSize k n \<Longrightarrow> last_broadcast fs d = d"
  by (induction fs d rule: last_broadcast.induct) auto

lemma recalculate_told:
  "le_inv le \<Longrightarrow> has_broadcaster le \<Longrightarrow>
   last_broadcast (snd (recalculate le)) (globalDelay le) = globalDelay (fst (recalculate le))"
  by (subst recalculate_effects) auto

lemma le_step_inv:
  "le_inv le \<Longrightarrow> le_step x le = Some (le', e) \<Longrightarrow>
   le_inv le' \<and> has_broadcaster le' = has_broadcaster le \<and> has_frameSetter le' = has_frameSetter le"
proof (cases x)
  case (OpReport k p now)
  assume "le_inv le" and s: "le_step x le = Some (le', e)"
  then have r: "ReportJitter k p now le = Some (le', e)" by (simp add: OpReport)
  then show ?thesis
    using ReportJitter_inv [OF \<open>le_inv le\<close> r] by (cases rule: ReportJitter_cases) (auto simp: frame_simps)
next
  case (OpRemove k)
  assume "le_inv le" "le_step x le = Some (le', e)"
  then show ?thesis using le_RemoveClient_inv [of le k]
    by (auto simp: OpRemove le_RemoveClient_def prod_eq_iff frame_simps)
next
  case (OpHeadroom h)
  assume "le_inv le" "le_step x le = Some (le', e)"
  then show ?thesis using SetHeadroom_inv [of le h]
    by (auto simp: OpHeadroom SetHeadroom_def prod_eq_iff frame_simps)
next
  case (OpLoopback k d)
  assume "le_inv le" "le_step x le = Some (le', e)"
  then show ?thesis using SetLoopbackCompensation_inv [of le k d]
    by (auto simp: OpLoopback SetLoopbackCompensation_def)
qed

lemma le_step_told:
  assumes "le_inv le" "has_broadcaster le" "le_step x le = Some (le', e)"
  shows "last_broadcast e (globalDelay le) = globalDelay le'"
proof (cases x)
  case (OpReport k p now)
  define le1 where "le1 = le\<lparr>reports := gm_put k \<lparr>P95Ms = p, UpdatedAt = now\<rparr> (reports le)\<rparr>"
  have le1: "le_inv le1" "has_broadcaster le1" "globalDelay le1 = globalDelay le"
    using assms by (simp_all add: le_inv_def le1_def)
  have "ReportJitter k p now le = Some (le', e)" using assms(3) by (simp add: OpReport)
  then show ?thesis
    using recalculate_told [OF le1(1,2)] le1(3)
    by (cases rule: ReportJitter_cases) (auto simp: le1_def [symmetric] last_broadcast_frames)
next
  case (OpRemove k)
  define le1 where "le1 = le\<lparr>reports := gm_del k (reports le)\<rparr>"
  have "le_inv le1" "has_broadcaster le1" "globalDelay le1 = globalDelay le"
    using assms by (simp_all add: le_inv_def le1_def)
  with assms(3) recalculate_told [of le1] show ?thesis
    by (auto simp: OpRemove le_RemoveClient_def le1_def [symmetric] prod_eq_iff)
next
  case (OpHeadroom h)
  define le1 where "le1 = le\<lparr>headroom := Fin h\<rparr>"
  have "le_inv le1" "has_broadcaster le1" "globalDelay le1 = globalDelay le"
    using assms by (simp_all add: le_inv_def le1_def)
  with assms(3) recalculate_told [of le1] show ?thesis
    by (auto simp: OpHeadroom SetHeadroom_def le1_def [symmetric] prod_eq_iff)
next
  case (OpLoopback k d)
  with assms(3) show ?thesis by (auto simp: SetLoopbackCompensation_def)
qed

lemma le_run_inv:
  "le_inv le \<Longrightarrow> has_broadcaster le \<Longrightarrow> le_run xs le = Some (le', es) \<Longrightarrow>
   le_inv le' \<and> last_broadcast es (globalDelay le) = globalDelay le'"
proof (induction xs arbitrary: le es)
  case (Cons x xs)
  then obtain le1 e1 es1 where s: "le_step x le = Some (le1, e1)"
    and r: "le_run xs le1 = Some (le', es1)" and es: "es = e1 @ es1"
    by (auto split: option.splits)
  have i: "le_inv le1" "has_broadcaster le1"
    using le_step_inv [OF Cons.prems(1) s] Cons.prems(2) by auto
  show ?case
    using Cons.IH [OF i r] le_step_told [OF Cons.prems(1,2) s] by (simp add: es)
qed simp

lemma ReportJitter_total: "has_frameSetter le \<Longrightarrow> \<exists>le' e. ReportJitter k p now le = Some (le', e)"
  by (auto simp: ReportJitter_def Let_def frame_simps split_beta)

lemma le_run_total:
  "le_inv le \<Longrightarrow> has_frameSetter le \<Longrightarrow> \<exists>le' es. le_run xs le = Some (le', es)"
proof (induction xs arbitrary: le)
  case (Cons x xs)
  have "\<exists>le1 e1. le_step x le = Some (le1, e1)"
    using ReportJitter_total [OF Cons.prems(2)] by (cases x) (auto simp: prod_eq_iff)
  then obtain le1 e1 where s: "le_step x le = Some (le1, e1)" by blast
  moreover have "le_inv le1" "has_frameSetter le1"
    using le_step_inv [OF Cons.prems(1) s] Cons.prems(2) by auto
  ultimately show ?case using Cons.IH [of le1] by auto
qed simp

text \<open>The reports of a client registry: a report registers the client.\<close>

definition le_add :: "string \<Rightarrow> fl \<times> go_time \<Rightarrow> latency_eq \<Rightarrow> latency_eq" where
  "le_add k a le = fst (the (ReportJitter k (fst a) (snd a) le))"

definition le_ids :: "latency_eq \<Rightarrow> string set" where
  "le_ids le = set (gm_keys (reports le))"

lemma ReportJitter_reports:
  "ReportJitter k p now le = Some (le', e) \<Longrightarrow>
   reports le' = gm_put k \<lparr>P95Ms = p, UpdatedAt = now\<rparr> (reports le)"
  by (cases rule: ReportJitter_cases) (auto simp: frame_simps)

lemma le_add_Some:
  assumes "has_frameSetter le"
  obtains e where "ReportJitter k (fst a) (snd a) le = Some (le_add k a le, e)"
  using ReportJitter_total [OF assms, of k "fst a" "snd a"] by (auto simp: le_add_def)

interpretation ler: registry le_ids le_add "\<lambda>k le. fst (le_RemoveClient k le)"
  "\<lambda>le. le_inv le \<and> has_frameSetter le"
proof (unfold_locales, goal_cases)
  case (1 s k a)
  then obtain e where "ReportJitter k (fst a) (snd a) s = Some (le_add k a s, e)"
    by (blast elim: le_add_Some)
  then show ?case by (auto simp: le_ids_def dest!: ReportJitter_reports)
next
  case (2 s k)
  then show ?case by (simp add: le_ids_def le_RemoveClient_def frame_simps)
next
  case (3 s k a)
  then obtain e where "ReportJitter k (fst a) (snd a) s = Some (le_add k a s, e)"
    by (blast elim: le_add_Some)
  with 3 show ?case using le_step_inv [of s "OpReport k (fst a) (snd a)"] by auto
next
  case (4 s k)
  then show ?case
    using le_RemoveClient_inv [of s k] by (simp add: le_RemoveClient_def frame_simps)
qed

section \<open>Properties\<close>


text \<open>
  C32: a recalculation refines the step of exact arithmetic, in spite of the rounding of
  every float64 operation it makes: with target \<open>t\<close> (the clamped rounded sum of the largest
  report and the headroom) and current delay \<open>x\<close> it stores \<open>x - 2\<close> if the target is more
  than 2 ms below, \<open>x\<close> if the target is less than half a millisecond away, and else \<open>t\<close>.
\<close>

theorem recalculate_refines_step:
  assumes "le_inv le" and "reports le \<noteq> []"
  shows "\<exists>x t. GlobalDelay le = Fin x \<and> target le = Fin t \<and>
    GlobalDelay (fst (recalculate le)) = Fin (delay_step t x)"
  using recalculate_cases [OF assms(1)] assms(2) by (force simp: gm_len_def GlobalDelay_def)

text \<open>A state with one client at 87 ms, for the witnesses.\<close>

definition le87 :: latency_eq where
  "le87 = (NewLatencyEqualizer True True)\<lparr>reports := [(''a'', \<lparr>P95Ms = Fin 87, UpdatedAt = 0\<rparr>)]\<rparr>"

lemma le87_inv: "le_inv le87"
  using NewLatencyEqualizer_inv [of True True] by (simp add: le87_def le_inv_def gm_wf_def)

theorem recalculate_refines_step_witness:
  "\<exists>x t. GlobalDelay le87 = Fin x \<and> target le87 = Fin t \<and>
    GlobalDelay (fst (recalculate le87)) = Fin (delay_step t x)"
  by (rule recalculate_refines_step [OF le87_inv]) (simp add: le87_def)

text \<open>
  After a recalculation the global delay covers every client that has reported: it is more
  than its P95 jitter plus the headroom (rounded, capped at 500 ms) less half a millisecond, so
  with a headroom of half a millisecond or more no client's jitter exceeds the delay before the cap.
\<close>

theorem recalculate_covers_clients:
  assumes "le_inv le" and "headroom le = Fin h"
    and "gm_get (reports le) k = Some r" and "P95Ms r = Fin p"
  shows "\<exists>x. GlobalDelay (fst (recalculate le)) = Fin x \<and> min 500 (rnd F64 (p + h)) - 1 / 2 < x"
proof -
  have "(k, r) \<in> set (reports le)"
    using assms(1,3) by (simp add: le_inv_def gm_get_mem)
  then obtain t where t: "target le = Fin t" "min 500 (rnd F64 (p + h)) \<le> t"
    using assms by (blast elim: headroom_target)
  obtain x t' where "target le = Fin t'" "globalDelay (fst (recalculate le)) = Fin (delay_step t' x)"
    using recalculate_cases [OF assms(1) reports_nonempty [OF assms(3)]] by blast
  then show ?thesis using t delay_step_bounds(2) [of t x] by (auto simp: GlobalDelay_def)
qed

theorem recalculate_covers_clients_witness:
  "\<exists>x. GlobalDelay (fst (recalculate le87)) = Fin x \<and> min 500 (rnd F64 (87 + 20)) - 1 / 2 < x"
  by (rule recalculate_covers_clients [OF le87_inv, where k = "''a''" and r = "\<lparr>P95Ms = Fin 87, UpdatedAt = 0\<rparr>"])
    (simp_all add: le87_def NewLatencyEqualizer_def DefaultHeadroomMs_def gm_get_def)

lemma delay_step_decreases:
  assumes "1 / 2 \<le> \<bar>t - x\<bar>" and "x \<le> t + 2 * of_nat (Suc n)"
  shows "delay_step t x \<le> t + 2 * of_nat n"
  using assms by (auto simp: delay_step_def)

lemma delay_step_iter:
  "x \<le> t + 2 * of_nat n \<Longrightarrow> \<bar>t - (delay_step t ^^ Suc n) x\<bar> < 1 / 2"
proof (induction n arbitrary: x)
  case 0
  then show ?case by (auto simp: delay_step_def)
next
  case (Suc n)
  have "delay_step t x \<le> t + 2 * of_nat n \<or> \<bar>t - x\<bar> < 1 / 2"
    using delay_step_decreases [of t x n] Suc.prems by linarith
  moreover have "(delay_step t ^^ m) x = x" if "\<bar>t - x\<bar> < 1 / 2" for m
    using that by (induction m) (auto simp: delay_step_fix)
  moreover have "(delay_step t ^^ Suc (Suc n)) x = (delay_step t ^^ Suc n) (delay_step t x)"
    by (simp add: funpow_swap1)
  ultimately show ?case
    using Suc.IH [of "delay_step t x"] by metis
qed

primrec recalculations :: "nat \<Rightarrow> latency_eq \<Rightarrow> latency_eq" where
  "recalculations 0 le = le"
| "recalculations (Suc n) le = fst (recalculate (recalculations n le))"

lemma recalculate_iter:
  assumes "le_inv le" and ne: "gm_len (reports le) \<noteq> 0" and "globalDelay le = Fin x" and "target le = Fin t"
  shows "globalDelay (recalculations n le) = Fin ((delay_step t ^^ n) x) \<and>
    le_inv (recalculations n le) \<and>
    reports (recalculations n le) = reports le \<and>
    headroom (recalculations n le) = headroom le"
proof (induction n)
  case (Suc n)
  define s where "s = recalculations n le"
  have s: "le_inv s" "reports s = reports le" "headroom s = headroom le"
    "globalDelay s = Fin ((delay_step t ^^ n) x)"
    using Suc.IH by (auto simp: s_def)
  then have tg: "target s = Fin t" using assms(4) by (simp add: target_def)
  have "globalDelay (fst (recalculate s)) = Fin (delay_step t ((delay_step t ^^ n) x))"
  proof (rule recalculate_cases [OF s(1)])
    show "gm_len (reports s) \<noteq> 0" using ne s by simp
  qed (use s tg in auto)
  then show ?case
    using s recalculate_inv [OF s(1)] by (simp add: s_def [symmetric] frame_simps)
qed (simp add: assms)

text \<open>
  C36: repeated recalculation with unchanged reports brings the delay to within half a
  millisecond of its target: 241 rounds are always enough, and it stays there.
\<close>

theorem recalculate_converges:
  assumes "le_inv le" and "reports le \<noteq> []" and "241 \<le> n"
  shows "\<exists>t y. target le = Fin t \<and> GlobalDelay (recalculations n le) = Fin y \<and> \<bar>t - y\<bar> < 1 / 2"
proof -
  have ne: "gm_len (reports le) \<noteq> 0" using assms(2) by (simp add: gm_len_def)
  obtain x t where x: "globalDelay le = Fin x" "x \<le> 500" and t: "target le = Fin t" "20 \<le> t"
    using recalculate_cases [OF assms(1) ne] by blast
  obtain m where n: "n = Suc m" "240 \<le> m" using assms(3) by (cases n) auto
  have "(480 :: rat) \<le> 2 * of_nat m" using n(2) by simp
  then have "\<bar>t - (delay_step t ^^ n) x\<bar> < 1 / 2"
    unfolding n(1) using x t by (intro delay_step_iter) linarith
  then show ?thesis
    using recalculate_iter [OF assms(1) ne x(1) t(1)] t(1) by (auto simp: GlobalDelay_def)
qed

theorem recalculate_converges_witness:
  "\<exists>t y. target le87 = Fin t \<and> GlobalDelay (recalculations 241 le87) = Fin y \<and> \<bar>t - y\<bar> < 1 / 2"
  by (rule recalculate_converges [OF le87_inv]) (simp_all add: le87_def)

text \<open>
  A report within 10 ms of the previous one of the same client is stored and nothing else
  happens: \<open>small_steps p qs\<close> says that each of the reports \<open>qs\<close>, sent after \<open>p\<close>, is one.
\<close>

fun small_steps :: "rat \<Rightarrow> (rat \<times> go_time) list \<Rightarrow> bool" where
  "small_steps p [] = True"
| "small_steps p ((q, now) # qs) = (\<bar>rnd F64 (q - p)\<bar> < 10 \<and> small_steps q qs)"

definition report_ops :: "string \<Rightarrow> (rat \<times> go_time) list \<Rightarrow> le_op list" where
  "report_ops k qs = map (\<lambda>(q, now). OpReport k (Fin q) now) qs"

lemma ReportJitter_small:
  assumes "gm_get (reports le) k = Some r" and "P95Ms r = Fin p" and "\<bar>rnd F64 (q - p)\<bar> < 10"
  shows "ReportJitter k (Fin q) now le =
    Some (le\<lparr>reports := gm_put k \<lparr>P95Ms = Fin q, UpdatedAt = now\<rparr> (reports le)\<rparr>, [])"
proof -
  have "\<bar>rnd F64 (q - p)\<bar> \<le> 500" using assms(3) by linarith
  then show ?thesis
    using assms by (simp add: ReportJitter_def Let_def fsub_Fin to_fl_in_range latency_consts)
qed

lemma report_run_small:
  assumes "gm_get (reports le) k = Some r" and "P95Ms r = Fin p" and "small_steps p qs"
  shows "\<exists>le'. le_run (report_ops k qs) le = Some (le', []) \<and> globalDelay le' = globalDelay le \<and>
    map_option P95Ms (gm_get (reports le') k) = Some (Fin (last (p # map fst qs)))"
  using assms
proof (induction qs arbitrary: le r p)
  case (Cons x qs)
  obtain q now where x: "x = (q, now)" by force
  define le1 where "le1 = le\<lparr>reports := gm_put k \<lparr>P95Ms = Fin q, UpdatedAt = now\<rparr> (reports le)\<rparr>"
  have "ReportJitter k (Fin q) now le = Some (le1, [])"
    unfolding le1_def using Cons.prems by (intro ReportJitter_small) (auto simp: x)
  moreover have "gm_get (reports le1) k = Some \<lparr>P95Ms = Fin q, UpdatedAt = now\<rparr>"
    by (simp add: le1_def gm_get_put)
  ultimately show ?case
    using Cons.IH [of le1 _ q] Cons.prems(3) by (auto simp: x report_ops_def le1_def)
qed (simp add: report_ops_def)

text \<open>
  The equaliser compares a report with the client's previous report, not with the one that
  set the delay. However long a client's jitter drifts, as long as no two consecutive reports differ
  by 10 ms the global delay stays what it was, nothing is broadcast and no frame size changes,
  although the last report is stored.
\<close>

theorem slow_drift_unnoticed:
  assumes "gm_get (reports le) k = Some r" and "P95Ms r = Fin p" and "small_steps p qs"
  shows "\<exists>le'. le_run (report_ops k qs) le = Some (le', []) \<and> GlobalDelay le' = GlobalDelay le \<and>
    GetClientReport k le' = (Fin (last (p # map fst qs)), True)"
  using report_run_small [OF assms] by (auto simp: GlobalDelay_def GetClientReport_def)

text \<open>A report of 10 ms, then a drift in ten steps of 9 ms up to 100 ms: the delay stays 30 ms.\<close>

lemmas le_eval = NewLatencyEqualizer_def ReportJitter_def recalculate_def clamp_delay_def
  hysteresis_def max_p95_def latency_consts gm_empty_def gm_get_def gm_put_def gm_len_def
  fsub_Fin to_fl_numeral Let_def

lemma to_fl_0 [simp]: "to_fl f 0 = Fin 0"
  by (rule to_fl_exact) auto

lemma to_fl_neg_numeral: "numeral w < (2::int) ^ prec f \<Longrightarrow> to_fl f (- numeral w) = Fin (- numeral w)"
  using to_fl_of_int [of "- numeral w" f] by simp

lemma rnd_numeral: "numeral w < (2::int) ^ prec f \<Longrightarrow> rnd f (numeral w) = numeral w"
  by (rule rnd_rep) (use rep_of_int [of "numeral w" f] in simp)

theorem slow_drift_unnoticed_witness:
  "\<exists>le le'. ReportJitter ''a'' (Fin 10) 0 (NewLatencyEqualizer True True) = Some (le, [Broadcast (Fin 30)]) \<and>
     GlobalDelay le = Fin 30 \<and>
     le_run (report_ops ''a'' [(19, 1), (28, 2), (37, 3), (46, 4), (55, 5), (64, 6), (73, 7),
       (82, 8), (91, 9), (100, 10)]) le = Some (le', []) \<and>
     GlobalDelay le' = Fin 30 \<and> GetClientReport ''a'' le' = (Fin 100, True)"
proof -
  define le where "le = (NewLatencyEqualizer True True)\<lparr>reports := [(''a'', \<lparr>P95Ms = Fin 10, UpdatedAt = 0\<rparr>)],
    globalDelay := Fin 30\<rparr>"
  have r: "ReportJitter ''a'' (Fin 10) 0 (NewLatencyEqualizer True True) = Some (le, [Broadcast (Fin 30)])"
    by (simp add: le_eval le_def)
  have g: "gm_get (reports le) ''a'' = Some \<lparr>P95Ms = Fin 10, UpdatedAt = 0\<rparr>" "GlobalDelay le = Fin 30"
    by (simp_all add: le_def gm_get_def GlobalDelay_def)
  have s: "small_steps 10 [(19, 1), (28, 2), (37, 3), (46, 4), (55, 5), (64, 6), (73, 7),
       (82, 8), (91, 9), (100, 10)]"
    by (simp add: rnd_numeral)
  show ?thesis
    using slow_drift_unnoticed [OF g(1) _ s] r g(2) by auto
qed

definition steady :: "go_time \<Rightarrow> latency_eq" where
  "steady t = (NewLatencyEqualizer True True)\<lparr>reports := [(''a'', \<lparr>P95Ms = Fin 20, UpdatedAt = t\<rparr>)],
    globalDelay := Fin 118\<rparr>"

lemma steady_run: "\<exists>t'. le_run (report_ops ''a'' (map (\<lambda>t. (20, t)) ts)) (steady t) = Some (steady t', [])"
proof (induction ts arbitrary: t)
  case (Cons u ts)
  have "ReportJitter ''a'' (Fin 20) u (steady t) = Some (steady u, [])"
    by (simp add: steady_def le_eval)
  with Cons.IH [of u] show ?case by (auto simp: report_ops_def)
qed (auto simp: report_ops_def)

text \<open>
  After one spike the delay never comes down. A client that reports 100 ms once and 20 ms
  ever after leaves the delay at 118 ms, 78 ms above its target of 40 ms: the recovery lowers it by
  2 ms once, and the steady reports that follow are not acted upon.
\<close>

theorem spike_never_decays:
  "\<exists>le es. le_run (report_ops ''a'' ((100, t0) # (20, t1) # map (\<lambda>t. (20, t)) ts))
       (NewLatencyEqualizer True True) = Some (le, es) \<and>
     GlobalDelay le = Fin 118 \<and> target le = Fin 40"
proof -
  define le1 where "le1 = (NewLatencyEqualizer True True)\<lparr>reports := [(''a'', \<lparr>P95Ms = Fin 100, UpdatedAt = t0\<rparr>)],
    globalDelay := Fin 120\<rparr>"
  have "ReportJitter ''a'' (Fin 100) t0 (NewLatencyEqualizer True True) =
      Some (le1, [Broadcast (Fin 120), FrameSize ''a'' 40])"
    by (simp add: le_eval le1_def)
  moreover have "ReportJitter ''a'' (Fin 20) t1 le1 =
      Some (steady t1, [Broadcast (Fin 118), FrameSize ''a'' 10])"
    by (simp add: le_eval le1_def steady_def to_fl_neg_numeral fle_def)
  moreover have "GlobalDelay (steady t) = Fin 118 \<and> target (steady t) = Fin 40" for t
    by (simp add: steady_def target_def GlobalDelay_def le_eval)
  moreover obtain t' where "le_run (report_ops ''a'' (map (\<lambda>t. (20, t)) ts)) (steady t1) = Some (steady t', [])"
    using steady_run by blast
  ultimately show ?thesis by (simp add: report_ops_def)
qed

text \<open>
  The frame size of a client can stay at 40 ms although its jitter is back to normal. The
  jitter falls from 35 ms to 5 ms in three reports; the switch to 40 ms frames is made at the
  first, and the switch back to 10 ms is made at none.
\<close>

theorem frame_size_not_restored:
  "\<exists>le es. le_run (report_ops ''a'' [(35, 0), (28, 1), (20, 2), (5, 3)])
       (NewLatencyEqualizer True True) = Some (le, es) \<and>
     FrameSize ''a'' 40 \<in> set es \<and> FrameSize ''a'' 10 \<notin> set es \<and>
     GetClientReport ''a'' le = (Fin 5, True)"
  by (simp add: le_eval report_ops_def to_fl_neg_numeral GetClientReport_def fle_def)

end
