(* ===== verification/Bytes.thy ===== *)
theory Bytes
  imports Prelude
begin

text \<open>
  Go's \<^verbatim>\<open>encoding/binary\<close> and \<^verbatim>\<open>encoding/hex\<close> as far as the server uses them: big-endian
  integers of 16, 32 and 64 bits, little-endian 16-bit samples, lower-case hexadecimal.
  A \<^verbatim>\<open>PutUintN(buf[i:], v)\<close> of the code is \<open>blit i (beN v) buf\<close>.
\<close>

unbundle bit_operations_syntax

section \<open>Big-endian and little-endian integers\<close>

definition be16 :: "u16 \<Rightarrow> byte list" where
  "be16 v = [ucast (drop_bit 8 v), ucast v]"

definition be32 :: "u32 \<Rightarrow> byte list" where
  "be32 v = [ucast (drop_bit 24 v), ucast (drop_bit 16 v), ucast (drop_bit 8 v), ucast v]"

definition be64 :: "u64 \<Rightarrow> byte list" where
  "be64 v = be32 (ucast (drop_bit 32 v)) @ be32 (ucast v)"

definition le16 :: "u16 \<Rightarrow> byte list" where
  "le16 v = [ucast v, ucast (drop_bit 8 v)]"

text \<open>The readers look at the first bytes of a slice; the callers check its length.\<close>

definition get_be16 :: "byte list \<Rightarrow> u16" where
  "get_be16 b = push_bit 8 (ucast (b ! 0)) OR ucast (b ! 1)"

definition get_be32 :: "byte list \<Rightarrow> u32" where
  "get_be32 b =
     push_bit 24 (ucast (b ! 0)) OR push_bit 16 (ucast (b ! 1)) OR
     push_bit 8 (ucast (b ! 2)) OR ucast (b ! 3)"

definition get_be64 :: "byte list \<Rightarrow> u64" where
  "get_be64 b = push_bit 32 (ucast (get_be32 b)) OR ucast (get_be32 (drop 4 b))"

definition get_le16 :: "byte list \<Rightarrow> u16" where
  "get_le16 b = ucast (b ! 0) OR push_bit 8 (ucast (b ! 1))"

lemma length_be [simp, layout_simps]:
  "length (be16 v) = 2" "length (be32 w) = 4" "length (be64 x) = 8" "length (le16 v) = 2"
  by (simp_all add: be16_def be32_def be64_def le16_def)

section \<open>Round trips\<close>

lemma bit_word_high [simp]: "8 \<le> n \<Longrightarrow> \<not> bit (w :: byte) n" "32 \<le> n \<Longrightarrow> \<not> bit (x :: u32) n"
  by (auto dest: bit_imp_le_length)

lemma get_be16_be16 [simp]: "get_be16 (be16 v @ r) = v"
  unfolding get_be16_def be16_def
  by (rule bit_word_eqI)
    (auto simp: bit_or_iff bit_push_bit_iff bit_ucast_iff bit_drop_bit_eq)

lemma get_le16_le16 [simp]: "get_le16 (le16 v @ r) = v"
  unfolding get_le16_def le16_def
  by (rule bit_word_eqI)
    (auto simp: bit_or_iff bit_push_bit_iff bit_ucast_iff bit_drop_bit_eq)

lemma get_be32_be32 [simp]: "get_be32 (be32 v @ r) = v"
proof (rule bit_word_eqI)
  fix n assume n: "n < LENGTH(32)"
  then consider "n < 8" | "8 \<le> n" "n < 16" | "16 \<le> n" "n < 24" | "24 \<le> n" by linarith
  then show "bit (get_be32 (be32 v @ r)) n \<longleftrightarrow> bit v n"
    using n unfolding get_be32_def be32_def
    by cases (auto simp: bit_or_iff bit_push_bit_iff bit_ucast_iff bit_drop_bit_eq)
qed

lemma get_be64_be64 [simp]: "get_be64 (be64 v @ r) = v"
proof -
  have "get_be64 (be64 v @ r) =
      push_bit 32 (ucast (ucast (drop_bit 32 v) :: u32)) OR ucast (ucast v :: u32)"
    by (simp add: get_be64_def be64_def)
  also have "\<dots> = v"
    by (rule bit_word_eqI)
      (auto simp: bit_or_iff bit_push_bit_iff bit_ucast_iff bit_drop_bit_eq)
  finally show ?thesis .
qed

lemmas get_be_be = get_be16_be16 [where r = "[]", simplified]
  get_be32_be32 [where r = "[]", simplified] get_be64_be64 [where r = "[]", simplified]
  get_le16_le16 [where r = "[]", simplified]

declare get_be_be [simp]

lemma le16_get_le16 [simp]: "le16 (get_le16 [a, b]) = [a, b]"
  unfolding get_le16_def le16_def
  by (auto intro!: bit_word_eqI simp: bit_or_iff bit_push_bit_iff bit_ucast_iff bit_drop_bit_eq)

lemma be16_get_be16 [simp]: "be16 (get_be16 [a, b]) = [a, b]"
  unfolding get_be16_def be16_def
  by (auto intro!: bit_word_eqI simp: bit_or_iff bit_push_bit_iff bit_ucast_iff bit_drop_bit_eq)

lemma be32_get_be32 [simp]: "be32 (get_be32 [a, b, c, d]) = [a, b, c, d]"
  unfolding get_be32_def be32_def
  by (auto intro!: bit_word_eqI simp: bit_or_iff bit_push_bit_iff bit_ucast_iff bit_drop_bit_eq)

lemma be64_get_be64 [simp]: "be64 (get_be64 [a, b, c, d, e, f, g, h]) = [a, b, c, d, e, f, g, h]"
proof -
  have hi: "ucast (drop_bit 32 (push_bit 32 (ucast x) OR ucast y :: u64)) = x"
    and lo: "ucast (push_bit 32 (ucast x) OR ucast y :: u64) = y" for x y :: u32
    by (auto intro!: bit_word_eqI simp: bit_or_iff bit_push_bit_iff bit_ucast_iff bit_drop_bit_eq)
  have first4: "get_be32 [a, b, c, d, e, f, g, h] = get_be32 [a, b, c, d]"
    by (simp add: get_be32_def)
  show ?thesis
    unfolding be64_def get_be64_def hi lo first4 by simp
qed

lemma be16_inj [simp]: "be16 v = be16 w \<longleftrightarrow> v = w"
  by (metis get_be_be(1))

lemma be32_inj [simp]: "be32 v = be32 w \<longleftrightarrow> v = w"
  by (metis get_be_be(2))

lemma be64_inj [simp]: "be64 v = be64 w \<longleftrightarrow> v = w"
  by (metis get_be_be(3))

section \<open>Hexadecimal\<close>

definition hextable :: string where
  "hextable = ''0123456789abcdef''"

definition hex_byte :: "byte \<Rightarrow> string" where
  "hex_byte b = [hextable ! unat (drop_bit 4 b), hextable ! unat (b AND 15)]"

definition hex_encode :: "byte list \<Rightarrow> string" where
  "hex_encode bs = concat (map hex_byte bs)"

lemma length_hex_encode [simp]: "length (hex_encode bs) = 2 * length bs"
  by (induction bs) (auto simp: hex_encode_def hex_byte_def)

lemma hex_encode_Cons [simp]: "hex_encode (b # bs) = hex_byte b @ hex_encode bs"
  by (simp add: hex_encode_def)

lemma hex_encode_Nil [simp]: "hex_encode [] = []"
  by (simp add: hex_encode_def)

lemma unat_byte_less: "unat (b :: byte) < 256"
proof -
  have "unat b < 2 ^ LENGTH(8)" by (rule unsigned_less)
  then show ?thesis by simp
qed

lemma nibble_bounds: "unat (drop_bit 4 (b :: byte)) < 16" "unat (b AND 15 :: byte) < 16"
proof -
  show "unat (drop_bit 4 b) < 16"
    using unat_byte_less [of b] by (simp add: unat_drop_bit_eq drop_bit_eq_div unat_div)
  have "b AND 15 \<le> 15" by (rule word_and_le1)
  then show "unat (b AND 15) < 16" by (simp add: word_le_nat_alt)
qed

lemma hextable_distinct: "distinct hextable" and length_hextable: "length hextable = 16"
  by (simp_all add: hextable_def)

lemma hex_byte_inj: "hex_byte a = hex_byte b \<Longrightarrow> a = b"
proof -
  assume "hex_byte a = hex_byte b"
  then have "drop_bit 4 a = drop_bit 4 b" "a AND 15 = b AND 15"
    using nibble_bounds [of a] nibble_bounds [of b]
    by (auto simp: hex_byte_def nth_eq_iff_index_eq hextable_distinct length_hextable
        intro: unsigned_word_eqI)
  moreover have "x = push_bit 4 (drop_bit 4 x) OR (x AND 15)" for x :: byte
  proof -
    have m: "(15 :: byte) = mask 4" by (simp add: mask_eq_exp_minus_1)
    show ?thesis
      unfolding m
      by (auto intro!: bit_word_eqI simp: bit_or_iff bit_push_bit_iff bit_drop_bit_eq bit_and_iff bit_mask_iff)
  qed
  ultimately show ?thesis by metis
qed

lemma hex_encode_inj: "length xs = length ys \<Longrightarrow> hex_encode xs = hex_encode ys \<Longrightarrow> xs = ys"
proof (induction xs ys rule: list_induct2)
  case (Cons x xs y ys)
  then have "hex_byte x @ hex_encode xs = hex_byte y @ hex_encode ys" by simp
  moreover have "length (hex_byte x) = length (hex_byte y)" by (simp add: hex_byte_def)
  ultimately have "hex_byte x = hex_byte y" "hex_encode xs = hex_encode ys" by auto
  with Cons.IH show ?case by (simp add: hex_byte_inj)
qed simp

lemma hex_encode_set: "set (hex_encode bs) \<subseteq> set hextable"
proof (induction bs)
  case (Cons b bs)
  then show ?case
    using nibble_bounds [of b] length_hextable by (auto simp: hex_byte_def)
qed simp

end
