(* ===== verification/Protocol.thy ===== *)
theory Protocol
  imports Bytes
begin

text \<open>
  \<^verbatim>\<open>internal/protocol/packet.go\<close>: channel masks, the UDP packet and its 18-byte header, and
  the length prefix of the TCP control channel. \<^verbatim>\<open>marshal\<close>, \<^verbatim>\<open>marshal_into\<close> and \<^verbatim>\<open>unmarshal\<close> are
  \<^verbatim>\<open>Packet.Marshal\<close>, \<^verbatim>\<open>Packet.MarshalInto\<close> and \<^verbatim>\<open>Packet.Unmarshal\<close>. The locale \<^verbatim>\<open>wire_format\<close>
  states what the callers rely on and is interpreted on them.
\<close>

section \<open>Constants\<close>

definition ProtocolVersion :: byte where
  "ProtocolVersion = 1"

definition HeaderSize :: nat where
  "HeaderSize = 18"

definition MaxPayloadSize :: nat where
  "MaxPayloadSize = 4096"

definition MaxPacketSize :: nat where
  "MaxPacketSize = HeaderSize + MaxPayloadSize"

definition PacketTypeAudio :: byte where "PacketTypeAudio = 0x01"
definition PacketTypeClockSyncProbe :: byte where "PacketTypeClockSyncProbe = 0x02"
definition PacketTypeClockSyncReply :: byte where "PacketTypeClockSyncReply = 0x03"
definition PacketTypeKeepAlive :: byte where "PacketTypeKeepAlive = 0x04"

definition ChannelStereoMix :: byte where "ChannelStereoMix = 0xFF"
definition ChannelFrontLeft :: byte where "ChannelFrontLeft = 0x00"
definition ChannelFrontRight :: byte where "ChannelFrontRight = 0x01"
definition ChannelCenter :: byte where "ChannelCenter = 0x02"
definition ChannelLFE :: byte where "ChannelLFE = 0x03"
definition ChannelSurroundLeft :: byte where "ChannelSurroundLeft = 0x04"
definition ChannelSurroundRight :: byte where "ChannelSurroundRight = 0x05"
definition ChannelBackLeft :: byte where "ChannelBackLeft = 0x06"
definition ChannelBackRight :: byte where "ChannelBackRight = 0x07"

definition CodecOpus :: byte where "CodecOpus = 0x00"
definition CodecPCM :: byte where "CodecPCM = 0x01"

lemmas size_defs = HeaderSize_def MaxPayloadSize_def MaxPacketSize_def
lemmas packet_type_defs = PacketTypeAudio_def PacketTypeClockSyncProbe_def
  PacketTypeClockSyncReply_def PacketTypeKeepAlive_def
lemmas channel_defs = ChannelStereoMix_def ChannelFrontLeft_def ChannelFrontRight_def
  ChannelCenter_def ChannelLFE_def ChannelSurroundLeft_def ChannelSurroundRight_def
  ChannelBackLeft_def ChannelBackRight_def

section \<open>Channel names\<close>

definition HEXTABLE :: string where
  "HEXTABLE = ''0123456789ABCDEF''"

definition channel_string :: "byte \<Rightarrow> string" where
  "channel_string c =
     (if c = ChannelStereoMix then ''Stereo Mix''
      else if c = ChannelFrontLeft then ''Front Left''
      else if c = ChannelFrontRight then ''Front Right''
      else if c = ChannelCenter then ''Center''
      else if c = ChannelLFE then ''LFE''
      else if c = ChannelSurroundLeft then ''Surround Left''
      else if c = ChannelSurroundRight then ''Surround Right''
      else if c = ChannelBackLeft then ''Back Left''
      else if c = ChannelBackRight then ''Back Right''
      else ''Unknown(0x'' @ [HEXTABLE ! unat (drop_bit 4 c), HEXTABLE ! unat (c AND 15)] @ '')'')"

section \<open>Packets\<close>

record packet =
  Version :: byte
  PType :: byte
  SeqNum :: u32
  TimestampUs :: i64
  ChannelMask :: byte
  Codec :: byte
  Payload :: "byte list"

datatype proto_error =
    ErrPacketTooShort
  | ErrBadVersion byte
  | ErrPayloadTooLarge
  | ErrPayloadMismatch nat nat
  | ErrBufferTooSmall nat nat

text \<open>The stores both serialisers make, in the order of the code.\<close>

definition write_packet :: "packet \<Rightarrow> byte list \<Rightarrow> byte list" where
  "write_packet p buf =
     (let buf = buf[0 := Version p];
          buf = buf[1 := PType p];
          buf = blit 2 (be32 (SeqNum p)) buf;
          buf = blit 6 (be64 (TimestampUs p)) buf;
          buf = buf[14 := ChannelMask p];
          buf = buf[15 := Codec p];
          buf = blit 16 (be16 (of_nat (length (Payload p)))) buf
      in blit HeaderSize (Payload p) buf)"

definition marshal :: "packet \<Rightarrow> proto_error + byte list" where
  "marshal p =
     (if length (Payload p) > MaxPayloadSize then Inl ErrPayloadTooLarge
      else Inr (write_packet p (replicate (HeaderSize + length (Payload p)) 0)))"

text \<open>The result is the byte count and the buffer after the call.\<close>

definition marshal_into :: "packet \<Rightarrow> byte list \<Rightarrow> proto_error + (nat \<times> byte list)" where
  "marshal_into p buf =
     (let needed = HeaderSize + length (Payload p)
      in if length buf < needed then Inl (ErrBufferTooSmall needed (length buf))
         else if length (Payload p) > MaxPayloadSize then Inl ErrPayloadTooLarge
         else Inr (needed, write_packet p buf))"

definition unmarshal :: "byte list \<Rightarrow> proto_error + packet" where
  "unmarshal data =
     (if length data < HeaderSize then Inl ErrPacketTooShort
      else
        let ver = data ! 0
        in if ver \<noteq> ProtocolVersion then Inl (ErrBadVersion ver)
           else
             let payloadLen = unat (get_be16 (subslice 16 18 data))
             in if payloadLen > MaxPayloadSize then Inl ErrPayloadTooLarge
                else if length data < HeaderSize + payloadLen
                then Inl (ErrPayloadMismatch payloadLen (length data - HeaderSize))
                else Inr
                  \<lparr>Version = ver,
                   PType = data ! 1,
                   SeqNum = get_be32 (subslice 2 6 data),
                   TimestampUs = get_be64 (subslice 6 14 data),
                   ChannelMask = data ! 14,
                   Codec = data ! 15,
                   Payload = subslice HeaderSize (HeaderSize + payloadLen) data\<rparr>)"

section \<open>The layout\<close>

definition header :: "packet \<Rightarrow> byte list" where
  "header p =
     [Version p, PType p] @ be32 (SeqNum p) @ be64 (TimestampUs p) @
     [ChannelMask p, Codec p] @ be16 (of_nat (length (Payload p)))"

lemma length_header [simp, layout_simps]: "length (header p) = 18"
  by (simp add: header_def)

text \<open>The stores produce the header, then the payload, and leave the rest of the buffer.\<close>

lemma write_packet_layout:
  assumes "HeaderSize + length (Payload p) \<le> length buf"
  shows "write_packet p buf = header p @ Payload p @ drop (HeaderSize + length (Payload p)) buf"
proof -
  define h where "h = take 18 buf"
  define r where "r = drop 18 buf"
  have buf: "buf = h @ r" and h: "length h = 18" and r: "length (Payload p) \<le> length r"
    using assms by (simp_all add: h_def r_def HeaderSize_def)
  obtain b0 b1 b2 b3 b4 b5 b6 b7 b8 b9 b10 b11 b12 b13 b14 b15 b16 b17
    where hs: "h = [b0, b1, b2, b3, b4, b5, b6, b7, b8, b9, b10, b11, b12, b13, b14, b15, b16, b17]"
    using h by (auto simp: length_Suc_conv numeral_eq_Suc)
  have "write_packet p buf = blit 18 (Payload p) (header p @ r)"
    unfolding write_packet_def buf hs Let_def header_def HeaderSize_def
    by (simp add: blit_fits be32_def be64_def be16_def numeral_eq_Suc)
  also have "\<dots> = header p @ Payload p @ drop (length (Payload p)) r"
    using r by (simp add: blit_fits)
  finally show ?thesis by (simp add: r_def HeaderSize_def add.commute)
qed

lemma marshal_eq:
  "length (Payload p) \<le> MaxPayloadSize \<Longrightarrow> marshal p = Inr (header p @ Payload p)"
  by (simp add: marshal_def write_packet_layout)

lemma marshal_Inr_iff:
  "marshal p = Inr b \<longleftrightarrow> length (Payload p) \<le> MaxPayloadSize \<and> b = header p @ Payload p"
  by (auto simp: marshal_def write_packet_layout)

lemma header_fields [layout_simps]:
  "(header p @ r) ! 0 = Version p" "(header p @ r) ! Suc 0 = PType p"
  "(header p @ r) ! 14 = ChannelMask p" "(header p @ r) ! 15 = Codec p"
  "subslice 2 6 (header p @ r) = be32 (SeqNum p)"
  "subslice 6 14 (header p @ r) = be64 (TimestampUs p)"
  "subslice 16 18 (header p @ r) = be16 (of_nat (length (Payload p)))"
  by (simp_all add: header_def subslice_def be32_def be64_def be16_def nth_Cons' numeral_eq_Suc)

lemma unat_payload_len:
  "n \<le> MaxPayloadSize \<Longrightarrow> unat (of_nat n :: u16) = n"
  by (simp add: MaxPayloadSize_def unat_of_nat take_bit_nat_eq_self)

text \<open>Parsing a marshalled packet gives it back, whatever follows it in the buffer.\<close>

lemma unmarshal_header:
  assumes "length (Payload p) \<le> MaxPayloadSize" and "Version p = ProtocolVersion"
  shows "unmarshal (header p @ Payload p @ r) = Inr p"
proof -
  note l = unat_payload_len [OF assms(1)]
  show ?thesis
    using assms
    by (simp add: unmarshal_def header_fields l HeaderSize_def Let_def subslice_append_right)
      (simp add: subslice_def)
qed

text \<open>What a datagram must satisfy to be accepted, and what is read from it.\<close>

definition declared_len :: "byte list \<Rightarrow> nat" where
  "declared_len data = unat (get_be16 (subslice 16 18 data))"

definition acceptable :: "byte list \<Rightarrow> bool" where
  "acceptable data \<longleftrightarrow>
     HeaderSize \<le> length data \<and> data ! 0 = ProtocolVersion \<and>
     declared_len data \<le> MaxPayloadSize \<and> HeaderSize + declared_len data \<le> length data"

lemma unmarshal_Inr_iff: "(\<exists>p. unmarshal data = Inr p) \<longleftrightarrow> acceptable data"
  by (auto simp: unmarshal_def acceptable_def declared_len_def Let_def)

lemma subslice_two: "Suc n < length xs \<Longrightarrow> subslice n (n + 2) xs = [xs ! n, xs ! Suc n]"
  by (simp add: subslice_def numeral_2_eq_2 take_Suc_conv_app_nth)

lemma unmarshal_marshal:
  assumes "unmarshal data = Inr p"
  shows "header p @ Payload p = take (HeaderSize + declared_len data) data"
proof -
  define h where "h = take 18 data"
  define r where "r = drop 18 data"
  have acc: "acceptable data" using assms unmarshal_Inr_iff by blast
  then have d: "data = h @ r" and h: "length h = 18"
    by (simp_all add: h_def r_def acceptable_def HeaderSize_def)
  obtain b0 b1 b2 b3 b4 b5 b6 b7 b8 b9 b10 b11 b12 b13 b14 b15 b16 b17
    where hs: "h = [b0, b1, b2, b3, b4, b5, b6, b7, b8, b9, b10, b11, b12, b13, b14, b15, b16, b17]"
    using h by (auto simp: length_Suc_conv numeral_eq_Suc)
  have n: "declared_len data = unat (get_be16 [b16, b17])"
    by (simp add: declared_len_def d hs subslice_def numeral_eq_Suc)
  have p: "p = \<lparr>Version = b0, PType = b1, SeqNum = get_be32 [b2, b3, b4, b5],
      TimestampUs = get_be64 [b6, b7, b8, b9, b10, b11, b12, b13], ChannelMask = b14,
      Codec = b15, Payload = take (declared_len data) r\<rparr>"
    using assms acc unfolding n
    by (simp add: unmarshal_def acceptable_def declared_len_def Let_def d hs HeaderSize_def
        subslice_def numeral_eq_Suc split: if_splits)
  have lr: "declared_len data \<le> length r"
    using acc by (auto simp: acceptable_def r_def HeaderSize_def)
  have len: "of_nat (length (Payload p)) = get_be16 [b16, b17]"
    using lr n by (simp add: p min_absorb2)
  have "header p = h"
    unfolding header_def len by (simp add: p hs)
  then show ?thesis
    using lr by (simp add: d h HeaderSize_def) (simp add: p d)
qed

section \<open>The interface of a datagram format\<close>

locale wire_format =
  fixes enc :: "'p \<Rightarrow> 'e + byte list"
    and dec :: "byte list \<Rightarrow> 'e + 'p"
    and fits :: "'p \<Rightarrow> bool"
  assumes enc_fits: "fits p \<Longrightarrow> \<exists>b. enc p = Inr b"
    and dec_enc: "fits p \<Longrightarrow> enc p = Inr b \<Longrightarrow> dec (b @ r) = Inr p"
begin

lemma dec_enc_exact: "fits p \<Longrightarrow> enc p = Inr b \<Longrightarrow> dec b = Inr p"
  using dec_enc [of p b "[]"] by simp

lemma enc_inj: "fits p \<Longrightarrow> fits q \<Longrightarrow> enc p = enc q \<Longrightarrow> p = q"
  by (metis dec_enc_exact enc_fits sum.inject(2))

text \<open>No packet is a proper prefix of another one's encoding.\<close>

lemma prefix_free: "fits p \<Longrightarrow> fits q \<Longrightarrow> enc p = Inr b \<Longrightarrow> enc q = Inr (b @ r) \<Longrightarrow> p = q"
  by (metis dec_enc dec_enc_exact sum.inject(2))

lemma dec_batch: "\<forall>p \<in> set ps. fits p \<Longrightarrow> list_all2 (\<lambda>p b. enc p = Inr b) ps bs \<Longrightarrow>
  map dec bs = map Inr ps"
  by (rule nth_equalityI) (auto simp: list_all2_conv_all_nth dec_enc_exact)

end

definition sendable :: "packet \<Rightarrow> bool" where
  "sendable p \<longleftrightarrow> Version p = ProtocolVersion \<and> length (Payload p) \<le> MaxPayloadSize"

interpretation udp: wire_format marshal unmarshal sendable
  by unfold_locales (auto simp: sendable_def marshal_eq unmarshal_header)

section \<open>The length prefix of the control channel\<close>

definition EncodeTCPMessage :: "byte list \<Rightarrow> byte list" where
  "EncodeTCPMessage jsonPayload =
     (let msg = replicate (4 + length jsonPayload) 0;
          msg = blit 0 (be32 (of_nat (length jsonPayload))) msg
      in blit 4 jsonPayload msg)"

definition DecodeTCPLength :: "byte list \<Rightarrow> u32" where
  "DecodeTCPLength hdr = get_be32 (subslice 0 4 hdr)"

lemma EncodeTCPMessage_eq: "EncodeTCPMessage m = be32 (of_nat (length m)) @ m"
  by (simp add: EncodeTCPMessage_def Let_def blit_fits)

lemma DecodeTCPLength_Encode:
  "length m < 2 ^ 32 \<Longrightarrow> unat (DecodeTCPLength (take 4 (EncodeTCPMessage m))) = length m"
  by (simp add: EncodeTCPMessage_eq DecodeTCPLength_def subslice_def unat_of_nat take_bit_nat_eq_self)

section \<open>Properties\<close>

text \<open>
  C1: every packet with the right version and a payload that is not too large is serialised into at
  most \<^verbatim>\<open>MaxPacketSize\<close> bytes, and parsing those bytes gives exactly the packet back, whatever
  follows them in the receive buffer.
\<close>

theorem packet_roundtrip:
  assumes "Version p = ProtocolVersion" and "length (Payload p) \<le> MaxPayloadSize"
  shows "\<exists>b. marshal p = Inr b \<and> length b = HeaderSize + length (Payload p) \<and>
    length b \<le> MaxPacketSize \<and> (\<forall>r. unmarshal (b @ r) = Inr p)"
proof -
  have "sendable p" using assms by (simp add: sendable_def)
  then have "\<forall>r. unmarshal ((header p @ Payload p) @ r) = Inr p"
    using udp.dec_enc [of p "header p @ Payload p"] assms(2) by (simp add: marshal_eq)
  then show ?thesis using assms(2) by (simp add: marshal_eq size_defs)
qed

definition sample_packet :: packet where
  "sample_packet =
     \<lparr>Version = 1, PType = PacketTypeAudio, SeqNum = 0x01020304, TimestampUs = - 2,
      ChannelMask = ChannelStereoMix, Codec = CodecPCM, Payload = [10, 20, 30]\<rparr>"

theorem packet_roundtrip_witness:
  "\<exists>b. marshal sample_packet = Inr b \<and> length b = HeaderSize + length (Payload sample_packet) \<and>
    length b \<le> MaxPacketSize \<and> (\<forall>r. unmarshal (b @ r) = Inr sample_packet)"
  by (rule packet_roundtrip) (simp_all add: sample_packet_def ProtocolVersion_def size_defs)

text \<open>
  A datagram that parses is, up to the declared length, the serialisation of the packet it parses
  to: the parser loses no information of the bytes it accepts.
\<close>

theorem packet_parse_faithful:
  assumes "unmarshal data = Inr p"
  shows "marshal p = Inr (take (HeaderSize + declared_len data) data)"
proof -
  have "acceptable data" using assms unmarshal_Inr_iff by blast
  then have "length (take (HeaderSize + declared_len data) data) \<le> HeaderSize + MaxPayloadSize"
    by (simp add: acceptable_def)
  then have "length (header p @ Payload p) \<le> HeaderSize + MaxPayloadSize"
    using unmarshal_marshal [OF assms] by simp
  then have "length (Payload p) \<le> MaxPayloadSize" by (simp add: HeaderSize_def)
  then show ?thesis using unmarshal_marshal [OF assms] by (simp add: marshal_eq)
qed

lemma sample_packet_parses: "unmarshal (header sample_packet @ Payload sample_packet @ [99]) = Inr sample_packet"
  by (rule unmarshal_header) (simp_all add: sample_packet_def ProtocolVersion_def size_defs)

theorem packet_parse_faithful_witness:
  "let data = header sample_packet @ Payload sample_packet @ [99]
   in marshal sample_packet = Inr (take (HeaderSize + declared_len data) data)"
  unfolding Let_def by (rule packet_parse_faithful [OF sample_packet_parses])

text \<open>
  The verdict on every datagram, errors included: it parses iff it has a full header, the right
  version byte, and a declared payload length that is allowed and available; otherwise the error names
  the first test that fails, in that order.
\<close>

theorem unmarshal_verdict:
  "(case unmarshal data of
      Inr p \<Rightarrow> acceptable data \<and> Version p = ProtocolVersion \<and>
        length (Payload p) = declared_len data \<and> length (Payload p) \<le> MaxPayloadSize
    | Inl ErrPacketTooShort \<Rightarrow> length data < HeaderSize
    | Inl (ErrBadVersion v) \<Rightarrow> HeaderSize \<le> length data \<and> v = data ! 0 \<and> v \<noteq> ProtocolVersion
    | Inl ErrPayloadTooLarge \<Rightarrow> HeaderSize \<le> length data \<and> data ! 0 = ProtocolVersion \<and>
        MaxPayloadSize < declared_len data
    | Inl (ErrPayloadMismatch d h) \<Rightarrow> HeaderSize \<le> length data \<and> data ! 0 = ProtocolVersion \<and>
        d = declared_len data \<and> d \<le> MaxPayloadSize \<and> h = length data - HeaderSize \<and> h < d
    | Inl (ErrBufferTooSmall n l) \<Rightarrow> False)"
  by (auto simp: unmarshal_def acceptable_def declared_len_def Let_def)

text \<open>
  The allocation-free serialiser writes exactly what the allocating one returns, leaves the rest
  of the buffer alone and reports the number of bytes; it succeeds iff the packet fits the buffer and
  the payload is not too large.
\<close>

theorem marshal_into_agrees:
  "marshal_into p buf =
     (if HeaderSize + length (Payload p) \<le> length buf
      then (case marshal p of
              Inl e \<Rightarrow> Inl e
            | Inr b \<Rightarrow> Inr (length b, b @ drop (length b) buf))
      else Inl (ErrBufferTooSmall (HeaderSize + length (Payload p)) (length buf)))"
  by (auto simp: marshal_into_def marshal_def write_packet_layout Let_def HeaderSize_def)

end
