(* ===== verification/Framing.thy ===== *)
theory Framing
  imports Protocol
begin

text \<open>
  The control channel's byte stream: \<^verbatim>\<open>io.ReadFull\<close> over the segments a connection delivers, the
  two readers of length-prefixed messages (\<^verbatim>\<open>readTCPMessage\<close> in \<^verbatim>\<open>internal/server/tcp.go\<close>,
  \<^verbatim>\<open>tcpRW.ReadMessage\<close> in \<^verbatim>\<open>internal/sync/clock.go\<close>), and their contract with the writer as the
  locale \<^verbatim>\<open>framing\<close>.
\<close>

section \<open>Reading from a connection\<close>

datatype io_error = EOF | ErrUnexpectedEOF | NetErr string

text \<open>
  What a connection still delivers: the segments the successive \<^verbatim>\<open>Read\<close> calls return, cut to the
  size of the caller's buffer, and the error after the last one.
\<close>

record inconn =
  segments :: "byte list list"
  endErr :: io_error

text \<open>
  \<^verbatim>\<open>io.ReadFull\<close> into a buffer of \<open>n\<close> more bytes, with \<open>acc\<close> read so far. A connection that ends
  after some but not all of the bytes turns \<^verbatim>\<open>EOF\<close> into \<^verbatim>\<open>ErrUnexpectedEOF\<close>.
\<close>

fun read_loop :: "nat \<Rightarrow> byte list \<Rightarrow> byte list list \<Rightarrow> io_error \<Rightarrow> (io_error + byte list) \<times> byte list list" where
  "read_loop n acc [] e =
     (if n = 0 then (Inr acc, [])
      else (Inl (if acc \<noteq> [] \<and> e = EOF then ErrUnexpectedEOF else e), []))"
| "read_loop n acc (c # cs) e =
     (if n = 0 then (Inr acc, c # cs)
      else if length c \<le> n then read_loop (n - length c) (acc @ c) cs e
      else (Inr (acc @ take n c), drop n c # cs))"

definition read_full :: "nat \<Rightarrow> inconn \<Rightarrow> (io_error + byte list) \<times> inconn" where
  "read_full n c =
     (let (r, cs) = read_loop n [] (segments c) (endErr c) in (r, c\<lparr>segments := cs\<rparr>))"

text \<open>The bytes still to come, whatever their segmentation.\<close>

definition stream :: "inconn \<Rightarrow> byte list" where
  "stream c = concat (segments c)"

section \<open>The two message readers\<close>

definition MaxMessage :: nat where
  "MaxMessage = 65536"

datatype frame_error =
    ReadLength io_error
  | MsgTooLarge u32
  | ReadBody io_error

definition readTCPMessage :: "inconn \<Rightarrow> (frame_error + byte list) \<times> inconn" where
  "readTCPMessage conn =
     (case read_full 4 conn of
        (Inl e, conn) \<Rightarrow> (Inl (ReadLength e), conn)
      | (Inr lenBuf, conn) \<Rightarrow>
          (let msgLen = DecodeTCPLength lenBuf
           in if MaxMessage < unat msgLen then (Inl (MsgTooLarge msgLen), conn)
              else (case read_full (unat msgLen) conn of
                      (Inl e, conn) \<Rightarrow> (Inl (ReadBody e), conn)
                    | (Inr body, conn) \<Rightarrow> (Inr body, conn))))"

text \<open>
  \<^verbatim>\<open>ReadMessage\<close> hands the body to \<^verbatim>\<open>json.Unmarshal\<close>, the argument \<open>decode\<close>, for the structure the
  caller passes.
\<close>

datatype 'd msg_error = FrameErr frame_error | DecodeErr 'd

definition ReadMessage :: "(byte list \<Rightarrow> 'd + 'm) \<Rightarrow> inconn \<Rightarrow> ('d msg_error + 'm) \<times> inconn" where
  "ReadMessage decode conn =
     (case read_full 4 conn of
        (Inl e, conn) \<Rightarrow> (Inl (FrameErr (ReadLength e)), conn)
      | (Inr lenBuf, conn) \<Rightarrow>
          (let msgLen = DecodeTCPLength lenBuf
           in if MaxMessage < unat msgLen then (Inl (FrameErr (MsgTooLarge msgLen)), conn)
              else (case read_full (unat msgLen) conn of
                      (Inl e, conn) \<Rightarrow> (Inl (FrameErr (ReadBody e)), conn)
                    | (Inr body, conn) \<Rightarrow>
                        (case decode body of
                           Inl e \<Rightarrow> (Inl (DecodeErr e), conn)
                         | Inr m \<Rightarrow> (Inr m, conn)))))"

text \<open>
  \<^verbatim>\<open>WriteMessage\<close> and \<^verbatim>\<open>sendTCPMessage\<close>: the bytes one \<^verbatim>\<open>Write\<close> call is given, when \<^verbatim>\<open>json.Marshal\<close>
  (the argument \<open>encode\<close>) succeeds.
\<close>

definition WriteMessage :: "('m \<Rightarrow> 'd + byte list) \<Rightarrow> 'm \<Rightarrow> 'd + byte list" where
  "WriteMessage encode m = (case encode m of Inl e \<Rightarrow> Inl e | Inr d \<Rightarrow> Inr (EncodeTCPMessage d))"

text \<open>\<open>n\<close> reads in a row.\<close>

fun reads :: "('c \<Rightarrow> 'r \<times> 'c) \<Rightarrow> nat \<Rightarrow> 'c \<Rightarrow> 'r list \<times> 'c" where
  "reads recv 0 c = ([], c)"
| "reads recv (Suc n) c =
     (let (r, c) = recv c; (rs, c) = reads recv n c in (r # rs, c))"

section \<open>The contract between writer and reader\<close>

locale framing =
  fixes frame :: "'m \<Rightarrow> byte list"
    and recv :: "'c \<Rightarrow> ('e + 'r) \<times> 'c"
    and pending :: "'c \<Rightarrow> byte list"
    and view :: "'m \<Rightarrow> 'r"
    and ok :: "'m \<Rightarrow> bool"
  assumes recv_frame:
    "ok m \<Longrightarrow> pending c = frame m @ r \<Longrightarrow> \<exists>c'. recv c = (Inr (view m), c') \<and> pending c' = r"
begin

text \<open>A reader gets exactly the messages written, in order, and stops where the next one begins.\<close>

lemma recv_many:
  "\<forall>m \<in> set ms. ok m \<Longrightarrow> pending c = concat (map frame ms) @ r \<Longrightarrow>
   \<exists>c'. reads recv (length ms) c = (map (Inr \<circ> view) ms, c') \<and> pending c' = r"
proof (induction ms arbitrary: c)
  case (Cons m ms)
  then obtain c1 where c1: "recv c = (Inr (view m), c1)" "pending c1 = concat (map frame ms) @ r"
    using recv_frame [of m c "concat (map frame ms) @ r"] by auto
  then obtain c2 where "reads recv (length ms) c1 = (map (Inr \<circ> view) ms, c2)" "pending c2 = r"
    using Cons.IH [of c1] Cons.prems by auto
  then show ?case using c1 by simp
qed simp

lemma frame_prefix_free:
  "ok m \<Longrightarrow> ok m' \<Longrightarrow> pending c = frame m @ r \<Longrightarrow> pending c = frame m' @ r' \<Longrightarrow>
   view m = view m' \<and> r = r'"
  using recv_frame [of m c r] recv_frame [of m' c r'] by auto

end

section \<open>Segmentation does not matter\<close>

lemma read_loop_eq:
  "(case read_loop n acc cs e of (r, cs') \<Rightarrow> (r, concat cs')) =
     (if n \<le> length (concat cs) then (Inr (acc @ take n (concat cs)), drop n (concat cs))
      else (Inl (if acc @ concat cs \<noteq> [] \<and> e = EOF then ErrUnexpectedEOF else e), []))"
  by (induction n acc cs e rule: read_loop.induct) (auto split: prod.splits)

text \<open>The result and the bytes left, as functions of the bytes to come.\<close>

definition read_bytes :: "nat \<Rightarrow> byte list \<Rightarrow> io_error \<Rightarrow> (io_error + byte list) \<times> byte list" where
  "read_bytes n bs e =
     (if n \<le> length bs then (Inr (take n bs), drop n bs)
      else (Inl (if bs \<noteq> [] \<and> e = EOF then ErrUnexpectedEOF else e), []))"

lemma read_full_bytes:
  "fst (read_full n c) = fst (read_bytes n (stream c) (endErr c))"
  "stream (snd (read_full n c)) = snd (read_bytes n (stream c) (endErr c))"
  "endErr (snd (read_full n c)) = endErr c"
  using read_loop_eq [of n "[]" "segments c" "endErr c"]
  by (auto simp: read_full_def read_bytes_def stream_def split: prod.splits if_splits)

lemma read_fullE:
  obtains r c' where "read_full n c = (r, c')" "r = fst (read_bytes n (stream c) (endErr c))"
    "stream c' = snd (read_bytes n (stream c) (endErr c))" "endErr c' = endErr c"
  using read_full_bytes [of n c] by (cases "read_full n c") auto

definition message_bytes :: "byte list \<Rightarrow> io_error \<Rightarrow> (frame_error + byte list) \<times> byte list" where
  "message_bytes bs e =
     (case read_bytes 4 bs e of
        (Inl e, bs) \<Rightarrow> (Inl (ReadLength e), bs)
      | (Inr l, bs) \<Rightarrow>
          (if MaxMessage < unat (DecodeTCPLength l) then (Inl (MsgTooLarge (DecodeTCPLength l)), bs)
           else (case read_bytes (unat (DecodeTCPLength l)) bs e of
                   (Inl e, bs) \<Rightarrow> (Inl (ReadBody e), bs)
                 | (Inr b, bs) \<Rightarrow> (Inr b, bs))))"

lemma readTCPMessage_bytes:
  "fst (readTCPMessage c) = fst (message_bytes (stream c) (endErr c)) \<and>
   stream (snd (readTCPMessage c)) = snd (message_bytes (stream c) (endErr c)) \<and>
   endErr (snd (readTCPMessage c)) = endErr c"
proof -
  obtain r c1 where 1: "read_full 4 c = (r, c1)" "r = fst (read_bytes 4 (stream c) (endErr c))"
    "stream c1 = snd (read_bytes 4 (stream c) (endErr c))" "endErr c1 = endErr c"
    by (rule read_fullE)
  show ?thesis
  proof (cases r)
    case (Inl e)
    then show ?thesis using 1 by (auto simp: readTCPMessage_def message_bytes_def split: prod.splits)
  next
    case (Inr l)
    obtain r2 c2 where "read_full (unat (DecodeTCPLength l)) c1 = (r2, c2)"
      "r2 = fst (read_bytes (unat (DecodeTCPLength l)) (stream c1) (endErr c1))"
      "stream c2 = snd (read_bytes (unat (DecodeTCPLength l)) (stream c1) (endErr c1))"
      "endErr c2 = endErr c1"
      by (rule read_fullE)
    then show ?thesis using 1 Inr
      by (auto simp: readTCPMessage_def message_bytes_def Let_def split: prod.splits sum.splits)
  qed
qed

text \<open>\<^verbatim>\<open>ReadMessage\<close> is \<^verbatim>\<open>readTCPMessage\<close> followed by decoding.\<close>

lemma ReadMessage_eq:
  "ReadMessage decode conn =
     (case readTCPMessage conn of
        (Inl e, conn) \<Rightarrow> (Inl (FrameErr e), conn)
      | (Inr body, conn) \<Rightarrow>
          (case decode body of Inl e \<Rightarrow> (Inl (DecodeErr e), conn) | Inr m \<Rightarrow> (Inr m, conn)))"
  by (simp add: ReadMessage_def readTCPMessage_def Let_def split: prod.split sum.split)

section \<open>The interpretations\<close>

lemma message_bytes_frame:
  assumes "length m \<le> MaxMessage"
  shows "message_bytes (EncodeTCPMessage m @ r) e = (Inr m, r)"
proof -
  have "unat (of_nat (length m) :: u32) = length m"
    using assms by (simp add: MaxMessage_def unat_of_nat take_bit_nat_eq_self)
  then show ?thesis
    using assms
    by (simp add: message_bytes_def read_bytes_def EncodeTCPMessage_eq DecodeTCPLength_def subslice_def)
qed

interpretation tcp: framing EncodeTCPMessage readTCPMessage stream "\<lambda>m. m" "\<lambda>m. length m \<le> MaxMessage"
proof unfold_locales
  fix m c r
  assume "length m \<le> MaxMessage" and s: "stream c = EncodeTCPMessage m @ r"
  then have "message_bytes (stream c) (endErr c) = (Inr m, r)" by (simp add: message_bytes_frame)
  then show "\<exists>c'. readTCPMessage c = (Inr m, c') \<and> stream c' = r"
    using readTCPMessage_bytes [of c] by (cases "readTCPMessage c") auto
qed

lemma ReadMessage_frame:
  assumes "length b \<le> MaxMessage" and "decode b = Inr m" and "stream c = EncodeTCPMessage b @ r"
  shows "\<exists>c'. ReadMessage decode c = (Inr m, c') \<and> stream c' = r"
  using tcp.recv_frame [OF assms(1,3)] assms(2) by (auto simp: ReadMessage_eq)

section \<open>Properties\<close>

lemma endErr_reads: "endErr (snd (reads readTCPMessage n c)) = endErr c"
proof (induction n arbitrary: c)
  case (Suc n)
  obtain r c1 where 1: "readTCPMessage c = (r, c1)" by force
  obtain rs c2 where 2: "reads readTCPMessage n c1 = (rs, c2)" by force
  show ?case using 1 2 Suc [of c1] readTCPMessage_bytes [of c] by simp
qed simp

lemma be32_get_be32_take: "4 \<le> length xs \<Longrightarrow> be32 (get_be32 (take 4 xs)) = take 4 xs"
proof -
  assume "4 \<le> length xs"
  then obtain ys where "take 4 xs = ys" "length ys = 4" by simp
  moreover from this obtain a b c d where "ys = [a, b, c, d]"
    by (auto simp: length_Suc_conv numeral_eq_Suc)
  ultimately show ?thesis by simp
qed

lemma be32_DecodeTCPLength: "4 \<le> length xs \<Longrightarrow> be32 (DecodeTCPLength (take 4 xs)) = take 4 xs"
  by (simp add: DecodeTCPLength_def subslice_def be32_get_be32_take)

text \<open>
  C25: messages written one after the other on a connection are read back exactly, in order, whatever
  segments the network delivers them in; after the last one a connection closed by the peer gives
  \<^verbatim>\<open>io.EOF\<close>, which the server takes for a clean disconnect.
\<close>

theorem control_stream_roundtrip:
  assumes "\<forall>m \<in> set ms. length m \<le> MaxMessage"
    and "stream c = concat (map EncodeTCPMessage ms)"
  shows "fst (reads readTCPMessage (length ms) c) = map Inr ms \<and>
    fst (readTCPMessage (snd (reads readTCPMessage (length ms) c))) = Inl (ReadLength (endErr c))"
proof -
  obtain c' where c': "reads readTCPMessage (length ms) c = (map Inr ms, c')" "stream c' = []"
    using tcp.recv_many [OF assms(1), of c "[]"] assms(2) by (auto simp: comp_def)
  have "endErr c' = endErr c" using endErr_reads [of "length ms" c] c' by simp
  then show ?thesis
    using c' readTCPMessage_bytes [of c'] by (simp add: message_bytes_def read_bytes_def)
qed

theorem control_stream_roundtrip_witness:
  "let c = \<lparr>segments = [[0, 0], [0, 2, 7], [8, 0, 0, 0, 0], [0, 0, 0, 1, 9]], endErr = EOF\<rparr>
   in fst (reads readTCPMessage (length [[7 :: byte, 8], [], [9]]) c) = map Inr [[7, 8], [], [9]] \<and>
      fst (readTCPMessage (snd (reads readTCPMessage (length [[7, 8], [], [9 :: byte]]) c))) =
        Inl (ReadLength (endErr c))"
  unfolding Let_def
  by (rule control_stream_roundtrip)
    (simp_all add: MaxMessage_def stream_def EncodeTCPMessage_eq be32_def)

text \<open>
  The outcome of reading one message, on every input: it depends only on the bytes that are still
  to come; a message is returned iff its length prefix and body are there and the length is at most
  65536, and then the bytes consumed are its encoding; a connection that ends inside the prefix or the
  body is an error other than \<^verbatim>\<open>io.EOF\<close>. A connection that ends between the two gives \<^verbatim>\<open>io.EOF\<close>,
  like one that ends after a whole message.
\<close>

theorem read_message_verdict:
  "case readTCPMessage c of (r, c') \<Rightarrow>
    (case r of
       Inr m \<Rightarrow> length m \<le> MaxMessage \<and> stream c = EncodeTCPMessage m @ stream c'
     | Inl (ReadLength e) \<Rightarrow> length (stream c) < 4 \<and> stream c' = [] \<and>
         e = (if stream c \<noteq> [] \<and> endErr c = EOF then ErrUnexpectedEOF else endErr c)
     | Inl (MsgTooLarge n) \<Rightarrow> 4 \<le> length (stream c) \<and> n = DecodeTCPLength (take 4 (stream c)) \<and>
         MaxMessage < unat n \<and> stream c' = drop 4 (stream c)
     | Inl (ReadBody e) \<Rightarrow> 4 \<le> length (stream c) \<and> stream c' = [] \<and>
         length (stream c) - 4 < unat (DecodeTCPLength (take 4 (stream c))) \<and>
         e = (if 4 < length (stream c) \<and> endErr c = EOF then ErrUnexpectedEOF else endErr c))"
proof -
  have id: "EncodeTCPMessage (take n (drop 4 xs)) @ drop n (drop 4 xs) = xs"
    if "4 \<le> length xs" "n = unat (DecodeTCPLength (take 4 xs))" "n \<le> length (drop 4 xs)" for n xs
  proof -
    have "of_nat (length (take n (drop 4 xs))) = DecodeTCPLength (take 4 xs)" using that by (simp add: min_absorb2)
    then have "EncodeTCPMessage (take n (drop 4 xs)) = take 4 xs @ take n (drop 4 xs)"
      using that(1) by (simp only: EncodeTCPMessage_eq be32_DecodeTCPLength)
    then show ?thesis by (simp del: drop_drop)
  qed
  show ?thesis
    using readTCPMessage_bytes [of c] id [of "stream c"]
    by (cases "readTCPMessage c") (auto simp: message_bytes_def read_bytes_def split: if_splits)
qed



end
