(* ===== verification/Messages.thy ===== *)
theory Messages
  imports GoFloat Framing
begin

text \<open>
  The control messages of \<^verbatim>\<open>internal/protocol/packet.go\<close>: their structures, the JSON objects
  \<^verbatim>\<open>encoding/json\<close> makes of them by their field tags, and how it fills a structure from an object
  (field matching with case folding, \<^verbatim>\<open>null\<close>, type errors that do not stop the other fields).
  JSON is modelled as a syntax tree. A number keeps what matters for decoding: whether it is
  written as an integer, and its value.
\<close>

section \<open>JSON values\<close>

datatype jnum = IntLit int | DecLit int int

datatype json =
    JNull
  | JBool bool
  | JNum jnum
  | JStr string
  | JArr "json list"
  | JObj "(string \<times> json) list"

definition num_val :: "jnum \<Rightarrow> rat" where
  "num_val n = (case n of IntLit i \<Rightarrow> of_int i | DecLit m e \<Rightarrow> of_int m * 10 powi e)"

datatype json_error =
    SyntaxErr
  | TypeErr
  | UnsupportedValue

section \<open>Decoding into a structure\<close>

text \<open>
  A field: its tag, and the assignment of a JSON value to it, with a flag for a value of the wrong
  type, which leaves the field alone.
\<close>

type_synonym 's field = "string \<times> (json \<Rightarrow> 's \<Rightarrow> 's \<times> bool)"

definition set_string :: "(string \<Rightarrow> 's \<Rightarrow> 's) \<Rightarrow> json \<Rightarrow> 's \<Rightarrow> 's \<times> bool" where
  "set_string upd v s =
     (case v of JStr x \<Rightarrow> (upd x s, False) | JNull \<Rightarrow> (s, False) | _ \<Rightarrow> (s, True))"

definition int64_range :: "int \<Rightarrow> bool" where
  "int64_range n \<longleftrightarrow> - (2 ^ 63) \<le> n \<and> n < 2 ^ 63"

definition set_int64 :: "(i64 \<Rightarrow> 's \<Rightarrow> 's) \<Rightarrow> json \<Rightarrow> 's \<Rightarrow> 's \<times> bool" where
  "set_int64 upd v s =
     (case v of
        JNum (IntLit n) \<Rightarrow> (if int64_range n then (upd (word_of_int n) s, False) else (s, True))
      | JNull \<Rightarrow> (s, False)
      | _ \<Rightarrow> (s, True))"

definition set_float64 :: "(fl \<Rightarrow> 's \<Rightarrow> 's) \<Rightarrow> json \<Rightarrow> 's \<Rightarrow> 's \<times> bool" where
  "set_float64 upd v s =
     (case v of
        JNum n \<Rightarrow>
          (case to_fl F64 (num_val n) of
             Fin q \<Rightarrow> (upd (Fin q) s, False)
           | _ \<Rightarrow> (s, True))
      | JNull \<Rightarrow> (s, False)
      | _ \<Rightarrow> (s, True))"

text \<open>
  Names are compared exactly first and then up to case: ASCII letters, and the two other letters
  whose upper case is ASCII, the long s (\<^verbatim>\<open>C5 BF\<close> in UTF-8) and the Kelvin sign (\<^verbatim>\<open>E2 84 AA\<close>).
\<close>

definition upper_char :: "char \<Rightarrow> char" where
  "upper_char c =
     (if 97 \<le> (of_char c :: nat) \<and> (of_char c :: nat) \<le> 122 then char_of ((of_char c :: nat) - 32) else c)"

fun fold_name :: "string \<Rightarrow> string" where
  "fold_name [] = []"
| "fold_name (a # s) =
     (case s of
        b # r \<Rightarrow>
          (if a = CHR 0xC5 \<and> b = CHR 0xBF then CHR ''S'' # fold_name r
           else if a = CHR 0xE2 \<and> b = CHR 0x84 \<and> r \<noteq> [] \<and> hd r = CHR 0xAA
           then CHR ''K'' # fold_name (tl r)
           else upper_char a # fold_name s)
      | [] \<Rightarrow> [upper_char a])"

fun field_by :: "(string \<Rightarrow> bool) \<Rightarrow> 's field list \<Rightarrow> (json \<Rightarrow> 's \<Rightarrow> 's \<times> bool) option" where
  "field_by p [] = None"
| "field_by p ((n, f) # fs) = (if p n then Some f else field_by p fs)"

definition find_field :: "'s field list \<Rightarrow> string \<Rightarrow> (json \<Rightarrow> 's \<Rightarrow> 's \<times> bool) option" where
  "find_field fs k =
     (case field_by (\<lambda>n. n = k) fs of
        Some f \<Rightarrow> Some f
      | None \<Rightarrow> field_by (\<lambda>n. fold_name n = fold_name k) fs)"

fun fill :: "'s field list \<Rightarrow> (string \<times> json) list \<Rightarrow> 's \<Rightarrow> 's \<times> bool" where
  "fill fs [] s = (s, False)"
| "fill fs ((k, v) # kvs) s =
     (case find_field fs k of
        None \<Rightarrow> fill fs kvs s
      | Some f \<Rightarrow> (let (s, b) = f v s; (s, b') = fill fs kvs s in (s, b \<or> b')))"

definition decode_struct :: "'s field list \<Rightarrow> 's \<Rightarrow> json \<Rightarrow> json_error + 's" where
  "decode_struct fs zero j =
     (case j of
        JObj kvs \<Rightarrow> (let (s, b) = fill fs kvs zero in if b then Inl TypeErr else Inr s)
      | JNull \<Rightarrow> Inr zero
      | _ \<Rightarrow> Inl TypeErr)"

text \<open>\<^verbatim>\<open>json.Unmarshal\<close> of a byte string, with the parser of the JSON text as an argument.\<close>

definition decode_bytes :: "(byte list \<Rightarrow> json option) \<Rightarrow> (json \<Rightarrow> json_error + 'm) \<Rightarrow> byte list \<Rightarrow> json_error + 'm" where
  "decode_bytes scan f b = (case scan b of None \<Rightarrow> Inl SyntaxErr | Some j \<Rightarrow> f j)"

section \<open>Message types\<close>

definition MsgJoinRequest :: string where "MsgJoinRequest = ''JOIN_REQUEST''"
definition MsgHeartbeat :: string where "MsgHeartbeat = ''HEARTBEAT''"
definition MsgJitterReport :: string where "MsgJitterReport = ''JITTER_REPORT''"
definition MsgClockSyncReply :: string where "MsgClockSyncReply = ''CLOCK_SYNC_REPLY''"
definition MsgAppStateChange :: string where "MsgAppStateChange = ''APP_STATE_CHANGE''"
definition MsgJoinAccept :: string where "MsgJoinAccept = ''JOIN_ACCEPT''"
definition MsgJoinReject :: string where "MsgJoinReject = ''JOIN_REJECT''"
definition MsgSetGlobalLatency :: string where "MsgSetGlobalLatency = ''SET_GLOBAL_LATENCY''"
definition MsgClockSyncProbe :: string where "MsgClockSyncProbe = ''CLOCK_SYNC_PROBE''"
definition MsgClockOffset :: string where "MsgClockOffset = ''CLOCK_OFFSET''"
definition MsgChannelAssign :: string where "MsgChannelAssign = ''CHANNEL_ASSIGN''"
definition MsgSetFrameSize :: string where "MsgSetFrameSize = ''SET_FRAME_SIZE''"
definition MsgClientList :: string where "MsgClientList = ''CLIENT_LIST''"
definition MsgSessionEnded :: string where "MsgSessionEnded = ''SESSION_ENDED''"

lemmas msg_type_defs = MsgJoinRequest_def MsgHeartbeat_def MsgJitterReport_def MsgClockSyncReply_def
  MsgAppStateChange_def MsgJoinAccept_def MsgJoinReject_def
  MsgSetGlobalLatency_def MsgClockSyncProbe_def MsgClockOffset_def
  MsgChannelAssign_def MsgSetFrameSize_def MsgClientList_def MsgSessionEnded_def

section \<open>The structures\<close>

record tcp_message =
  tmType :: string

record join_request_msg =
  jrType :: string
  jrToken :: string
  jrDeviceName :: string
  jrPlatform :: string
  jrUDPPort :: i64

record heartbeat_msg =
  hbType :: string

record jitter_report_msg =
  jiType :: string
  jiP95Ms :: fl

record clock_sync_reply_msg =
  crType :: string
  crServerSendTs :: i64
  crClientRecvTs :: i64
  crClientSendTs :: i64

record app_state_change_msg =
  asType :: string
  asState :: string

text \<open>Server to client.\<close>

record join_accept_msg =
  jaType :: string
  jaClientID :: string
  jaSessionID :: string
  jaUDPPort :: i64

record join_reject_msg =
  jxType :: string
  jxReason :: string

record set_global_latency_msg =
  glType :: string
  glTargetMs :: fl

record clock_sync_probe_msg =
  cpType :: string
  cpServerSendTs :: i64

record clock_offset_msg =
  coType :: string
  coOffsetUs :: i64

record channel_assign_msg =
  caType :: string
  caChannel :: byte

record set_frame_size_msg =
  fsType :: string
  fsFrameMs :: i64

record client_info =
  ciID :: string
  ciName :: string
  ciPlatform :: string
  ciChannel :: byte
  ciJitterMs :: fl
  ciConnected :: bool

record client_list_msg =
  clType :: string
  clClients :: "client_info list"

record session_ended_msg =
  seType :: string

section \<open>Encoding\<close>

text \<open>
  Numbers: integers are written in decimal; a finite \<^verbatim>\<open>float64\<close> as the decimal number the argument
  \<open>shortest\<close> gives (the shortest one that reads back as the same value); the others are an error.
\<close>

definition enc_int64 :: "i64 \<Rightarrow> json" where
  "enc_int64 w = JNum (IntLit (sint w))"

definition enc_float64 :: "(rat \<Rightarrow> jnum) \<Rightarrow> fl \<Rightarrow> json_error + json" where
  "enc_float64 shortest x =
     (case x of Fin q \<Rightarrow> Inr (JNum (shortest q)) | _ \<Rightarrow> Inl UnsupportedValue)"

definition reads_back :: "(rat \<Rightarrow> jnum) \<Rightarrow> bool" where
  "reads_back shortest \<longleftrightarrow>
     (\<forall>q. fl_wf F64 (Fin q) \<longrightarrow> to_fl F64 (num_val (shortest q)) = Fin q)"

definition enc_tcp_message :: "tcp_message \<Rightarrow> json" where
  "enc_tcp_message m =
     JObj
     [(''type'', JStr (tmType m))]"

definition enc_join_request_msg :: "join_request_msg \<Rightarrow> json" where
  "enc_join_request_msg m =
     JObj
     [(''type'', JStr (jrType m)),
      (''token'', JStr (jrToken m)),
      (''device_name'', JStr (jrDeviceName m)),
      (''platform'', JStr (jrPlatform m)),
      (''udp_port'', enc_int64 (jrUDPPort m))]"

definition enc_heartbeat_msg :: "heartbeat_msg \<Rightarrow> json" where
  "enc_heartbeat_msg m =
     JObj
     [(''type'', JStr (hbType m))]"

definition enc_jitter_report_msg :: "(rat \<Rightarrow> jnum) \<Rightarrow> jitter_report_msg \<Rightarrow> json_error + json" where
  "enc_jitter_report_msg shortest m =
     (case enc_float64 shortest (jiP95Ms m) of
        Inl e \<Rightarrow> Inl e
      | Inr j \<Rightarrow>
          Inr (JObj
            [(''type'', JStr (jiType m)), (''p95_ms'', j)]))"

definition enc_clock_sync_reply_msg :: "clock_sync_reply_msg \<Rightarrow> json" where
  "enc_clock_sync_reply_msg m =
     JObj
     [(''type'', JStr (crType m)),
      (''server_send_ts'', enc_int64 (crServerSendTs m)),
      (''client_recv_ts'', enc_int64 (crClientRecvTs m)),
      (''client_send_ts'', enc_int64 (crClientSendTs m))]"

definition enc_app_state_change_msg :: "app_state_change_msg \<Rightarrow> json" where
  "enc_app_state_change_msg m =
     JObj
     [(''type'', JStr (asType m)),
      (''state'', JStr (asState m))]"

definition enc_join_accept_msg :: "join_accept_msg \<Rightarrow> json" where
  "enc_join_accept_msg m =
     JObj
     [(''type'', JStr (jaType m)),
      (''client_id'', JStr (jaClientID m)),
      (''session_id'', JStr (jaSessionID m)),
      (''udp_port'', enc_int64 (jaUDPPort m))]"

definition enc_join_reject_msg :: "join_reject_msg \<Rightarrow> json" where
  "enc_join_reject_msg m =
     JObj
     [(''type'', JStr (jxType m)),
      (''reason'', JStr (jxReason m))]"

definition enc_set_global_latency_msg :: "(rat \<Rightarrow> jnum) \<Rightarrow> set_global_latency_msg \<Rightarrow> json_error + json" where
  "enc_set_global_latency_msg shortest m =
     (case enc_float64 shortest (glTargetMs m) of
        Inl e \<Rightarrow> Inl e
      | Inr j \<Rightarrow>
          Inr (JObj
            [(''type'', JStr (glType m)), (''target_ms'', j)]))"

definition enc_clock_sync_probe_msg :: "clock_sync_probe_msg \<Rightarrow> json" where
  "enc_clock_sync_probe_msg m =
     JObj
     [(''type'', JStr (cpType m)),
      (''server_send_ts'', enc_int64 (cpServerSendTs m))]"

definition enc_clock_offset_msg :: "clock_offset_msg \<Rightarrow> json" where
  "enc_clock_offset_msg m =
     JObj
     [(''type'', JStr (coType m)),
      (''offset_us'', enc_int64 (coOffsetUs m))]"

definition enc_channel_assign_msg :: "channel_assign_msg \<Rightarrow> json" where
  "enc_channel_assign_msg m =
     JObj
     [(''type'', JStr (caType m)),
      (''channel'', JNum (IntLit (uint (caChannel m))))]"

definition enc_set_frame_size_msg :: "set_frame_size_msg \<Rightarrow> json" where
  "enc_set_frame_size_msg m =
     JObj
     [(''type'', JStr (fsType m)),
      (''frame_ms'', enc_int64 (fsFrameMs m))]"

definition enc_client_info :: "(rat \<Rightarrow> jnum) \<Rightarrow> client_info \<Rightarrow> json_error + json" where
  "enc_client_info shortest m =
     (case enc_float64 shortest (ciJitterMs m) of
        Inl e \<Rightarrow> Inl e
      | Inr j \<Rightarrow>
          Inr (JObj
            [(''id'', JStr (ciID m)), (''name'', JStr (ciName m)), (''platform'', JStr (ciPlatform m)), (''channel'', JNum (IntLit (uint (ciChannel m)))), (''jitter_ms'', j), (''connected'', JBool (ciConnected m))]))"

text \<open>A list field that fails makes the whole message fail.\<close>

fun enc_all :: "('a \<Rightarrow> json_error + json) \<Rightarrow> 'a list \<Rightarrow> json_error + json list" where
  "enc_all f [] = Inr []"
| "enc_all f (x # xs) =
     (case f x of
        Inl e \<Rightarrow> Inl e
      | Inr j \<Rightarrow> (case enc_all f xs of Inl e \<Rightarrow> Inl e | Inr js \<Rightarrow> Inr (j # js)))"

text \<open>A nil slice of clients, which \<^verbatim>\<open>ClientList\<close> never returns, would be written as \<^verbatim>\<open>null\<close>.\<close>

definition enc_client_list_msg :: "(rat \<Rightarrow> jnum) \<Rightarrow> client_list_msg \<Rightarrow> json_error + json" where
  "enc_client_list_msg shortest m =
     (case enc_all (enc_client_info shortest) (clClients m) of
        Inl e \<Rightarrow> Inl e
      | Inr js \<Rightarrow> Inr (JObj [(''type'', JStr (clType m)), (''clients'', JArr js)]))"

definition enc_session_ended_msg :: "session_ended_msg \<Rightarrow> json" where
  "enc_session_ended_msg m =
     JObj
     [(''type'', JStr (seType m))]"

section \<open>Decoding\<close>

text \<open>The structures the server reads. Every decoding starts from the zero value.\<close>

definition dec_tcp_message :: "json \<Rightarrow> json_error + tcp_message" where
  "dec_tcp_message =
     decode_struct
     [(''type'', set_string (\<lambda>x s. s\<lparr>tmType := x\<rparr>))]
     \<lparr>tmType = ''''\<rparr>"

definition dec_join_request_msg :: "json \<Rightarrow> json_error + join_request_msg" where
  "dec_join_request_msg =
     decode_struct
     [(''type'', set_string (\<lambda>x s. s\<lparr>jrType := x\<rparr>)),
      (''token'', set_string (\<lambda>x s. s\<lparr>jrToken := x\<rparr>)),
      (''device_name'', set_string (\<lambda>x s. s\<lparr>jrDeviceName := x\<rparr>)),
      (''platform'', set_string (\<lambda>x s. s\<lparr>jrPlatform := x\<rparr>)),
      (''udp_port'', set_int64 (\<lambda>x s. s\<lparr>jrUDPPort := x\<rparr>))]
     \<lparr>jrType = '''', jrToken = '''', jrDeviceName = '''', jrPlatform = '''', jrUDPPort = 0\<rparr>"

definition dec_jitter_report_msg :: "json \<Rightarrow> json_error + jitter_report_msg" where
  "dec_jitter_report_msg =
     decode_struct
     [(''type'', set_string (\<lambda>x s. s\<lparr>jiType := x\<rparr>)),
      (''p95_ms'', set_float64 (\<lambda>x s. s\<lparr>jiP95Ms := x\<rparr>))]
     \<lparr>jiType = '''', jiP95Ms = Fin 0\<rparr>"

definition dec_clock_sync_reply_msg :: "json \<Rightarrow> json_error + clock_sync_reply_msg" where
  "dec_clock_sync_reply_msg =
     decode_struct
     [(''type'', set_string (\<lambda>x s. s\<lparr>crType := x\<rparr>)),
      (''server_send_ts'', set_int64 (\<lambda>x s. s\<lparr>crServerSendTs := x\<rparr>)),
      (''client_recv_ts'', set_int64 (\<lambda>x s. s\<lparr>crClientRecvTs := x\<rparr>)),
      (''client_send_ts'', set_int64 (\<lambda>x s. s\<lparr>crClientSendTs := x\<rparr>))]
     \<lparr>crType = '''', crServerSendTs = 0, crClientRecvTs = 0, crClientSendTs = 0\<rparr>"

definition dec_app_state_change_msg :: "json \<Rightarrow> json_error + app_state_change_msg" where
  "dec_app_state_change_msg =
     decode_struct
     [(''type'', set_string (\<lambda>x s. s\<lparr>asType := x\<rparr>)),
      (''state'', set_string (\<lambda>x s. s\<lparr>asState := x\<rparr>))]
     \<lparr>asType = '''', asState = ''''\<rparr>"

text \<open>What the server sends: \<^verbatim>\<open>interface{}\<close> values of these types.\<close>

datatype server_msg =
    JoinAccept join_accept_msg
  | JoinReject join_reject_msg
  | SetGlobalLatency set_global_latency_msg
  | ClockSyncProbe clock_sync_probe_msg
  | ClockOffset clock_offset_msg
  | ChannelAssign channel_assign_msg
  | SetFrameSizeM set_frame_size_msg
  | ClientListM client_list_msg
  | SessionEnded session_ended_msg

definition enc_server_msg :: "(rat \<Rightarrow> jnum) \<Rightarrow> server_msg \<Rightarrow> json_error + json" where
  "enc_server_msg shortest msg =
     (case msg of
        JoinAccept m \<Rightarrow> Inr (enc_join_accept_msg m)
      | JoinReject m \<Rightarrow> Inr (enc_join_reject_msg m)
      | SetGlobalLatency m \<Rightarrow> enc_set_global_latency_msg shortest m
      | ClockSyncProbe m \<Rightarrow> Inr (enc_clock_sync_probe_msg m)
      | ClockOffset m \<Rightarrow> Inr (enc_clock_offset_msg m)
      | ChannelAssign m \<Rightarrow> Inr (enc_channel_assign_msg m)
      | SetFrameSizeM m \<Rightarrow> Inr (enc_set_frame_size_msg m)
      | ClientListM m \<Rightarrow> enc_client_list_msg shortest m
      | SessionEnded m \<Rightarrow> Inr (enc_session_ended_msg m))"

section \<open>Lemmas on decoding\<close>

lemmas setter_defs = set_string_def set_int64_def set_float64_def

lemma sint_int64_range [simp]: "int64_range (sint (w :: i64))"
  using sint_range_size [of w] by (simp add: int64_range_def word_size)

lemma find_field_code [simp]:
  "field_by p fs = Some f \<Longrightarrow> p = (\<lambda>n. n = k) \<Longrightarrow> find_field fs k = Some f"
  by (simp add: find_field_def)

text \<open>A property of the structure that every assignment keeps holds of the result.\<close>

lemma fill_keeps:
  assumes "\<And>n f v s. (n, f) \<in> set fs \<Longrightarrow> P s \<Longrightarrow> P (fst (f v s))" and "P s"
  shows "P (fst (fill fs kvs s))"
  using assms(2)
proof (induction kvs arbitrary: s)
  case (Cons kv kvs)
  obtain k v where kv: "kv = (k, v)" by force
  have mem: "field_by q fs' = Some f \<Longrightarrow> \<exists>n. (n, f) \<in> set fs'" for q f and fs' :: "'a field list"
    by (induction q fs' rule: field_by.induct) (auto split: if_splits)
  show ?case
  proof (cases "find_field fs k")
    case None
    then show ?thesis using Cons by (simp add: kv)
  next
    case (Some f)
    then obtain n where "(n, f) \<in> set fs"
      using mem by (auto simp: find_field_def split: option.splits)
    then have "P (fst (f v s))" using assms(1) Cons.prems by blast
    moreover obtain s1 b where "f v s = (s1, b)" by force
    ultimately show ?thesis using Cons.IH [of s1] Some by (auto simp: kv split: prod.split)
  qed
qed simp

lemma decode_struct_keeps:
  assumes "\<And>n f v s. (n, f) \<in> set fs \<Longrightarrow> P s \<Longrightarrow> P (fst (f v s))" and "P zero"
    and "decode_struct fs zero j = Inr s"
  shows "P s"
proof (cases j)
  case (JObj kvs)
  then show ?thesis
    using fill_keeps [of fs P zero kvs] assms by (auto simp: decode_struct_def split: prod.splits if_splits)
qed (use assms in \<open>auto simp: decode_struct_def\<close>)

lemma fill_append:
  "fill fs (xs @ ys) s =
     (let (s, b) = fill fs xs s; (s, b') = fill fs ys s in (s, b \<or> b'))"
  by (induction fs xs s rule: fill.induct) (auto split: option.split prod.split)

text \<open>A name no field has, up to case, is skipped.\<close>

lemma decode_struct_unknown:
  "find_field fs k = None \<Longrightarrow>
   decode_struct fs zero (JObj (xs @ (k, v) # ys)) = decode_struct fs zero (JObj (xs @ ys))"
  by (simp add: decode_struct_def fill_append)

lemmas enc_defs = enc_tcp_message_def enc_join_request_msg_def enc_heartbeat_msg_def
  enc_jitter_report_msg_def enc_clock_sync_reply_msg_def enc_app_state_change_msg_def
lemmas dec_defs = dec_tcp_message_def dec_join_request_msg_def dec_jitter_report_msg_def
  dec_clock_sync_reply_msg_def dec_app_state_change_msg_def
lemmas decode_simps = decode_struct_def find_field_def setter_defs Let_def

lemma dec_enc_clock_sync_reply [simp]:
  "dec_clock_sync_reply_msg (enc_clock_sync_reply_msg m) = Inr m"
  by (simp add: enc_defs dec_defs decode_simps enc_int64_def)

text \<open>A heartbeat is a clock reply with all timestamps missing.\<close>

lemma dec_heartbeat_as_reply [simp]:
  "dec_clock_sync_reply_msg (enc_heartbeat_msg h) =
     Inr \<lparr>crType = hbType h, crServerSendTs = 0, crClientRecvTs = 0, crClientSendTs = 0\<rparr>"
  by (simp add: enc_defs dec_defs decode_simps)

section \<open>Properties\<close>

text \<open>
  Every control message a client can send is understood by the server: the object made from the
  field tags decodes to the same structure, all 64-bit values and all finite \<^verbatim>\<open>float64\<close> values included.
\<close>

theorem client_messages_roundtrip:
  assumes "reads_back shortest" and "fl_wf F64 (Fin q)"
  shows "dec_join_request_msg (enc_join_request_msg a) = Inr a \<and>
    dec_clock_sync_reply_msg (enc_clock_sync_reply_msg b) = Inr b \<and>
    dec_app_state_change_msg (enc_app_state_change_msg c) = Inr c \<and>
    (\<exists>j. enc_jitter_report_msg shortest \<lparr>jiType = t, jiP95Ms = Fin q\<rparr> = Inr j \<and>
       dec_jitter_report_msg j = Inr \<lparr>jiType = t, jiP95Ms = Fin q\<rparr>)"
  using assms
  by (simp add: enc_defs dec_defs decode_simps enc_int64_def enc_float64_def reads_back_def
      del: fl_wf.simps)

text \<open>A writer of numbers that reads back: the exact decimal expansion.\<close>

definition exact_decimal :: "fmt \<Rightarrow> rat \<Rightarrow> jnum" where
  "exact_decimal f q = DecLit \<lfloor>q * 10 ^ qmin f\<rfloor> (- int (qmin f))"

lemma num_val_exact:
  assumes "rep f q" shows "num_val (exact_decimal f q) = q"
proof -
  define N where "N = qmin f"
  obtain m e where q: "q = of_int m * pow2 e" and e: "- int N \<le> e"
    using assms by (auto simp: rep_def N_def)
  have ten: "(10 :: rat) ^ N = pow2 (int N) * 5 ^ N"
    using power_mult_distrib [of "2 :: rat" 5 N] pow2_of_nat [of N] by simp
  have "q * 10 ^ N = of_int m * (pow2 e * pow2 (int N)) * 5 ^ N"
    by (simp only: q ten mult_ac)
  also have "pow2 e * pow2 (int N) = of_int (2 ^ nat (e + int N))"
    using e pow2_int [of "e + int N"] by (simp add: pow2_add)
  finally have "q * 10 ^ N = of_int (m * 2 ^ nat (e + int N) * 5 ^ N)"
    by (simp only: of_int_mult of_int_power of_int_numeral)
  then have "of_int \<lfloor>q * 10 ^ N\<rfloor> = q * 10 ^ N" by (simp only: floor_of_int)
  then have "of_int \<lfloor>q * 10 ^ N\<rfloor> / 10 ^ N = q" by (simp only:) simp
  moreover have "num_val (DecLit k (- int N)) = of_int k / 10 ^ N" for k
    by (simp add: num_val_def power_int_minus divide_inverse)
  ultimately have "num_val (DecLit \<lfloor>q * 10 ^ N\<rfloor> (- int N)) = q" by simp
  then show ?thesis by (simp add: exact_decimal_def N_def)
qed

lemma reads_back_exact: "reads_back (exact_decimal F64)"
  by (simp add: reads_back_def num_val_exact to_fl_rep)

theorem client_messages_roundtrip_witness:
  "let a = \<lparr>jrType = MsgJoinRequest, jrToken = ''ab'', jrDeviceName = ''phone'',
       jrPlatform = ''ios'', jrUDPPort = 5004\<rparr>;
       b = \<lparr>crType = MsgClockSyncReply, crServerSendTs = - 1, crClientRecvTs = 7, crClientSendTs = 8\<rparr>;
       c = \<lparr>asType = MsgAppStateChange, asState = ''background''\<rparr>
   in dec_join_request_msg (enc_join_request_msg a) = Inr a \<and>
    dec_clock_sync_reply_msg (enc_clock_sync_reply_msg b) = Inr b \<and>
    dec_app_state_change_msg (enc_app_state_change_msg c) = Inr c \<and>
    (\<exists>j. enc_jitter_report_msg (exact_decimal F64) \<lparr>jiType = MsgJitterReport, jiP95Ms = Fin 40\<rparr> = Inr j \<and>
       dec_jitter_report_msg j = Inr \<lparr>jiType = MsgJitterReport, jiP95Ms = Fin 40\<rparr>)"
  unfolding Let_def
  by (rule client_messages_roundtrip [OF reads_back_exact]) (rule fl_wf_numeral, simp)

text \<open>
  Whatever object a client sends, a decoded jitter report is a finite number of the \<^verbatim>\<open>float64\<close>
  format: no NaN and no infinity reaches the latency equaliser from the network.
\<close>

theorem decoded_jitter_finite:
  "case dec_jitter_report_msg j of
     Inl e \<Rightarrow> e = TypeErr
   | Inr m \<Rightarrow> (\<exists>q. jiP95Ms m = Fin q \<and> fl_wf F64 (Fin q))"
proof (cases "dec_jitter_report_msg j")
  case (Inl e)
  then show ?thesis
    by (auto simp: dec_jitter_report_msg_def decode_struct_def Let_def split: json.splits if_splits prod.splits)
next
  case (Inr m)
  let ?P = "\<lambda>m. \<exists>q. jiP95Ms m = Fin q \<and> fl_wf F64 (Fin q)"
  have "?P m"
  proof (rule decode_struct_keeps [OF _ _ Inr [unfolded dec_jitter_report_msg_def]])
    show "?P \<lparr>jiType = '''', jiP95Ms = Fin 0\<rparr>" by simp
    fix n v and f :: "json \<Rightarrow> jitter_report_msg \<Rightarrow> jitter_report_msg \<times> bool"
      and s :: jitter_report_msg
    assume f: "(n, f) \<in> set [(''type'', set_string (\<lambda>x s. s\<lparr>jiType := x\<rparr>)),
        (''p95_ms'', set_float64 (\<lambda>x s. s\<lparr>jiP95Ms := x\<rparr>))]" and s: "?P s"
    have "fl_wf F64 (to_fl F64 x)" for x by (rule to_fl_wf)
    then have "to_fl F64 x = Fin q \<Longrightarrow> fl_wf F64 (Fin q)" for x q by metis
    then show "?P (fst (f v s))" using f s
      by (auto simp: set_string_def set_float64_def simp del: fl_wf.simps split: json.split fl.split)
  qed
  then show ?thesis using Inr by simp
qed

definition msg_types :: "string list" where
  "msg_types =
     [MsgJoinRequest, MsgHeartbeat, MsgJitterReport, MsgClockSyncReply, MsgAppStateChange,
      MsgJoinAccept, MsgJoinReject, MsgSetGlobalLatency, MsgClockSyncProbe, MsgClockOffset,
      MsgChannelAssign, MsgSetFrameSize, MsgClientList, MsgSessionEnded]"

text \<open>
  The type tag decides: decoding any message of a client as the envelope gives its type string,
  whatever the other fields hold, and the strings of the nine server messages and the five client
  messages are pairwise different.
\<close>

theorem envelope_dispatch:
  "distinct msg_types \<and>
   dec_tcp_message (enc_heartbeat_msg h) = Inr \<lparr>tmType = hbType h\<rparr> \<and>
   dec_tcp_message (enc_join_request_msg a) = Inr \<lparr>tmType = jrType a\<rparr> \<and>
   dec_tcp_message (enc_clock_sync_reply_msg b) = Inr \<lparr>tmType = crType b\<rparr> \<and>
   dec_tcp_message (enc_app_state_change_msg c) = Inr \<lparr>tmType = asType c\<rparr> \<and>
   (case enc_jitter_report_msg shortest d of
      Inl e \<Rightarrow> \<not> (\<exists>q. jiP95Ms d = Fin q)
    | Inr j \<Rightarrow> dec_tcp_message j = Inr \<lparr>tmType = jiType d\<rparr>)"
proof -
  have "distinct msg_types" by (simp add: msg_types_def msg_type_defs)
  then show ?thesis
    by (simp add: enc_defs dec_tcp_message_def decode_simps enc_int64_def enc_float64_def
        upper_char_def split: fl.split)
qed

end
