(* ===== verification/Clock.thy ===== *)
theory Clock
  imports Messages GoMap
begin

text \<open>
  \<^verbatim>\<open>internal/sync/clock.go\<close>: the eight-round clock handshake, the periodic drift correction and the
  table of client clocks. All timestamps are \<^verbatim>\<open>int64\<close> microseconds and wrap as in Go. The clock
  readings, the result of every \<^verbatim>\<open>Write\<close> and the bytes the client sends are inputs; the messages
  written are an output.
\<close>

section \<open>State\<close>

definition InitialProbeRounds :: nat where
  "InitialProbeRounds = 8"

definition DriftCorrectionThresholdUs :: i64 where
  "DriftCorrectionThresholdUs = 500"

record client_clock =
  ccID :: string
  OffsetUs :: i64
  RTTUS :: i64
  LastSyncTime :: go_time

type_synonym clock_sync = "(string, client_clock) gomap"

definition NewClockSync :: clock_sync where
  "NewClockSync = gm_empty"

record probe_result =
  ServerSendTs :: i64
  ClientRecvTs :: i64
  ClientSendTs :: i64
  ServerRecvTs :: i64

definition rtt :: "probe_result \<Rightarrow> i64" where
  "rtt p = (ServerRecvTs p - ServerSendTs p) - (ClientSendTs p - ClientRecvTs p)"

definition quot2 :: "i64 \<Rightarrow> i64" where
  "quot2 w = word_of_int (go_quot (sint w) 2)"

definition offset :: "probe_result \<Rightarrow> i64" where
  "offset p = quot2 ((ServerSendTs p - ClientRecvTs p) + (ServerRecvTs p - ClientSendTs p))"

section \<open>The handshake\<close>

text \<open>
  The environment of one handshake: the two clock readings of every round, the outcome of every
  write (writes \<open>0\<close> to \<open>7\<close> are the probes, write \<open>8\<close> the offset) and the time it ends.
\<close>

record hs_env =
  sendTs :: "nat \<Rightarrow> i64"
  recvTs :: "nat \<Rightarrow> i64"
  writeErr :: "nat \<Rightarrow> io_error option"
  endTime :: go_time

datatype hs_error =
    SendProbe nat io_error
  | ReadReply nat "json_error msg_error"
  | NoRounds
  | SendOffset io_error

definition probe_msg :: "i64 \<Rightarrow> server_msg" where
  "probe_msg t = ClockSyncProbe \<lparr>cpType = MsgClockSyncProbe, cpServerSendTs = t\<rparr>"

definition offset_msg :: "i64 \<Rightarrow> server_msg" where
  "offset_msg o' = ClockOffset \<lparr>coType = MsgClockOffset, coOffsetUs = o'\<rparr>"

type_synonym reply_decoder = "byte list \<Rightarrow> json_error + clock_sync_reply_msg"

text \<open>The loop over the rounds: what is left to read, what was written, and the results so far.\<close>

fun sync_rounds ::
  "reply_decoder \<Rightarrow> hs_env \<Rightarrow> nat list \<Rightarrow> inconn \<Rightarrow> server_msg list \<Rightarrow> probe_result list \<Rightarrow>
   (hs_error + probe_result list) \<times> inconn \<times> server_msg list" where
  "sync_rounds dec env [] conn sent results = (Inr results, conn, sent)"
| "sync_rounds dec env (k # rounds) conn sent results =
     (let serverSendTs = sendTs env k
      in case writeErr env k of
           Some e \<Rightarrow> (Inl (SendProbe k e), conn, sent)
         | None \<Rightarrow>
             (let sent = sent @ [probe_msg serverSendTs]
              in case ReadMessage dec conn of
                   (Inl e, conn) \<Rightarrow> (Inl (ReadReply k e), conn, sent)
                 | (Inr reply, conn) \<Rightarrow>
                     sync_rounds dec env rounds conn sent
                       (results @
                         [\<lparr>ServerSendTs = serverSendTs, ClientRecvTs = crClientRecvTs reply,
                           ClientSendTs = crClientSendTs reply, ServerRecvTs = recvTs env k\<rparr>])))"

text \<open>The round with the lowest round-trip time, the first one on a tie.\<close>

fun best_from :: "probe_result \<Rightarrow> i64 \<Rightarrow> probe_result list \<Rightarrow> probe_result \<times> i64" where
  "best_from best bestRTT [] = (best, bestRTT)"
| "best_from best bestRTT (r # rs) =
     (if sint (rtt r) < sint bestRTT then best_from r (rtt r) rs else best_from best bestRTT rs)"

definition store_clock :: "string \<Rightarrow> client_clock \<Rightarrow> clock_sync \<Rightarrow> clock_sync" where
  "store_clock clientID cc cs = gm_put clientID cc cs"

definition InitialHandshake ::
  "reply_decoder \<Rightarrow> hs_env \<Rightarrow> string \<Rightarrow> inconn \<Rightarrow> clock_sync \<Rightarrow>
   hs_error option \<times> clock_sync \<times> inconn \<times> server_msg list" where
  "InitialHandshake dec env clientID conn cs =
     (case sync_rounds dec env [0..<InitialProbeRounds] conn [] [] of
        (Inl e, conn, sent) \<Rightarrow> (Some e, cs, conn, sent)
      | (Inr [], conn, sent) \<Rightarrow> (Some NoRounds, cs, conn, sent)
      | (Inr (r # rs), conn, sent) \<Rightarrow>
          (let (bestRound, bestRTT) = best_from r (rtt r) rs;
               finalOffset = offset bestRound;
               cs = store_clock clientID
                 \<lparr>ccID = clientID, OffsetUs = finalOffset, RTTUS = bestRTT,
                  LastSyncTime = endTime env\<rparr> cs
           in case writeErr env InitialProbeRounds of
                Some e \<Rightarrow> (Some (SendOffset e), cs, conn, sent)
              | None \<Rightarrow> (None, cs, conn, sent @ [offset_msg finalOffset])))"

section \<open>Drift correction\<close>

datatype sync_error = UnknownClient string | SendFailed io_error

text \<open>The probe goes through the caller's \<^verbatim>\<open>sendFunc\<close>, whose outcome is \<open>werr\<close>.\<close>

definition SendPeriodicProbe ::
  "string \<Rightarrow> i64 \<Rightarrow> io_error option \<Rightarrow> clock_sync \<Rightarrow> sync_error option \<times> server_msg list" where
  "SendPeriodicProbe clientID serverSendTs werr cs =
     (case gm_get cs clientID of
        None \<Rightarrow> (Some (UnknownClient clientID), [])
      | Some cc \<Rightarrow>
          (case werr of
             Some e \<Rightarrow> (Some (SendFailed e), [])
           | None \<Rightarrow> (None, [probe_msg serverSendTs])))"

definition abs64 :: "i64 \<Rightarrow> i64" where
  "abs64 v = (if sint v < 0 then - v else v)"

definition ProcessPeriodicReply ::
  "string \<Rightarrow> i64 \<Rightarrow> go_time \<Rightarrow> io_error option \<Rightarrow> clock_sync_reply_msg \<Rightarrow> clock_sync \<Rightarrow>
   sync_error option \<times> clock_sync \<times> server_msg list" where
  "ProcessPeriodicReply clientID serverRecvTs now werr reply cs =
     (case gm_get cs clientID of
        None \<Rightarrow> (Some (UnknownClient clientID), cs, [])
      | Some cc \<Rightarrow>
          (let result = \<lparr>ServerSendTs = crServerSendTs reply, ClientRecvTs = crClientRecvTs reply,
                 ClientSendTs = crClientSendTs reply, ServerRecvTs = serverRecvTs\<rparr>;
               newOffset = offset result;
               delta = abs64 (newOffset - OffsetUs cc)
           in if sint DriftCorrectionThresholdUs < sint delta
              then
                (let cs = gm_put clientID
                       (cc\<lparr>OffsetUs := newOffset, RTTUS := rtt result, LastSyncTime := now\<rparr>) cs
                 in case werr of
                      Some e \<Rightarrow> (Some (SendFailed e), cs, [])
                    | None \<Rightarrow> (None, cs, [offset_msg newOffset]))
              else (None, gm_put clientID (cc\<lparr>LastSyncTime := now\<rparr>) cs, [])))"

section \<open>The table\<close>

definition GetClientOffset :: "string \<Rightarrow> clock_sync \<Rightarrow> sync_error + i64" where
  "GetClientOffset clientID cs =
     (case gm_get cs clientID of None \<Rightarrow> Inl (UnknownClient clientID) | Some cc \<Rightarrow> Inr (OffsetUs cc))"

definition cs_RemoveClient :: "string \<Rightarrow> clock_sync \<Rightarrow> clock_sync" where
  "cs_RemoveClient clientID cs = gm_del clientID cs"

definition cs_ClientCount :: "clock_sync \<Rightarrow> nat" where
  "cs_ClientCount cs = gm_len cs"

definition cs_ids :: "clock_sync \<Rightarrow> string set" where
  "cs_ids cs = set (gm_keys cs)"

interpretation csr: registry cs_ids store_clock cs_RemoveClient gm_wf
  by unfold_locales (auto simp: cs_ids_def store_clock_def cs_RemoveClient_def)

text \<open>The median of a sorted copy; nothing calls it.\<close>

definition medianInt64 :: "i64 list \<Rightarrow> i64" where
  "medianInt64 values =
     (if values = [] then 0
      else
        let sorted = sort_key sint values;
            mid = length sorted div 2
        in if length sorted mod 2 = 0 then quot2 (sorted ! (mid - 1) + sorted ! mid)
           else sorted ! mid)"

section \<open>Machine arithmetic\<close>

lemma sint_of_int_id: "- (2 ^ 63) \<le> x \<Longrightarrow> x < 2 ^ 63 \<Longrightarrow> sint (word_of_int x :: i64) = x"
  by (simp add: int_word_sint mod_pos_pos_trivial)

lemma sint_i64_range: "- (2 ^ 63) \<le> sint (w :: i64)" "sint (w :: i64) < 2 ^ 63"
  using sint_range_size [of w] by (simp_all add: word_size)

lemma go_quot_2: "go_quot x 2 = (if 0 \<le> x then x div 2 else - (- x div 2))"
  by (auto simp: go_quot_def sgn_if)

lemma sint_quot2: "sint (quot2 w) = go_quot (sint w) 2"
  unfolding quot2_def
  by (rule sint_of_int_id) (use sint_i64_range [of w] in \<open>auto simp: go_quot_2\<close>)

text \<open>The least \<^verbatim>\<open>int64\<close> is its own negation, so \<^verbatim>\<open>abs64\<close> is not an absolute value there.\<close>

lemma sint_abs64: "- (2 ^ 63) < sint v \<Longrightarrow> sint (abs64 v) = \<bar>sint v\<bar>"
proof -
  assume v: "- (2 ^ 63) < sint v"
  have "sint (word_of_int (- sint v) :: i64) = - sint v"
    by (rule sint_of_int_id) (use v sint_i64_range [of v] in simp_all)
  then show ?thesis by (simp add: abs64_def)
qed

lemma abs64_least: "abs64 (word_of_int (- (2 ^ 63))) = word_of_int (- (2 ^ 63))"
  by (simp add: abs64_def)

text \<open>
  An exchange as it happens: the server's clock is the client's plus \<open>\<theta>\<close>, the request takes \<open>d\<^sub>1\<close>
  and the reply \<open>d\<^sub>2\<close>; the client holds the probe for \<open>p\<close>.
\<close>

definition exchange :: "int \<Rightarrow> int \<Rightarrow> int \<Rightarrow> int \<Rightarrow> int \<Rightarrow> probe_result" where
  "exchange \<theta> t d1 p d2 =
     \<lparr>ServerSendTs = word_of_int t,
      ClientRecvTs = word_of_int (t + d1 - \<theta>),
      ClientSendTs = word_of_int (t + d1 + p - \<theta>),
      ServerRecvTs = word_of_int (t + d1 + p + d2)\<rparr>"

lemma rtt_exchange:
  assumes "0 \<le> d1" "0 \<le> d2" "d1 + d2 < 2 ^ 63"
  shows "sint (rtt (exchange \<theta> t d1 p d2)) = d1 + d2"
proof -
  have "rtt (exchange \<theta> t d1 p d2) = word_of_int (d1 + d2)"
    by (simp add: rtt_def exchange_def)
  moreover have "sint (word_of_int (d1 + d2) :: i64) = d1 + d2"
    by (rule sint_of_int_id) (use assms in simp_all)
  ultimately show ?thesis by (simp only:)
qed

lemma offset_exchange:
  assumes "\<bar>2 * \<theta> + d2 - d1\<bar> < 2 ^ 63"
  shows "sint (offset (exchange \<theta> t d1 p d2)) = go_quot (2 * \<theta> + d2 - d1) 2"
proof -
  have "(ServerSendTs e - ClientRecvTs e) + (ServerRecvTs e - ClientSendTs e) =
      word_of_int (2 * \<theta> + d2 - d1)" if "e = exchange \<theta> t d1 p d2" for e
    by (simp add: that exchange_def)
  moreover have "sint (word_of_int (2 * \<theta> + d2 - d1) :: i64) = 2 * \<theta> + d2 - d1"
    by (rule sint_of_int_id) (use assms in simp_all)
  ultimately show ?thesis by (simp only: offset_def sint_quot2)
qed

lemma offset_exchange_error:
  assumes "0 \<le> d1" "0 \<le> d2" "\<bar>2 * \<theta> + d2 - d1\<bar> < 2 ^ 63"
  shows "2 * \<bar>sint (offset (exchange \<theta> t d1 p d2)) - \<theta>\<bar> \<le> d1 + d2 + 1"
proof -
  have "2 * \<bar>go_quot x 2 - \<theta>\<bar> \<le> \<bar>x - 2 * \<theta>\<bar> + 1" for x
    by (cases "0 \<le> x") (simp_all add: go_quot_2 abs_if, presburger+)
  from this [of "2 * \<theta> + d2 - d1"] show ?thesis
    using assms by (simp add: offset_exchange)
qed

section \<open>Lemmas on the handshake\<close>

lemma best_from_min:
  assumes "best_from b (rtt b) rs = (x, y)"
  shows "y = rtt x \<and> x \<in> set (b # rs) \<and> (\<forall>r \<in> set (b # rs). sint (rtt x) \<le> sint (rtt r))"
  using assms
proof (induction rs arbitrary: b)
  case (Cons r rs)
  show ?case
  proof (cases "sint (rtt r) < sint (rtt b)")
    case True
    then show ?thesis using Cons.IH [of r] Cons.prems by force
  next
    case False
    then show ?thesis using Cons.IH [of b] Cons.prems by force
  qed
qed simp

text \<open>What a completed or broken-off sequence of rounds has done.\<close>

lemma sync_rounds_outcome:
  assumes "sync_rounds dec env ks conn sent results = (r, conn', sent')"
  shows "case r of
      Inr res \<Rightarrow> (\<exists>new. res = results @ new \<and> map ServerSendTs new = map (sendTs env) ks \<and>
        map ServerRecvTs new = map (recvTs env) ks) \<and>
        sent' = sent @ map (\<lambda>k. probe_msg (sendTs env k)) ks \<and> (\<forall>k \<in> set ks. writeErr env k = None)
    | Inl _ \<Rightarrow> \<exists>n \<le> length ks. sent' = sent @ map (\<lambda>k. probe_msg (sendTs env k)) (take n ks)"
  using assms
proof (induction dec env ks conn sent results rule: sync_rounds.induct)
  case (2 dec env k ks conn sent results)
  show ?case
  proof (cases "writeErr env k")
    case (Some e)
    then show ?thesis using 2(2) by (auto intro: exI [of _ 0])
  next
    case None
    obtain m c where m: "ReadMessage dec conn = (m, c)" by force
    show ?thesis
    proof (cases m)
      case (Inl e)
      then have "r = Inl (ReadReply k e)" "sent' = sent @ [probe_msg (sendTs env k)]"
        using 2(2) None m by (auto simp: Let_def)
      then show ?thesis by (auto intro!: exI [of _ 1])
    next
      case (Inr reply)
      let ?p = "\<lparr>ServerSendTs = sendTs env k, ClientRecvTs = crClientRecvTs reply,
        ClientSendTs = crClientSendTs reply, ServerRecvTs = recvTs env k\<rparr>"
      have run: "sync_rounds dec env ks c (sent @ [probe_msg (sendTs env k)]) (results @ [?p]) =
          (r, conn', sent')"
        using 2(2) None m Inr by (simp add: Let_def)
      note IH = 2(1) [OF refl None refl m [symmetric] Inr run]
      show ?thesis
      proof (cases r)
        case (Inl e)
        then obtain n where "n \<le> length ks" "sent' = sent @ map (\<lambda>k. probe_msg (sendTs env k)) (take (Suc n) (k # ks))"
          using IH by auto
        then show ?thesis using Inl by (auto intro!: exI [of _ "Suc n"])
      next
        case (Inr res)
        then obtain new where "res = results @ ?p # new"
          "map ServerSendTs new = map (sendTs env) ks" "map ServerRecvTs new = map (recvTs env) ks"
          using IH by auto
        then have "\<exists>new. res = results @ new \<and> map ServerSendTs new = map (sendTs env) (k # ks) \<and>
            map ServerRecvTs new = map (recvTs env) (k # ks)"
          by (intro exI [of _ "?p # new"]) simp
        then show ?thesis using Inr IH None by simp
      qed
    qed
  qed
qed auto

text \<open>The result of round \<open>k\<close> when the client answers \<open>ans k\<close>.\<close>

definition round_result :: "hs_env \<Rightarrow> (nat \<Rightarrow> clock_sync_reply_msg) \<Rightarrow> nat \<Rightarrow> probe_result" where
  "round_result env ans k =
     \<lparr>ServerSendTs = sendTs env k, ClientRecvTs = crClientRecvTs (ans k),
      ClientSendTs = crClientSendTs (ans k), ServerRecvTs = recvTs env k\<rparr>"

definition answers ::
  "reply_decoder \<Rightarrow> (nat \<Rightarrow> byte list) \<Rightarrow> (nat \<Rightarrow> clock_sync_reply_msg) \<Rightarrow> nat list \<Rightarrow> bool" where
  "answers dec body ans ks \<longleftrightarrow>
     (\<forall>k \<in> set ks. length (body k) \<le> MaxMessage \<and> dec (body k) = Inr (ans k))"

lemma sync_rounds_run:
  assumes "answers dec body ans ks" and "\<forall>k \<in> set ks. writeErr env k = None"
    and "stream conn = concat (map (\<lambda>k. EncodeTCPMessage (body k)) ks) @ r"
  shows "\<exists>conn'. sync_rounds dec env ks conn sent results =
    (Inr (results @ map (round_result env ans) ks), conn', sent @ map (\<lambda>k. probe_msg (sendTs env k)) ks) \<and>
    stream conn' = r"
  using assms
proof (induction ks arbitrary: conn sent results)
  case (Cons k ks)
  obtain c where c: "ReadMessage dec conn = (Inr (ans k), c)"
    "stream c = concat (map (\<lambda>k. EncodeTCPMessage (body k)) ks) @ r"
    using ReadMessage_frame [of "body k" dec "ans k" conn] Cons.prems by (auto simp: answers_def)
  show ?case
    using Cons.IH [OF _ _ c(2), of "sent @ [probe_msg (sendTs env k)]" "results @ [round_result env ans k]"]
      Cons.prems(1,2) c(1)
    by (simp add: answers_def round_result_def Let_def)
qed simp

lemma handshake_run:
  assumes "answers dec body ans [0..<InitialProbeRounds]"
    and "\<forall>k \<le> InitialProbeRounds. writeErr env k = None"
    and "stream conn = concat (map (\<lambda>k. EncodeTCPMessage (body k)) [0..<InitialProbeRounds]) @ r"
  shows "\<exists>conn' b. InitialHandshake dec env cid conn cs =
      (None, store_clock cid \<lparr>ccID = cid, OffsetUs = offset b, RTTUS = rtt b, LastSyncTime = endTime env\<rparr> cs,
       conn', map (\<lambda>k. probe_msg (sendTs env k)) [0..<InitialProbeRounds] @ [offset_msg (offset b)]) \<and>
    stream conn' = r \<and> b \<in> round_result env ans ` {..<InitialProbeRounds} \<and>
    (\<forall>k < InitialProbeRounds. sint (rtt b) \<le> sint (rtt (round_result env ans k)))"
proof -
  let ?R = "round_result env ans"
  obtain conn' where run: "sync_rounds dec env [0..<InitialProbeRounds] conn [] [] =
      (Inr (map ?R [0..<InitialProbeRounds]), conn', map (\<lambda>k. probe_msg (sendTs env k)) [0..<InitialProbeRounds])"
    "stream conn' = r"
    using sync_rounds_run [OF assms(1) _ assms(3), of env "[]" "[]"] assms(2) by auto
  have ks: "[0..<InitialProbeRounds] = 0 # [1..<InitialProbeRounds]"
    by (simp add: InitialProbeRounds_def upt_rec)
  obtain b y where b: "best_from (?R 0) (rtt (?R 0)) (map ?R [1..<InitialProbeRounds]) = (b, y)" by force
  have res: "map ?R [0..<InitialProbeRounds] = ?R 0 # map ?R [1..<InitialProbeRounds]"
    by (simp only: ks list.map)
  have mem: "set (?R 0 # map ?R [1..<InitialProbeRounds]) = ?R ` {..<InitialProbeRounds}"
    unfolding res [symmetric] by (simp add: atLeast0LessThan)
  have "InitialHandshake dec env cid conn cs =
      (None, store_clock cid \<lparr>ccID = cid, OffsetUs = offset b, RTTUS = rtt b, LastSyncTime = endTime env\<rparr> cs,
       conn', map (\<lambda>k. probe_msg (sendTs env k)) [0..<InitialProbeRounds] @ [offset_msg (offset b)])"
    using run(1) b assms(2) best_from_min [OF b] unfolding res by (simp add: InitialHandshake_def Let_def)
  then show ?thesis using best_from_min [OF b] run(2) unfolding mem by blast
qed

section \<open>Properties\<close>

text \<open>
  C2: when the client answers all eight probes truthfully, with any one-way delays and any time in
  between, on a network that delivers the answers in any segments, the handshake succeeds, tells the
  client the offset it stores, and that offset is off by at most half the round-trip time (plus half
  a microsecond of truncation) of every one of the rounds, so of the fastest one. Timestamps may wrap.
\<close>

theorem handshake_accuracy:
  assumes "\<forall>k < 8. length (body k) \<le> MaxMessage \<and> dec (body k) = Inr (ans k)"
    and "\<forall>k \<le> 8. writeErr env k = None"
    and "stream conn = concat (map (\<lambda>k. EncodeTCPMessage (body k)) [0..<8]) @ r"
    and "\<forall>k < 8. round_result env ans k = exchange \<theta> (t k) (up k) (p k) (down k)"
    and "\<forall>k < 8. 0 \<le> up k \<and> 0 \<le> down k \<and> up k + down k < 2 ^ 63 \<and> \<bar>2 * \<theta> + down k - up k\<bar> < 2 ^ 63"
  shows "\<exists>cs' conn' o'. InitialHandshake dec env cid conn cs =
      (None, cs', conn', map (\<lambda>k. probe_msg (sendTs env k)) [0..<8] @ [offset_msg o']) \<and>
    stream conn' = r \<and> GetClientOffset cid cs' = Inr o' \<and>
    (\<forall>k < 8. 2 * \<bar>sint o' - \<theta>\<bar> \<le> up k + down k + 1)"
proof -
  have "answers dec body ans [0..<InitialProbeRounds]"
    using assms(1) by (simp add: answers_def InitialProbeRounds_def)
  then obtain conn' b where run: "InitialHandshake dec env cid conn cs =
      (None, store_clock cid \<lparr>ccID = cid, OffsetUs = offset b, RTTUS = rtt b, LastSyncTime = endTime env\<rparr> cs,
       conn', map (\<lambda>k. probe_msg (sendTs env k)) [0..<8] @ [offset_msg (offset b)])"
    "stream conn' = r" "b \<in> round_result env ans ` {..<8}"
    "\<forall>k < 8. sint (rtt b) \<le> sint (rtt (round_result env ans k))"
    using handshake_run [of dec body ans env conn r cid cs] assms(2,3)
    unfolding InitialProbeRounds_def by blast
  obtain j where j: "j < 8" "b = exchange \<theta> (t j) (up j) (p j) (down j)" using run(3) assms(4) by auto
  have bj: "2 * \<bar>sint (offset b) - \<theta>\<bar> \<le> up j + down j + 1"
    using offset_exchange_error [of "up j" "down j" \<theta> "t j" "p j"] assms(5) j by simp
  have "2 * \<bar>sint (offset b) - \<theta>\<bar> \<le> up k + down k + 1" if "k < 8" for k
  proof -
    have "up j + down j \<le> up k + down k"
      using run(4) that j assms(4,5) rtt_exchange [of "up j" "down j" \<theta> "t j" "p j"]
        rtt_exchange [of "up k" "down k" \<theta> "t k" "p k"] by force
    then show ?thesis using bj by linarith
  qed
  then show ?thesis
    using run(1,2) by (auto simp: GetClientOffset_def store_clock_def gm_get_put)
qed

text \<open>
  Every handshake, whatever the client and the network do, either fails and leaves the table of
  clocks as it was, or stores for this client (and no other) the offset and round-trip time of a round
  with the smallest round-trip time among eight, whose server timestamps are the ones read in the
  loop. Only in the second case can it fail later, at the last write: the entry then stays.
\<close>

theorem handshake_outcome:
  "case InitialHandshake dec env cid conn cs of (err, cs', conn', sent) \<Rightarrow>
     (case err of
        Some (SendProbe _ _) \<Rightarrow> cs' = cs
      | Some (ReadReply _ _) \<Rightarrow> cs' = cs
      | Some NoRounds \<Rightarrow> False
      | _ \<Rightarrow> (\<exists>results b. map ServerSendTs results = map (sendTs env) [0..<8] \<and>
          map ServerRecvTs results = map (recvTs env) [0..<8] \<and>
          b \<in> set results \<and> list_all (\<lambda>r. sint (rtt b) \<le> sint (rtt r)) results \<and>
          gm_get cs' = (gm_get cs)(cid \<mapsto>
            \<lparr>ccID = cid, OffsetUs = offset b, RTTUS = rtt b, LastSyncTime = endTime env\<rparr>) \<and>
          sent = map (\<lambda>k. probe_msg (sendTs env k)) [0..<8] @ (if err = None then [offset_msg (offset b)] else [])))"
proof -
  obtain r conn' sent where run: "sync_rounds dec env [0..<8] conn [] [] = (r, conn', sent)"
    by (cases "sync_rounds dec env [0..<8] conn [] []") auto
  have only: "e \<noteq> NoRounds \<and> (\<forall>x. e \<noteq> SendOffset x)"
    if "fst (sync_rounds dec env ks conn s rs) = Inl e" for e ks conn s rs
    using that
    by (induction dec env ks conn s rs rule: sync_rounds.induct)
      (auto simp: Let_def split: option.splits prod.splits sum.splits)
  note out = sync_rounds_outcome [OF run]
  show ?thesis
  proof (cases r)
    case (Inl e)
    then show ?thesis using run only [of "[0..<8]" conn "[]" "[]" e]
      by (cases e) (auto simp: InitialHandshake_def InitialProbeRounds_def)
  next
    case (Inr res)
    then have res: "map ServerSendTs res = map (sendTs env) [0..<8]"
      "map ServerRecvTs res = map (recvTs env) [0..<8]"
      "sent = map (\<lambda>k. probe_msg (sendTs env k)) [0..<8]" using out by auto
    then have "length res = 8" by (metis length_map length_upt diff_zero)
    then obtain a as where a: "res = a # as" by (cases res) auto
    obtain b y where b: "best_from a (rtt a) as = (b, y)" by force
    note best = best_from_min [OF b]
    show ?thesis
      using run Inr a b best res
      by (auto simp: InitialHandshake_def InitialProbeRounds_def Let_def store_clock_def gm_get_put list_all_iff
          split: option.split intro!: exI [of _ "a # as"] exI [of _ b])
  qed
qed

text \<open>A client that answers from its own clock, 100 microseconds behind the server's.\<close>

definition wit_exchange :: "nat \<Rightarrow> probe_result" where
  "wit_exchange k = exchange 100 (1000 * int k) (10 + int k) 5 20"

definition wit_answer :: "nat \<Rightarrow> clock_sync_reply_msg" where
  "wit_answer k =
     \<lparr>crType = MsgClockSyncReply, crServerSendTs = ServerSendTs (wit_exchange k),
      crClientRecvTs = ClientRecvTs (wit_exchange k), crClientSendTs = ClientSendTs (wit_exchange k)\<rparr>"

definition wit_decode :: reply_decoder where
  "wit_decode b = Inr (wit_answer (unat (hd b)))"

definition wit_env :: hs_env where
  "wit_env =
     \<lparr>sendTs = \<lambda>k. ServerSendTs (wit_exchange k), recvTs = \<lambda>k. ServerRecvTs (wit_exchange k),
      writeErr = \<lambda>k. None, endTime = 0\<rparr>"

definition wit_conn :: inconn where
  "wit_conn = \<lparr>segments = map (\<lambda>k. EncodeTCPMessage [of_nat k]) [0..<8], endErr = EOF\<rparr>"

theorem handshake_accuracy_witness:
  "\<exists>cs' conn' o'. InitialHandshake wit_decode wit_env ''c'' wit_conn NewClockSync =
      (None, cs', conn', map (\<lambda>k. probe_msg (sendTs wit_env k)) [0..<8] @ [offset_msg o']) \<and>
    stream conn' = [] \<and> GetClientOffset ''c'' cs' = Inr o' \<and>
    (\<forall>k < 8. 2 * \<bar>sint o' - 100\<bar> \<le> (10 + int k) + 20 + 1)"
proof (rule handshake_accuracy [where body = "\<lambda>k. [of_nat k]" and ans = wit_answer
    and t = "\<lambda>k. 1000 * int k" and p = "\<lambda>k. 5" and up = "\<lambda>k. 10 + int k" and down = "\<lambda>k. 20"])
  show "\<forall>k < 8. length [of_nat k :: byte] \<le> MaxMessage \<and> wit_decode [of_nat k] = Inr (wit_answer k)"
    by (simp add: MaxMessage_def wit_decode_def unat_of_nat take_bit_nat_eq_self)
  show "\<forall>k < 8. round_result wit_env wit_answer k = exchange 100 (1000 * int k) (10 + int k) 5 20"
    by (simp add: round_result_def wit_env_def wit_answer_def wit_exchange_def exchange_def)
qed (simp_all add: wit_env_def wit_conn_def stream_def)

text \<open>
  The handshake does not look at the type of what it reads: a heartbeat that is already waiting
  when the first probe is sent is taken as the reply to it, with both client timestamps zero. If its
  round is the fastest, the offset stored and sent to the client is the server's absolute time.
\<close>

theorem handshake_takes_heartbeat:
  assumes "\<forall>k < 8. length (body k) \<le> MaxMessage \<and>
      decode_bytes scan dec_clock_sync_reply_msg (body k) = Inr (ans k)"
    and "scan (body 0) = Some (enc_heartbeat_msg \<lparr>hbType = MsgHeartbeat\<rparr>)"
    and "\<forall>k \<le> 8. writeErr env k = None"
    and "stream conn = concat (map (\<lambda>k. EncodeTCPMessage (body k)) [0..<8]) @ r"
    and "sendTs env 0 = word_of_int t" and "recvTs env 0 = word_of_int (t + e)"
    and "0 \<le> t" and "0 \<le> e" and "2 * t + e < 2 ^ 63"
    and "\<forall>k \<in> {1..<8}. e < sint (rtt (round_result env ans k))"
  shows "\<exists>cs' conn' sent o'.
    InitialHandshake (decode_bytes scan dec_clock_sync_reply_msg) env cid conn cs = (None, cs', conn', sent) \<and>
    GetClientOffset cid cs' = Inr o' \<and> last sent = offset_msg o' \<and> sint o' = t + e div 2"
proof -
  let ?dec = "decode_bytes scan dec_clock_sync_reply_msg"
  let ?p = "round_result env ans 0"
  have "ans 0 = \<lparr>crType = MsgHeartbeat, crServerSendTs = 0, crClientRecvTs = 0, crClientSendTs = 0\<rparr>"
  proof -
    have "?dec (body 0) = Inr \<lparr>crType = MsgHeartbeat, crServerSendTs = 0, crClientRecvTs = 0, crClientSendTs = 0\<rparr>"
      using assms(2) by (simp add: decode_bytes_def)
    moreover have "?dec (body 0) = Inr (ans 0)" using assms(1) by simp
    ultimately show ?thesis by simp
  qed
  then have p: "?p = exchange t t 0 0 e" using assms(5,6)
    by (simp add: round_result_def exchange_def)
  have rtt0: "rtt ?p = word_of_int e" by (simp add: p rtt_def exchange_def)
  have e63: "sint (word_of_int e :: i64) = e" by (rule sint_of_int_id) (use assms(7-9) in simp_all)
  have off: "sint (offset ?p) = t + e div 2"
    using assms(7-9) by (simp add: p offset_exchange go_quot_2)
  have "answers ?dec body ans [0..<InitialProbeRounds]"
    using assms(1) by (simp add: answers_def InitialProbeRounds_def)
  then obtain conn' b where run: "InitialHandshake ?dec env cid conn cs =
      (None, store_clock cid \<lparr>ccID = cid, OffsetUs = offset b, RTTUS = rtt b, LastSyncTime = endTime env\<rparr> cs,
       conn', map (\<lambda>k. probe_msg (sendTs env k)) [0..<8] @ [offset_msg (offset b)])"
    "b \<in> round_result env ans ` {..<8}"
    "\<forall>k < 8. sint (rtt b) \<le> sint (rtt (round_result env ans k))"
    using handshake_run [of ?dec body ans env conn r cid cs] assms(3,4)
    unfolding InitialProbeRounds_def by blast
  obtain j where j: "j < 8" "b = round_result env ans j" using run(2) by auto
  have "sint (rtt b) \<le> e" using run(3) rtt0 e63 by (metis zero_less_numeral)
  moreover have "1 \<le> j \<Longrightarrow> e < sint (rtt b)" using j assms(10) by simp
  ultimately have "j = 0" by (cases j) auto
  then show ?thesis using run(1) j off by (auto simp: GetClientOffset_def store_clock_def gm_get_put)
qed

definition wit_scan :: "byte list \<Rightarrow> json option" where
  "wit_scan b =
     Some (if hd b = 0 then enc_heartbeat_msg \<lparr>hbType = MsgHeartbeat\<rparr>
           else enc_clock_sync_reply_msg (wit_answer (unat (hd b))))"

definition wit_late :: "nat \<Rightarrow> clock_sync_reply_msg" where
  "wit_late k =
     (if k = 0 then \<lparr>crType = MsgHeartbeat, crServerSendTs = 0, crClientRecvTs = 0, crClientSendTs = 0\<rparr>
      else wit_answer k)"

definition wit_late_env :: hs_env where
  "wit_late_env =
     \<lparr>sendTs = \<lambda>k. if k = 0 then 50000 else ServerSendTs (wit_exchange k),
      recvTs = \<lambda>k. if k = 0 then 50003 else ServerRecvTs (wit_exchange k),
      writeErr = \<lambda>k. None, endTime = 0\<rparr>"

lemma wit_byte:
  assumes "k < 8" shows "unat (of_nat k :: byte) = k" and "(of_nat k :: byte) = 0 \<longleftrightarrow> k = 0"
proof -
  show u: "unat (of_nat k :: byte) = k"
    using assms by (simp add: unat_of_nat take_bit_nat_eq_self)
  show "(of_nat k :: byte) = 0 \<longleftrightarrow> k = 0"
    using u unat_eq_zero [of "of_nat k :: byte"] by simp
qed

lemma wit_decode_late:
  "\<forall>k < 8. length [of_nat k :: byte] \<le> MaxMessage \<and>
    decode_bytes wit_scan dec_clock_sync_reply_msg [of_nat k] = Inr (wit_late k)"
  by (auto simp: MaxMessage_def decode_bytes_def wit_scan_def wit_byte wit_late_def)

lemma wit_rtt_late: "\<forall>k \<in> {1..<8}. 3 < sint (rtt (round_result wit_late_env wit_late k))"
proof
  fix k :: nat assume k: "k \<in> {1..<8}"
  then have "round_result wit_late_env wit_late k = wit_exchange k"
    by (simp add: wit_late_env_def round_result_def wit_late_def wit_answer_def wit_exchange_def exchange_def)
  moreover have "sint (rtt (wit_exchange k)) = (10 + int k) + 20"
    unfolding wit_exchange_def by (rule rtt_exchange) (use k in simp_all)
  ultimately show "3 < sint (rtt (round_result wit_late_env wit_late k))" by simp
qed

theorem handshake_takes_heartbeat_witness:
  "\<exists>cs' conn' sent o'.
    InitialHandshake (decode_bytes wit_scan dec_clock_sync_reply_msg) wit_late_env ''c'' wit_conn NewClockSync =
      (None, cs', conn', sent) \<and>
    GetClientOffset ''c'' cs' = Inr o' \<and> last sent = offset_msg o' \<and> sint o' = 50000 + 3 div 2"
  by (rule handshake_takes_heartbeat [OF wit_decode_late _ _ _ _ _ _ _ _ wit_rtt_late, where r = "[]"])
    (simp_all add: wit_scan_def wit_late_env_def wit_conn_def stream_def)

text \<open>
  C35: a truthful periodic reply leaves the stored offset within 500 microseconds, plus half the
  round-trip time of that probe, of the true one, whatever was stored before; a change is sent to the
  client (or reported as a failed write), no change sends nothing, and no other client is touched.
\<close>

theorem periodic_correction_bound:
  assumes "gm_get cs cid = Some cc"
    and "\<lparr>ServerSendTs = crServerSendTs reply, ClientRecvTs = crClientRecvTs reply,
          ClientSendTs = crClientSendTs reply, ServerRecvTs = srecv\<rparr> = exchange \<theta> t d1 p d2"
    and "0 \<le> d1" and "0 \<le> d2" and "\<bar>2 * \<theta> + d2 - d1\<bar> < 2 ^ 63" and "\<bar>sint (OffsetUs cc)\<bar> < 2 ^ 62"
  shows "case ProcessPeriodicReply cid srecv now werr reply cs of (err, cs', sent) \<Rightarrow>
    (\<exists>cc'. gm_get cs' = (gm_get cs)(cid \<mapsto> cc') \<and> LastSyncTime cc' = now \<and>
      2 * \<bar>sint (OffsetUs cc') - \<theta>\<bar> \<le> 1000 + d1 + d2 + 1 \<and>
      (if OffsetUs cc' = OffsetUs cc then err = None \<and> sent = []
       else err = map_option SendFailed werr \<and>
         sent = (if werr = None then [offset_msg (OffsetUs cc')] else [])))"
proof -
  define new where "new = offset (exchange \<theta> t d1 p d2)"
  have err: "2 * \<bar>sint new - \<theta>\<bar> \<le> d1 + d2 + 1"
    unfolding new_def by (rule offset_exchange_error) (use assms in simp_all)
  have "sint new = go_quot (2 * \<theta> + d2 - d1) 2"
    unfolding new_def by (rule offset_exchange) (use assms in simp_all)
  then have new: "\<bar>sint new\<bar> \<le> 2 ^ 62" using assms(5) by (auto simp: go_quot_2 abs_if split: if_splits)
  have "sint (new - OffsetUs cc) = sint new - sint (OffsetUs cc)"
  proof -
    have "new - OffsetUs cc = word_of_int (sint new - sint (OffsetUs cc))" by simp
    moreover have "sint (word_of_int (sint new - sint (OffsetUs cc)) :: i64) = sint new - sint (OffsetUs cc)"
      by (rule sint_of_int_id) (use new assms(6) in \<open>simp_all add: abs_le_iff abs_less_iff\<close>)
    ultimately show ?thesis by (simp only:)
  qed
  then have delta: "sint (abs64 (new - OffsetUs cc)) = \<bar>sint new - sint (OffsetUs cc)\<bar>"
    using new assms(6) by (subst sint_abs64) (simp_all add: abs_le_iff abs_less_iff)
  note unfold = ProcessPeriodicReply_def Let_def assms(1,2) new_def [symmetric] delta
    DriftCorrectionThresholdUs_def gm_get_put
  show ?thesis
  proof (cases "500 < \<bar>sint new - sint (OffsetUs cc)\<bar>")
    case True
    define cc' where "cc' = cc\<lparr>OffsetUs := new, RTTUS := rtt (exchange \<theta> t d1 p d2), LastSyncTime := now\<rparr>"
    have "OffsetUs cc' \<noteq> OffsetUs cc" using True by (auto simp: cc'_def)
    then show ?thesis using True err
      by (auto simp: unfold cc'_def split: option.split intro!: exI [of _ cc'])
  next
    case False
    have "2 * b \<le> 1001 + (d1 + d2)" if "\<not> 500 < a" "b \<le> a + c" "2 * c \<le> d1 + d2 + 1" for a b c
      using that by linarith
    from this [OF False _ err] have "2 * \<bar>sint (OffsetUs cc) - \<theta>\<bar> \<le> 1001 + (d1 + d2)" by simp
    then show ?thesis using False
      by (auto simp: unfold intro!: exI [of _ "cc\<lparr>LastSyncTime := now\<rparr>"])
  qed
qed

theorem periodic_correction_bound_witness:
  "let cc = \<lparr>ccID = ''c'', OffsetUs = 5000, RTTUS = 9, LastSyncTime = 0\<rparr>; cs = [(''c'', cc)];
       werr = (None :: io_error option)
   in case ProcessPeriodicReply ''c'' 135 7 werr
      \<lparr>crType = MsgClockSyncReply, crServerSendTs = 100, crClientRecvTs = - 890, crClientSendTs = - 885\<rparr>
      cs of (err, cs', sent) \<Rightarrow>
    (\<exists>cc'. gm_get cs' = (gm_get cs)(''c'' \<mapsto> cc') \<and> LastSyncTime cc' = 7 \<and>
      2 * \<bar>sint (OffsetUs cc') - 1000\<bar> \<le> 1000 + 10 + 20 + 1 \<and>
      (if OffsetUs cc' = OffsetUs cc then err = None \<and> sent = []
       else err = map_option SendFailed werr \<and>
         sent = (if werr = None then [offset_msg (OffsetUs cc')] else [])))"
  unfolding Let_def
  by (rule periodic_correction_bound [where t = 100 and p = 5]) (simp_all add: exchange_def gm_get_def)

text \<open>
  \<^verbatim>\<open>medianInt64\<close> of an odd number of values is one of them, and at least half of them are on
  either side of it; the order of the values does not matter.
\<close>

theorem median_odd:
  assumes "odd (length values)"
  shows "medianInt64 values \<in> set values \<and>
    length values \<le> 2 * length [v \<leftarrow> values. sint v \<le> sint (medianInt64 values)] \<and>
    length values \<le> 2 * length [v \<leftarrow> values. sint (medianInt64 values) \<le> sint v] \<and>
    (\<forall>vs. mset vs = mset values \<longrightarrow> medianInt64 vs = medianInt64 values)"
proof -
  define s where "s = sort_key sint values"
  define m where "m = length s div 2"
  have len: "length s = length values" and set_s: "set s = set values"
    by (simp_all add: s_def)
  have ne: "values \<noteq> []" using assms by auto
  have med: "medianInt64 values = s ! m"
    using assms ne by (simp add: medianInt64_def s_def [symmetric] Let_def m_def len odd_iff_mod_2_eq_one)
  have m: "length s = 2 * m + 1" using assms len by (simp add: m_def)
  have sorted: "sorted (map sint s)" by (simp add: s_def)
  have count: "length [v \<leftarrow> values. P v] = length [v \<leftarrow> s. P v]" for P
    by (metis mset_filter mset_sort s_def size_mset)
  have le: "sint (s ! i) \<le> sint (s ! m)" if "i \<le> m" for i
    using sorted_nth_mono [OF sorted, of i m] that m by simp
  have ge: "sint (s ! m) \<le> sint (s ! i)" if "m \<le> i" "i < length s" for i
    using sorted_nth_mono [OF sorted, of m i] that m by simp
  have "length [v \<leftarrow> take (Suc m) s. sint v \<le> sint (s ! m)] = Suc m"
    using m le by (subst filter_True) (auto simp: in_set_conv_nth)
  then have lo: "Suc m \<le> length [v \<leftarrow> s. sint v \<le> sint (s ! m)]"
    by (metis append_take_drop_id filter_append length_append le_add1)
  have "length [v \<leftarrow> drop m s. sint (s ! m) \<le> sint v] = Suc m"
    using m ge by (subst filter_True) (auto simp: in_set_conv_nth)
  then have hi: "Suc m \<le> length [v \<leftarrow> s. sint (s ! m) \<le> sint v]"
    by (metis append_take_drop_id filter_append length_append le_add2)
  have "medianInt64 vs = medianInt64 values" if "mset vs = mset values" for vs
  proof -
    have "sort (map sint vs) = map sint (sort_key sint vs)"
      by (rule properties_for_sort) simp_all
    moreover have "sort (map sint vs) = map sint s"
      by (rule properties_for_sort) (simp_all add: s_def that)
    ultimately have "map sint (sort_key sint vs) = map sint s" by simp
    moreover have "inj (sint :: i64 \<Rightarrow> int)" by (auto intro!: injI)
    ultimately have "sort_key sint vs = s" by (simp only: inj_map_eq_map)
    then show ?thesis using that ne
      by (auto simp: medianInt64_def s_def Let_def)
  qed
  then show ?thesis
    using med lo hi m len set_s nth_mem [of m s] by (simp add: count)
qed

theorem median_odd_witness:
  "let values = [5, - 3, 9 :: i64]
   in medianInt64 values \<in> set values \<and>
    length values \<le> 2 * length [v \<leftarrow> values. sint v \<le> sint (medianInt64 values)] \<and>
    length values \<le> 2 * length [v \<leftarrow> values. sint (medianInt64 values) \<le> sint v] \<and>
    (\<forall>vs. mset vs = mset values \<longrightarrow> medianInt64 vs = medianInt64 values)"
  unfolding Let_def by (rule median_odd) simp

end
