(* ===== verification/Session.thy ===== *)
theory Session
  imports Messages GoMap
begin

text \<open>
  \<^verbatim>\<open>internal/session/manager.go\<close>: the client objects, the session that registers them, the
  identifiers, the eviction of silent clients and the session manager. Client objects are shared: the
  map of the session and the goroutine that serves a connection both hold a pointer to the same
  object, so the objects live in a store and the map holds references. The bytes of \<^verbatim>\<open>rand.Read\<close>
  (\<open>None\<close> when it fails), the clock and the order of \<^verbatim>\<open>range\<close> are inputs; calls that leave the package
  (closing a connection, callbacks) are appended to a trace.
\<close>

section \<open>Constants\<close>

definition SessionIDLength :: nat where "SessionIDLength = 6"
definition TokenLength :: nat where "TokenLength = 32"

text \<open>Durations in nanoseconds.\<close>

definition HeartbeatInterval :: go_time where "HeartbeatInterval = 3 * 10 ^ 9"
definition HeartbeatTimeout :: go_time where "HeartbeatTimeout = 10 * 10 ^ 9"

datatype role = RoleHost | RoleSpeaker | RoleOther int

definition role_string :: "role \<Rightarrow> string" where
  "role_string r =
     (case r of RoleHost \<Rightarrow> ''host'' | RoleSpeaker \<Rightarrow> ''speaker'' | RoleOther _ \<Rightarrow> ''unknown'')"

section \<open>Clients\<close>

type_synonym conn = nat
type_synonym ref = nat

text \<open>The write function of a client is the closure over its connection that the read loop stores.\<close>

record client =
  cID :: string
  cName :: string
  cPlatform :: string
  cTCPConn :: "conn option"
  cRole :: role
  cChannelAssign :: byte
  cJoinedAt :: go_time
  cLastHeartbeat :: go_time
  cP95Jitter :: fl
  cFrameSize :: int
  cAppState :: string
  cWriteFunc :: "conn option"

definition IsStale :: "go_time \<Rightarrow> client \<Rightarrow> bool" where
  "IsStale now c \<longleftrightarrow> now - cLastHeartbeat c > HeartbeatTimeout"

definition Info :: "client \<Rightarrow> client_info" where
  "Info c =
     \<lparr>ciID = cID c, ciName = cName c, ciPlatform = cPlatform c, ciChannel = cChannelAssign c,
      ciJitterMs = cP95Jitter c, ciConnected = True\<rparr>"

section \<open>The session\<close>

datatype sess_event = ConnClosed conn | JoinCalled ref | LeaveCalled string

record session =
  sID :: string
  sToken :: string
  sCreatedAt :: go_time
  sClients :: "(string, ref) gomap"
  sOnClientJoin :: bool
  sOnClientLeave :: bool
  store :: "client list"
  trace :: "sess_event list"

datatype sess_error = ErrSessionID | ErrToken | ErrInvalidToken | ErrClientID

definition upd_client :: "ref \<Rightarrow> (client \<Rightarrow> client) \<Rightarrow> session \<Rightarrow> session" where
  "upd_client r f s = s\<lparr>store := (store s)[r := f (store s ! r)]\<rparr>"

text \<open>The methods of a client, on the object a reference points to.\<close>

definition UpdateHeartbeat :: "ref \<Rightarrow> go_time \<Rightarrow> session \<Rightarrow> session" where
  "UpdateHeartbeat r now = upd_client r (\<lambda>c. c\<lparr>cLastHeartbeat := now\<rparr>)"

definition SetJitter :: "ref \<Rightarrow> fl \<Rightarrow> session \<Rightarrow> session" where
  "SetJitter r p95Ms = upd_client r (\<lambda>c. c\<lparr>cP95Jitter := p95Ms\<rparr>)"

definition cl_SetChannel :: "ref \<Rightarrow> byte \<Rightarrow> session \<Rightarrow> session" where
  "cl_SetChannel r ch = upd_client r (\<lambda>c. c\<lparr>cChannelAssign := ch\<rparr>)"

definition cl_SetFrameSize :: "ref \<Rightarrow> int \<Rightarrow> session \<Rightarrow> session" where
  "cl_SetFrameSize r ms = upd_client r (\<lambda>c. c\<lparr>cFrameSize := ms\<rparr>)"

definition SetAppState :: "ref \<Rightarrow> string \<Rightarrow> session \<Rightarrow> session" where
  "SetAppState r st = upd_client r (\<lambda>c. c\<lparr>cAppState := st\<rparr>)"

definition SetWriteFunc :: "ref \<Rightarrow> conn \<Rightarrow> session \<Rightarrow> session" where
  "SetWriteFunc r w = upd_client r (\<lambda>c. c\<lparr>cWriteFunc := Some w\<rparr>)"

text \<open>Where \<^verbatim>\<open>Send\<close> writes: nowhere, without an error, when no write function is set.\<close>

definition Send :: "ref \<Rightarrow> session \<Rightarrow> conn option" where
  "Send r s = cWriteFunc (store s ! r)"

section \<open>Identifiers\<close>

definition charset :: string where
  "charset = ''ABCDEFGHJKLMNPQRSTUVWXYZ23456789''"

definition generateSessionID :: "byte list option \<Rightarrow> string option" where
  "generateSessionID rd = map_option (map (\<lambda>b. charset ! (unat b mod length charset))) rd"

definition generateToken :: "byte list option \<Rightarrow> string option" where
  "generateToken rd = map_option hex_encode rd"

definition generateClientID :: "byte list option \<Rightarrow> string option" where
  "generateClientID rd = map_option (\<lambda>b. ''cli_'' @ hex_encode b) rd"

section \<open>Operations\<close>

definition NewSession :: "byte list option \<Rightarrow> byte list option \<Rightarrow> go_time \<Rightarrow> sess_error + session" where
  "NewSession rd1 rd2 now =
     (case generateSessionID rd1 of
        None \<Rightarrow> Inl ErrSessionID
      | Some sid \<Rightarrow>
          (case generateToken rd2 of
             None \<Rightarrow> Inl ErrToken
           | Some token \<Rightarrow>
               Inr \<lparr>sID = sid, sToken = token, sCreatedAt = now, sClients = gm_empty,
                    sOnClientJoin = False, sOnClientLeave = False, store = [], trace = []\<rparr>))"

definition new_client :: "string \<Rightarrow> string \<Rightarrow> string \<Rightarrow> conn \<Rightarrow> go_time \<Rightarrow> client" where
  "new_client clientID deviceName platform tcpConn now =
     \<lparr>cID = clientID, cName = deviceName, cPlatform = platform, cTCPConn = Some tcpConn,
      cRole = RoleSpeaker, cChannelAssign = ChannelStereoMix, cJoinedAt = now,
      cLastHeartbeat = now, cP95Jitter = Fin 0, cFrameSize = 10, cAppState = ''foreground'',
      cWriteFunc = None\<rparr>"

text \<open>Allocating the object and registering it.\<close>

definition register :: "string \<Rightarrow> client \<Rightarrow> session \<Rightarrow> session" where
  "register clientID c s =
     (let r = length (store s)
      in s\<lparr>store := store s @ [c], sClients := gm_put clientID r (sClients s)\<rparr>)"

definition AddClient ::
  "string \<Rightarrow> string \<Rightarrow> string \<Rightarrow> conn \<Rightarrow> byte list option \<Rightarrow> go_time \<Rightarrow> session \<Rightarrow>
   (sess_error + ref) \<times> session" where
  "AddClient token deviceName platform tcpConn rd now s =
     (if token \<noteq> sToken s then (Inl ErrInvalidToken, s)
      else case generateClientID rd of
             None \<Rightarrow> (Inl ErrClientID, s)
           | Some clientID \<Rightarrow>
               (let r = length (store s);
                    s = register clientID (new_client clientID deviceName platform tcpConn now) s;
                    s = (if sOnClientJoin s then s\<lparr>trace := trace s @ [JoinCalled r]\<rparr> else s)
                in (Inr r, s)))"

definition RemoveClient :: "string \<Rightarrow> session \<Rightarrow> session" where
  "RemoveClient clientID s =
     (case gm_get (sClients s) clientID of
        None \<Rightarrow> s
      | Some r \<Rightarrow>
          (let s = s\<lparr>sClients := gm_del clientID (sClients s)\<rparr>;
               s = (case cTCPConn (store s ! r) of
                      Some c \<Rightarrow> s\<lparr>trace := trace s @ [ConnClosed c]\<rparr>
                    | None \<Rightarrow> s)
           in if sOnClientLeave s then s\<lparr>trace := trace s @ [LeaveCalled clientID]\<rparr> else s))"

definition GetClient :: "string \<Rightarrow> session \<Rightarrow> ref option" where
  "GetClient clientID s = gm_get (sClients s) clientID"

definition ClientCount :: "session \<Rightarrow> nat" where
  "ClientCount s = gm_len (sClients s)"

text \<open>The loops over the map, in the order \<open>ks\<close> of the keys.\<close>

definition visit :: "string list \<Rightarrow> session \<Rightarrow> ref list" where
  "visit ks s = map (\<lambda>k. the (gm_get (sClients s) k)) ks"

definition ClientList :: "string list \<Rightarrow> session \<Rightarrow> client_info list" where
  "ClientList ks s = map (\<lambda>r. Info (store s ! r)) (visit ks s)"

definition ForEachClient :: "(ref \<Rightarrow> 'a \<Rightarrow> 'a) \<Rightarrow> string list \<Rightarrow> session \<Rightarrow> 'a \<Rightarrow> 'a" where
  "ForEachClient fn ks s = fold fn (visit ks s)"

definition stale_ids :: "go_time \<Rightarrow> string list \<Rightarrow> session \<Rightarrow> string list" where
  "stale_ids now ks s = filter (\<lambda>k. IsStale now (store s ! the (gm_get (sClients s) k))) ks"

definition EvictStaleClients :: "go_time \<Rightarrow> string list \<Rightarrow> session \<Rightarrow> string list \<times> session" where
  "EvictStaleClients now ks s =
     (let stale = stale_ids now ks s in (stale, fold RemoveClient stale s))"

section \<open>The manager\<close>

record manager =
  mSession :: "session option"
  mStopped :: bool

definition NewManager :: manager where
  "NewManager = \<lparr>mSession = None, mStopped = False\<rparr>"

definition CreateSession ::
  "byte list option \<Rightarrow> byte list option \<Rightarrow> go_time \<Rightarrow> manager \<Rightarrow> (sess_error + unit) \<times> manager" where
  "CreateSession rd1 rd2 now m =
     (case NewSession rd1 rd2 now of
        Inl e \<Rightarrow> (Inl e, m)
      | Inr s \<Rightarrow> (Inr (), m\<lparr>mSession := Some s\<rparr>))"

definition GetSession :: "manager \<Rightarrow> session option" where
  "GetSession m = mSession m"

text \<open>One iteration of the monitor's loop, and what closing the channel twice does.\<close>

definition monitor_tick :: "go_time \<Rightarrow> string list \<Rightarrow> manager \<Rightarrow> string list \<times> manager" where
  "monitor_tick now ks m =
     (if mStopped m then ([], m)
      else case GetSession m of
             None \<Rightarrow> ([], m)
           | Some s \<Rightarrow> (let (evicted, s) = EvictStaleClients now ks s in (evicted, m\<lparr>mSession := Some s\<rparr>)))"

definition mgr_Stop :: "manager \<Rightarrow> manager option" where
  "mgr_Stop m = (if mStopped m then None else Some (m\<lparr>mStopped := True\<rparr>))"

section \<open>The invariant\<close>

text \<open>
  Every reference is allocated, the object registered under an identifier carries it, and no two
  identifiers share an object.
\<close>

definition sess_inv :: "session \<Rightarrow> bool" where
  "sess_inv s \<longleftrightarrow>
     gm_wf (sClients s) \<and>
     (\<forall>k r. gm_get (sClients s) k = Some r \<longrightarrow> r < length (store s) \<and> cID (store s ! r) = k)"

definition sess_ids :: "session \<Rightarrow> string set" where
  "sess_ids s = set (gm_keys (sClients s))"

definition sess_add :: "string \<Rightarrow> client \<Rightarrow> session \<Rightarrow> session" where
  "sess_add k c s = register k (c\<lparr>cID := k\<rparr>) s"

lemma gm_del_absent: "gm_get m k = None \<Longrightarrow> gm_del k m = m"
  by (simp add: gm_get_def gm_del_def delete_idem map_of_eq_None_iff)

lemma RemoveClient_clients [simp, map_simps]: "sClients (RemoveClient k s) = gm_del k (sClients s)"
  by (simp add: RemoveClient_def Let_def gm_del_absent split: option.split)

lemma RemoveClient_frame [simp, frame_simps]:
  "store (RemoveClient k s) = store s" "sToken (RemoveClient k s) = sToken s"
  "sID (RemoveClient k s) = sID s" "sOnClientLeave (RemoveClient k s) = sOnClientLeave s"
  "sOnClientJoin (RemoveClient k s) = sOnClientJoin s"
  by (simp_all add: RemoveClient_def Let_def split: option.split)

lemma upd_client_frame [simp, frame_simps]:
  "sClients (upd_client r f s) = sClients s" "sToken (upd_client r f s) = sToken s"
  "trace (upd_client r f s) = trace s" "length (store (upd_client r f s)) = length (store s)"
  by (simp_all add: upd_client_def)

lemma store_upd_client:
  "i < length (store s) \<Longrightarrow> store (upd_client r f s) ! i = (if i = r then f (store s ! i) else store s ! i)"
  by (auto simp: upd_client_def)

lemma register_clients [simp, map_simps]:
  "sClients (register k c s) = gm_put k (length (store s)) (sClients s)"
  "store (register k c s) = store s @ [c]"
  by (simp_all add: register_def Let_def)

lemma sess_inv_register [inv_intros]: "sess_inv s \<Longrightarrow> cID c = k \<Longrightarrow> sess_inv (register k c s)"
  by (auto simp: sess_inv_def gm_get_put nth_append less_Suc_eq)

lemma sess_inv_RemoveClient [inv_intros]: "sess_inv s \<Longrightarrow> sess_inv (RemoveClient k s)"
  by (auto simp: sess_inv_def gm_get_del)

lemma sess_inv_upd [inv_intros]:
  "sess_inv s \<Longrightarrow> (\<And>c. cID (f c) = cID c) \<Longrightarrow> sess_inv (upd_client r f s)"
  by (auto simp: sess_inv_def store_upd_client)

lemma sess_inv_gm_wf: "sess_inv s \<Longrightarrow> gm_wf (sClients s)"
  by (simp add: sess_inv_def)

interpretation sr: registry sess_ids sess_add RemoveClient sess_inv
  by unfold_locales (auto simp: sess_ids_def sess_add_def intro: sess_inv_register sess_inv_RemoveClient)

section \<open>Lemmas on eviction\<close>

lemma fold_RemoveClient [simp]:
  "sClients (fold RemoveClient ks s) = fold gm_del ks (sClients s)"
  "store (fold RemoveClient ks s) = store s"
  by (induction ks arbitrary: s) simp_all

lemma gm_get_fold_del:
  "gm_get (fold gm_del ks m) k = (if k \<in> set ks then None else gm_get m k)"
  by (induction ks arbitrary: m) (auto simp: gm_get_del)

lemma sess_inv_fold_RemoveClient [inv_intros]: "sess_inv s \<Longrightarrow> sess_inv (fold RemoveClient ks s)"
  by (induction ks arbitrary: s) (simp_all add: sess_inv_RemoveClient)

lemma stale_ids_set:
  "range_order (sClients s) ks \<Longrightarrow>
   k \<in> set (stale_ids now ks s) \<longleftrightarrow>
     (\<exists>r. gm_get (sClients s) k = Some r \<and> IsStale now (store s ! r))"
  by (auto simp: stale_ids_def range_order_set)

lemma evict_clients:
  "range_order (sClients s) ks \<Longrightarrow>
   gm_get (sClients (snd (EvictStaleClients now ks s))) k =
     (case gm_get (sClients s) k of
        None \<Rightarrow> None
      | Some r \<Rightarrow> (if IsStale now (store s ! r) then None else Some r))"
  by (auto simp: EvictStaleClients_def Let_def gm_get_fold_del stale_ids_set split: option.split)

lemma sess_ids_iff: "k \<in> sess_ids s \<longleftrightarrow> (\<exists>r. gm_get (sClients s) k = Some r)"
  by (simp add: sess_ids_def gm_dom [symmetric] dom_def)

text \<open>The trace of closing the connections of a list of registered clients.\<close>

lemma fold_RemoveClient_trace:
  assumes "distinct ks" and "\<forall>k \<in> set ks. \<exists>r. gm_get (sClients s) k = Some r \<and> cTCPConn (store s ! r) = Some (cn k)"
    and "\<not> sOnClientLeave s"
  shows "trace (fold RemoveClient ks s) = trace s @ map (\<lambda>k. ConnClosed (cn k)) ks"
  using assms
proof (induction ks arbitrary: s)
  case (Cons k ks)
  then obtain r where r: "gm_get (sClients s) k = Some r" "cTCPConn (store s ! r) = Some (cn k)" by auto
  have "trace (RemoveClient k s) = trace s @ [ConnClosed (cn k)]"
    using r Cons.prems(3) by (simp add: RemoveClient_def Let_def)
  moreover have "trace (fold RemoveClient ks (RemoveClient k s)) =
      trace (RemoveClient k s) @ map (\<lambda>k. ConnClosed (cn k)) ks"
    using Cons.prems by (intro Cons.IH) (auto simp: gm_get_del)
  ultimately show ?case by simp
qed simp

section \<open>Properties\<close>

lemma charset_facts:
  "length charset = 32" "distinct charset" "set charset \<inter> set ''IO01'' = {}"
  by (simp_all add: charset_def)

text \<open>Reducing modulo a divisor of the range hits every residue equally often.\<close>

lemma filter_mod_block: "i < c \<Longrightarrow> filter (\<lambda>n. n mod c = i) [c * m..<c * m + c] = [c * m + i]"
proof -
  assume i: "i < c"
  have "[c * m..<c * m + c] = map (\<lambda>j. j + c * m) [0..<c]"
    using map_add_upt [of "c * m" c] by (simp add: add.commute)
  moreover have "filter (\<lambda>j. j mod c = i) [0..<c] = filter (\<lambda>j. j = i) [0..<c]"
    by (rule filter_cong) simp_all
  moreover have "[0..<c] = [0..<i] @ i # [Suc i..<c]"
    using i upt_add_eq_append [of 0 i "c - i"] upt_conv_Cons [of i c] by simp
  then have "filter (\<lambda>j. j = i) [0..<c] = [i]" by (simp add: filter_empty_conv)
  ultimately show ?thesis by (simp add: filter_map comp_def)
qed

lemma count_mod: "i < c \<Longrightarrow> length [n \<leftarrow> [0..<c * m]. n mod c = i] = m"
proof (induction m)
  case (Suc m)
  have "[0..<c * Suc m] = [0..<c * m] @ [c * m..<c * m + c]"
    using upt_add_eq_append [of 0 "c * m" c] by (simp add: add.commute)
  then show ?case using Suc filter_mod_block [of i c m] by simp
qed simp

lemma charset_fair: "c \<in> set charset \<Longrightarrow> length [n \<leftarrow> [0..<256]. charset ! (n mod 32) = c] = 8"
proof -
  assume "c \<in> set charset"
  then obtain i where i: "i < 32" "c = charset ! i" using charset_facts(1) by (auto simp: in_set_conv_nth)
  have "charset ! (n mod 32) = c \<longleftrightarrow> n mod 32 = i" for n
    using i charset_facts(1,2) by (simp add: nth_eq_iff_index_eq)
  then show ?thesis using count_mod [OF i(1), of 8] by simp
qed

lemma generateSessionID_byte:
  "n < 256 \<Longrightarrow> generateSessionID (Some [of_nat n]) = Some [charset ! (n mod 32)]"
  by (simp add: generateSessionID_def charset_facts(1) unat_of_nat take_bit_nat_eq_self)

text \<open>
  A session code has as many characters as random bytes were drawn, all from the 32 characters of
  the table, which has no \<^verbatim>\<open>I\<close>, \<^verbatim>\<open>O\<close>, \<^verbatim>\<open>0\<close> or \<^verbatim>\<open>1\<close>; and reducing a byte modulo the table size is fair:
  each character comes from exactly eight of the 256 byte values.
\<close>

theorem session_id_fair:
  "(case generateSessionID rd of
      None \<Rightarrow> rd = None
    | Some s \<Rightarrow> (\<exists>bs. rd = Some bs \<and> length s = length bs) \<and> set s \<subseteq> set charset) \<and>
   distinct charset \<and> set charset \<inter> set ''IO01'' = {} \<and>
   list_all (\<lambda>c. length [n \<leftarrow> [0..<256]. generateSessionID (Some [of_nat n]) = Some [c]] = 8) charset"
proof -
  have "set (map (\<lambda>b. charset ! (unat b mod length charset)) bs) \<subseteq> set charset" for bs :: "byte list"
    using charset_facts(1) by (auto intro!: nth_mem)
  moreover have "[n \<leftarrow> [0..<256]. generateSessionID (Some [of_nat n]) = Some [c]] =
      [n \<leftarrow> [0..<256]. charset ! (n mod 32) = c]" for c
    by (rule filter_cong) (simp_all add: generateSessionID_byte del: upt_rec_numeral)
  ultimately show ?thesis
    using charset_facts(2-3) charset_fair
    by (auto simp: generateSessionID_def list_all_iff simp del: upt_rec_numeral split: option.split)
qed

text \<open>
  A new session has no client, and its token determines the 256 random bits it was made from: two
  sessions share a token only if they drew the same bytes. If either draw fails there is no session.
\<close>

theorem new_session_token:
  assumes "length bs1 = TokenLength" and "length bs2 = TokenLength"
  shows "\<exists>s1 s2. NewSession (Some cs1) (Some bs1) t1 = Inr s1 \<and> NewSession (Some cs2) (Some bs2) t2 = Inr s2 \<and>
    sess_inv s1 \<and> sess_ids s1 = {} \<and> length (sToken s1) = 64 \<and> set (sToken s1) \<subseteq> set ''0123456789abcdef'' \<and>
    (sToken s1 = sToken s2 \<longleftrightarrow> bs1 = bs2)"
  using assms hex_encode_inj [of bs1 bs2] hex_encode_set [of bs1]
  by (auto simp: NewSession_def generateSessionID_def generateToken_def TokenLength_def sess_inv_def
      sess_ids_def hextable_def)

theorem new_session_token_witness:
  "\<exists>s1 s2. NewSession (Some [1, 2]) (Some (replicate 32 7)) 0 = Inr s1 \<and>
    NewSession (Some [3]) (Some (replicate 32 8)) 5 = Inr s2 \<and>
    sess_inv s1 \<and> sess_ids s1 = {} \<and> length (sToken s1) = 64 \<and> set (sToken s1) \<subseteq> set ''0123456789abcdef'' \<and>
    (sToken s1 = sToken s2 \<longleftrightarrow> replicate 32 7 = (replicate 32 8 :: byte list))"
  by (rule new_session_token) (simp_all add: TokenLength_def)

text \<open>
  C39: a client is admitted iff its token is the session's and randomness is available. An admitted
  client is registered under its fresh object with the stereo mix, and everything else in the session
  is as before; a rejected one changes nothing.
\<close>

theorem add_client_verdict:
  assumes "sess_inv s"
  shows "case AddClient token name platform cn rd now s of (res, s') \<Rightarrow>
    sess_inv s' \<and>
    (case res of
       Inl e \<Rightarrow> s' = s \<and> e = (if token \<noteq> sToken s then ErrInvalidToken else ErrClientID) \<and>
         (token \<noteq> sToken s \<or> rd = None)
     | Inr r \<Rightarrow> token = sToken s \<and> r = length (store s) \<and>
         (\<exists>cid. generateClientID rd = Some cid \<and>
           gm_get (sClients s') = (gm_get (sClients s))(cid \<mapsto> r) \<and>
           store s' = store s @ [new_client cid name platform cn now] \<and>
           ClientCount s' = ClientCount s + (if cid \<in> sess_ids s then 0 else 1)))"
proof -
  have count: "gm_len (gm_put k v m) = gm_len m + (if k \<in> set (gm_keys m) then 0 else 1)" if "gm_wf m"
    for k v and m :: "(string, ref) gomap"
    using that gm.len_put_new [OF that, of k v] gm.len_put_old [OF that, of k _ v] gm_get_None_iff [of m k]
    by (cases "gm_get m k") auto
  have inv: "sess_inv (s\<lparr>trace := t\<rparr>) = sess_inv s" for s t by (simp add: sess_inv_def)
  show ?thesis
    using assms sess_inv_gm_wf [OF assms]
    by (auto simp: AddClient_def Let_def generateClientID_def inv gm_get_put ClientCount_def count sess_ids_def
        new_client_def intro!: sess_inv_register split: option.split)
qed

text \<open>A session with one client.\<close>

definition sess1 :: session where
  "sess1 =
     \<lparr>sID = ''ABCDEF'', sToken = ''t'', sCreatedAt = 0, sClients = [(''a'', 0)],
      sOnClientJoin = False, sOnClientLeave = False,
      store = [new_client ''a'' ''phone'' ''ios'' 4 0], trace = []\<rparr>"

lemma sess1_inv: "sess_inv sess1"
  by (auto simp: sess_inv_def sess1_def gm_wf_def gm_get_def new_client_def split: if_splits)

lemma sess1_order: "range_order (sClients sess1) [''a'']"
  by (simp add: range_order_def sess1_def gm_keys_def)

theorem add_client_verdict_witness:
  "case AddClient ''t'' ''tv'' ''test'' 5 (Some [1]) 9 sess1 of (res, s') \<Rightarrow>
    sess_inv s' \<and>
    (case res of
       Inl e \<Rightarrow> s' = sess1 \<and> e = (if ''t'' \<noteq> sToken sess1 then ErrInvalidToken else ErrClientID) \<and>
         (''t'' \<noteq> sToken sess1 \<or> Some [1] = (None :: byte list option))
     | Inr r \<Rightarrow> ''t'' = sToken sess1 \<and> r = length (store sess1) \<and>
         (\<exists>cid. generateClientID (Some [1]) = Some cid \<and>
           gm_get (sClients s') = (gm_get (sClients sess1))(cid \<mapsto> r) \<and>
           store s' = store sess1 @ [new_client cid ''tv'' ''test'' 5 9] \<and>
           ClientCount s' = ClientCount sess1 + (if cid \<in> sess_ids sess1 then 0 else 1)))"
  by (rule add_client_verdict [OF sess1_inv])

text \<open>
  C17: eviction removes exactly the clients whose last heartbeat is more than ten seconds old, closes
  exactly their connections, returns exactly their identifiers, and does so whatever the order in
  which the map is visited.
\<close>

theorem evict_exactly_stale:
  assumes "sess_inv s" and "range_order (sClients s) ks"
    and "\<forall>k r. gm_get (sClients s) k = Some r \<longrightarrow> cTCPConn (store s ! r) = Some (cn k)"
    and "\<not> sOnClientLeave s"
  shows "case EvictStaleClients now ks s of (evicted, s') \<Rightarrow>
    set evicted = {k. \<exists>r. gm_get (sClients s) k = Some r \<and> now - cLastHeartbeat (store s ! r) > HeartbeatTimeout} \<and>
    distinct evicted \<and> sess_ids s' = sess_ids s - set evicted \<and>
    (\<forall>k \<in> sess_ids s'. gm_get (sClients s') k = gm_get (sClients s) k) \<and> store s' = store s \<and>
    trace s' = trace s @ map (\<lambda>k. ConnClosed (cn k)) evicted \<and> sess_inv s'"
proof -
  let ?ev = "stale_ids now ks s"
  have set_ev: "set ?ev = {k. \<exists>r. gm_get (sClients s) k = Some r \<and> now - cLastHeartbeat (store s ! r) > HeartbeatTimeout}"
    using stale_ids_set [OF assms(2)] by (auto simp: IsStale_def)
  have dist: "distinct ?ev" using assms(2) by (simp add: stale_ids_def range_order_def)
  have "trace (fold RemoveClient ?ev s) = trace s @ map (\<lambda>k. ConnClosed (cn k)) ?ev"
    using assms(3,4) set_ev dist by (intro fold_RemoveClient_trace) auto
  moreover have "sess_ids (fold RemoveClient ?ev s) = sess_ids s - set ?ev"
    by (auto simp: sess_ids_iff gm_get_fold_del split: if_splits)
  ultimately show ?thesis
    using set_ev dist assms(1)
    by (auto simp: EvictStaleClients_def Let_def gm_get_fold_del sess_ids_iff intro: sess_inv_fold_RemoveClient
        split: if_splits)
qed

theorem evict_exactly_stale_witness:
  "case EvictStaleClients (11 * 10 ^ 9) [''a''] sess1 of (evicted, s') \<Rightarrow>
    set evicted = {k. \<exists>r. gm_get (sClients sess1) k = Some r \<and>
      11 * 10 ^ 9 - cLastHeartbeat (store sess1 ! r) > HeartbeatTimeout} \<and>
    distinct evicted \<and> sess_ids s' = sess_ids sess1 - set evicted \<and>
    (\<forall>k \<in> sess_ids s'. gm_get (sClients s') k = gm_get (sClients sess1) k) \<and> store s' = store sess1 \<and>
    trace s' = trace sess1 @ map (\<lambda>k. ConnClosed ((\<lambda>_. 4) k)) evicted \<and> sess_inv s'"
  by (rule evict_exactly_stale [OF sess1_inv sess1_order])
    (auto simp: sess1_def gm_get_def new_client_def split: if_splits)

text \<open>
  C18: the monitor's five-second ticks evict a client whose heartbeats stop between ten and fifteen
  seconds after the last one: at no tick in the first ten seconds, and at some tick in the next five,
  whatever else happens to the session between the ticks.
\<close>

theorem eviction_deadline:
  assumes "\<forall>i. range_order (sClients (S i)) (ks i)"
    and "\<forall>i. \<tau> i = \<tau> 0 + int i * (HeartbeatTimeout div 2)" and "\<tau> 0 \<le> h"
    and "\<forall>i r. gm_get (sClients (S i)) k = Some r \<longrightarrow> cLastHeartbeat (store (S i) ! r) = h"
  shows "(\<forall>i. \<tau> i \<le> h + HeartbeatTimeout \<longrightarrow> k \<in> sess_ids (S i) \<longrightarrow>
      k \<in> sess_ids (snd (EvictStaleClients (\<tau> i) (ks i) (S i)))) \<and>
    (\<exists>i. h + HeartbeatTimeout < \<tau> i \<and> \<tau> i \<le> h + HeartbeatTimeout + HeartbeatTimeout div 2 \<and>
      k \<notin> sess_ids (snd (EvictStaleClients (\<tau> i) (ks i) (S i))))"
proof
  note get = evict_clients [OF assms(1) [rule_format]]
  show "\<forall>i. \<tau> i \<le> h + HeartbeatTimeout \<longrightarrow> k \<in> sess_ids (S i) \<longrightarrow>
      k \<in> sess_ids (snd (EvictStaleClients (\<tau> i) (ks i) (S i)))"
    using assms(4) by (auto simp: sess_ids_iff get IsStale_def)
  define d where "d = HeartbeatTimeout div 2"
  have d: "0 < d" "HeartbeatTimeout = 2 * d" by (simp_all add: d_def HeartbeatTimeout_def)
  define i where "i = nat ((h - \<tau> 0) div d + 3)"
  have "0 \<le> (h - \<tau> 0) div d" using assms(3) d(1) by (simp add: pos_imp_zdiv_nonneg_iff)
  then have "int i = (h - \<tau> 0) div d + 3" by (simp add: i_def)
  then have "\<tau> i = \<tau> 0 + ((h - \<tau> 0) div d) * d + 3 * d"
    using spec [OF assms(2), of i] by (simp add: d_def [symmetric] distrib_right)
  moreover have "h - \<tau> 0 = ((h - \<tau> 0) div d) * d + (h - \<tau> 0) mod d" by simp
  moreover have "0 \<le> (h - \<tau> 0) mod d" "(h - \<tau> 0) mod d < d" using d(1) by simp_all
  ultimately have i: "h + 2 * d < \<tau> i" "\<tau> i \<le> h + 3 * d" by linarith+
  have "k \<notin> sess_ids (snd (EvictStaleClients (\<tau> i) (ks i) (S i)))"
    using assms(4) i(1) d(2) by (auto simp: sess_ids_iff get IsStale_def split: option.splits if_splits)
  then show "\<exists>i. h + HeartbeatTimeout < \<tau> i \<and> \<tau> i \<le> h + HeartbeatTimeout + HeartbeatTimeout div 2 \<and>
      k \<notin> sess_ids (snd (EvictStaleClients (\<tau> i) (ks i) (S i)))"
    using i d(2) by (intro exI [of _ i]) (simp add: d_def [symmetric])
qed

theorem eviction_deadline_witness:
  "\<exists>i. 0 + HeartbeatTimeout < int i * (HeartbeatTimeout div 2) \<and>
      int i * (HeartbeatTimeout div 2) \<le> 0 + HeartbeatTimeout + HeartbeatTimeout div 2 \<and>
      ''a'' \<notin> sess_ids (snd (EvictStaleClients (int i * (HeartbeatTimeout div 2)) [''a''] sess1))"
proof -
  have "(\<forall>i. int i * (HeartbeatTimeout div 2) \<le> 0 + HeartbeatTimeout \<longrightarrow> ''a'' \<in> sess_ids sess1 \<longrightarrow>
      ''a'' \<in> sess_ids (snd (EvictStaleClients (int i * (HeartbeatTimeout div 2)) [''a''] sess1))) \<and>
    (\<exists>i. 0 + HeartbeatTimeout < int i * (HeartbeatTimeout div 2) \<and>
      int i * (HeartbeatTimeout div 2) \<le> 0 + HeartbeatTimeout + HeartbeatTimeout div 2 \<and>
      ''a'' \<notin> sess_ids (snd (EvictStaleClients (int i * (HeartbeatTimeout div 2)) [''a''] sess1)))"
    by (rule eviction_deadline [where S = "\<lambda>_. sess1" and ks = "\<lambda>_. [''a'']"])
      (use sess1_order in \<open>simp_all add: sess1_def gm_get_def new_client_def\<close>)
  then show ?thesis by blast
qed

text \<open>
  The list sent to clients and to the user interface has one entry for every registered client and
  no other, with that client's current data, whatever the order of the map.
\<close>

theorem client_list_complete:
  assumes "sess_inv s" and "range_order (sClients s) ks"
  shows "length (ClientList ks s) = ClientCount s \<and> distinct (map ciID (ClientList ks s)) \<and>
    set (map ciID (ClientList ks s)) = sess_ids s \<and>
    (\<forall>r. (\<exists>k. GetClient k s = Some r) \<longrightarrow> Info (store s ! r) \<in> set (ClientList ks s))"
proof -
  have get: "\<exists>r. gm_get (sClients s) k = Some r \<and> cID (store s ! r) = k" if "k \<in> set ks" for k
    using that range_order_set [OF assms(2), of k] assms(1) by (auto simp: sess_inv_def)
  have ids: "map ciID (ClientList ks s) = ks"
  proof (rule nth_equalityI)
    fix i assume "i < length (map ciID (ClientList ks s))"
    then have "i < length ks" by (simp add: ClientList_def visit_def)
    then show "map ciID (ClientList ks s) ! i = ks ! i"
      using get [of "ks ! i"] by (auto simp: ClientList_def visit_def Info_def)
  qed (simp add: ClientList_def visit_def)
  have mem: "Info (store s ! r) \<in> set (ClientList ks s)" if "GetClient k s = Some r" for k r
  proof -
    have "gm_get (sClients s) k = Some r" using that by (simp add: GetClient_def)
    then have "k \<in> set ks" "the (gm_get (sClients s) k) = r"
      using range_order_set [OF assms(2), of k] by simp_all
    then show ?thesis by (auto simp: ClientList_def visit_def)
  qed
  have "length ks = ClientCount s"
    using range_order_length [OF sess_inv_gm_wf [OF assms(1)] assms(2)] by (simp add: ClientCount_def)
  moreover have "length (ClientList ks s) = length ks" by (simp add: ClientList_def visit_def)
  moreover have "set ks = sess_ids s" "distinct ks" using assms(2) by (simp_all add: range_order_def sess_ids_def)
  ultimately show ?thesis using ids mem by (simp only:) blast
qed

theorem client_list_complete_witness:
  "length (ClientList [''a''] sess1) = ClientCount sess1 \<and> distinct (map ciID (ClientList [''a''] sess1)) \<and>
    set (map ciID (ClientList [''a''] sess1)) = sess_ids sess1"
  using client_list_complete [OF sess1_inv sess1_order] by blast

text \<open>
  The goroutine that serves a connection keeps its pointer after the client was evicted; whatever
  it then does to the object (a late heartbeat, jitter, state change) changes neither who is
  registered nor the data of any registered client: an evicted client does not come back.
\<close>

theorem update_after_removal:
  assumes "sess_inv s" and "GetClient k s = Some r"
  shows "sess_ids (upd_client r f (RemoveClient k s)) = sess_ids s - {k} \<and>
    (\<forall>j r'. GetClient j (RemoveClient k s) = Some r' \<longrightarrow>
      store (upd_client r f (RemoveClient k s)) ! r' = store s ! r') \<and>
    (\<forall>ks. range_order (sClients (RemoveClient k s)) ks \<longrightarrow>
      ClientList ks (upd_client r f (RemoveClient k s)) = ClientList ks (RemoveClient k s))"
proof -
  let ?s = "RemoveClient k s"
  have k: "cID (store s ! r) = k" using assms by (simp add: sess_inv_def GetClient_def)
  have other: "store (upd_client r f ?s) ! r' = store s ! r'" if "gm_get (sClients ?s) j = Some r'" for j r'
  proof -
    have "j \<noteq> k" "r' < length (store s)" "cID (store s ! r') = j"
      using that assms(1) by (auto simp: gm_get_del sess_inv_def split: if_splits)
    then show ?thesis using k by (auto simp: store_upd_client)
  qed
  have "ClientList ks (upd_client r f ?s) = ClientList ks ?s" if "range_order (sClients ?s) ks" for ks
    using other range_order_set [OF that] by (auto simp: ClientList_def visit_def) 
  then show ?thesis
    using other by (auto simp: GetClient_def sess_ids_def)
qed

theorem update_after_removal_witness:
  "let f = cLastHeartbeat_update (\<lambda>_. 99)
   in sess_ids (upd_client 0 f (RemoveClient ''a'' sess1)) = sess_ids sess1 - {''a''} \<and>
    (\<forall>j r'. GetClient j (RemoveClient ''a'' sess1) = Some r' \<longrightarrow>
      store (upd_client 0 f (RemoveClient ''a'' sess1)) ! r' = store sess1 ! r') \<and>
    (\<forall>ks. range_order (sClients (RemoveClient ''a'' sess1)) ks \<longrightarrow>
      ClientList ks (upd_client 0 f (RemoveClient ''a'' sess1)) = ClientList ks (RemoveClient ''a'' sess1))"
  unfolding Let_def
  by (rule update_after_removal [OF sess1_inv]) (simp add: GetClient_def sess1_def gm_get_def)

end
