(* ===== verification/Queue.thy ===== *)
theory Queue
  imports Prelude "HOL-Library.Sublist"
begin

text \<open>
  The contract of a bounded queue between a producer that never waits and a consumer: a put on a full
  queue drops the new element, and what is taken comes out in the order it was put.
\<close>

text \<open>A run: \<open>Some\<close> puts an element, \<open>None\<close> takes one if there is one.\<close>

fun q_run ::
  "('c \<Rightarrow> 'x \<Rightarrow> 's \<Rightarrow> 's option) \<Rightarrow> ('s \<Rightarrow> ('x \<times> 's) option) \<Rightarrow> ('c \<times> 'x) option list \<Rightarrow> 's \<Rightarrow>
   ('x list \<times> 's) option" where
  "q_run put get [] s = Some ([], s)"
| "q_run put get (Some (c, x) # ops) s =
     (case put c x s of None \<Rightarrow> None | Some s \<Rightarrow> q_run put get ops s)"
| "q_run put get (None # ops) s =
     (case get s of
        None \<Rightarrow> q_run put get ops s
      | Some (x, s) \<Rightarrow> map_option (\<lambda>(xs, s). (x # xs, s)) (q_run put get ops s))"

definition puts :: "('c \<times> 'x) option list \<Rightarrow> 'x list" where
  "puts ops = map snd (List.map_filter id ops)"

lemma puts_simps [simp]:
  "puts [] = []" "puts (None # ops) = puts ops" "puts (Some cx # ops) = snd cx # puts ops"
  by (simp_all add: puts_def map_filter_simps)

locale bounded_fifo =
  fixes content :: "'s \<Rightarrow> 'x list"
    and put :: "'c \<Rightarrow> 'x \<Rightarrow> 's \<Rightarrow> 's option"
    and get :: "'s \<Rightarrow> ('x \<times> 's) option"
    and ok :: "'x \<Rightarrow> bool"
    and capacity :: nat
    and inv :: "'s \<Rightarrow> bool"
  assumes put_ok: "inv s \<Longrightarrow> ok x \<Longrightarrow> \<exists>s'. put c x s = Some s' \<and> inv s' \<and>
      content s' = (if length (content s) < capacity then content s @ [x] else content s)"
    and put_bad: "inv s \<Longrightarrow> \<not> ok x \<Longrightarrow> put c x s = None"
    and get_none: "inv s \<Longrightarrow> get s = None \<longleftrightarrow> content s = []"
    and get_some: "inv s \<Longrightarrow> get s = Some (x, s') \<Longrightarrow> content s = x # content s' \<and> inv s'"
    and bound: "inv s \<Longrightarrow> length (content s) \<le> capacity"
begin

text \<open>
  Whatever the interleaving, the elements taken followed by those still queued are the initial content
  and then a subsequence of the elements put: nothing is reordered, duplicated or made up.
\<close>

lemma run_fifo:
  assumes "inv s" and "\<forall>x \<in> set (puts ops). ok x"
  shows "\<exists>out s'. q_run put get ops s = Some (out, s') \<and> inv s' \<and>
    (\<exists>kept. out @ content s' = content s @ kept \<and> subseq kept (puts ops))"
  using assms
proof (induction ops arbitrary: s)
  case (Cons op ops)
  show ?case
  proof (cases op)
    case (Some cx)
    obtain c x where cx: "cx = (c, x)" by force
    obtain s1 where s1: "put c x s = Some s1" "inv s1"
      "content s1 = (if length (content s) < capacity then content s @ [x] else content s)"
      using put_ok [of s x c] Cons.prems Some cx by auto
    obtain out s' kept where "q_run put get ops s1 = Some (out, s')" "inv s'"
      "out @ content s' = content s1 @ kept" "subseq kept (puts ops)"
      using Cons.IH [OF s1(2)] Cons.prems Some by auto
    then show ?thesis using s1 Some cx
      by (intro exI [of _ out] exI [of _ s'] conjI
          exI [of _ "if length (content s) < capacity then x # kept else kept"]) auto
  next
    case None
    show ?thesis
    proof (cases "get s")
      case g: (Some xs)
      obtain x s1 where xs: "xs = (x, s1)" by force
      have 1: "content s = x # content s1" "inv s1" using get_some [of s x s1] g xs Cons.prems by auto
      obtain out s' kept where "q_run put get ops s1 = Some (out, s')" "inv s'"
        "out @ content s' = content s1 @ kept" "subseq kept (puts ops)"
        using Cons.IH [OF 1(2)] Cons.prems None by auto
      then show ?thesis using 1 g xs None by auto
    qed (use Cons None in auto)
  qed
qed simp

text \<open>While the queue has room for everything, nothing is lost.\<close>

lemma run_lossless:
  assumes "inv s" and "\<forall>x \<in> set (puts ops). ok x"
    and "length (content s) + length (puts ops) \<le> capacity"
  shows "\<exists>out s'. q_run put get ops s = Some (out, s') \<and> inv s' \<and> out @ content s' = content s @ puts ops"
  using assms
proof (induction ops arbitrary: s)
  case (Cons op ops)
  show ?case
  proof (cases op)
    case (Some cx)
    obtain c x where cx: "cx = (c, x)" by force
    obtain s1 where s1: "put c x s = Some s1" "inv s1" "content s1 = content s @ [x]"
      using put_ok [of s x c] Cons.prems Some cx by auto
    then show ?thesis using Cons.IH [OF s1(2)] Cons.prems Some cx by auto
  next
    case None
    show ?thesis
    proof (cases "get s")
      case g: (Some xs)
      obtain x s1 where xs: "xs = (x, s1)" by force
      have 1: "content s = x # content s1" "inv s1" using get_some [of s x s1] g xs Cons.prems by auto
      then obtain out s' where "q_run put get ops s1 = Some (out, s')" "inv s'" "out @ content s' = content s1 @ puts ops"
        using Cons.IH [OF 1(2)] Cons.prems None by auto
      then show ?thesis using 1 g xs None by auto
    qed (use Cons None in auto)
  qed
qed simp

end

end
