(* ===== verification/Stream.thy ===== *)
theory Stream
  imports Protocol GoMap Queue
begin

text \<open>
  \<^verbatim>\<open>internal/stream/manager.go\<close>: the audio frames waiting for the sender in buffers of a pool, their
  distribution to the clients as datagrams, the address updates by keep-alive packets, and the
  per-client state. The pool's choice of a buffer, the order of \<^verbatim>\<open>range\<close> and the outcome of every write
  are inputs; the datagrams written are an output. A slice beyond its capacity panics: \<open>None\<close>.
\<close>

section \<open>State\<close>

record udp_addr =
  IP :: "byte list"
  Port :: int

record client_stream =
  csID :: string
  csAddr :: udp_addr
  csSeqNum :: u32
  csChannelAssign :: byte
  csFrameSize :: int
  csActive :: bool

text \<open>A queued frame points to a buffer of the pool.\<close>

record broadcast_packet =
  bpRef :: nat
  bpLength :: nat
  bpChannel :: byte
  bpTimestamp :: i64
  bpCodec :: byte

record stream_mgr =
  smClients :: "(string, client_stream) gomap"
  smQueue :: "broadcast_packet list"
  smSending :: "broadcast_packet option"
  smBufs :: "byte list list"
  smPool :: "nat list"
  smPacketBuf :: "byte list"
  smRunning :: bool
  smStopped :: bool
  smLoopDone :: bool
  smPacketsSent :: i64
  smBytesSent :: i64

definition BroadcastCap :: nat where
  "BroadcastCap = 200"

definition sm_NewManager :: stream_mgr where
  "sm_NewManager =
     \<lparr>smClients = gm_empty, smQueue = [], smSending = None, smBufs = [], smPool = [],
      smPacketBuf = replicate MaxPacketSize 0, smRunning = False, smStopped = False,
      smLoopDone = False, smPacketsSent = 0, smBytesSent = 0\<rparr>"

section \<open>The clients\<close>

definition new_stream :: "string \<Rightarrow> udp_addr \<Rightarrow> byte \<Rightarrow> client_stream" where
  "new_stream clientID addr channel =
     \<lparr>csID = clientID, csAddr = addr, csSeqNum = 0, csChannelAssign = channel, csFrameSize = 10,
      csActive = True\<rparr>"

definition sm_AddClient :: "string \<Rightarrow> udp_addr \<times> byte \<Rightarrow> stream_mgr \<Rightarrow> stream_mgr" where
  "sm_AddClient clientID ac m =
     m\<lparr>smClients := gm_put clientID (new_stream clientID (fst ac) (snd ac)) (smClients m)\<rparr>"

definition sm_RemoveClient :: "string \<Rightarrow> stream_mgr \<Rightarrow> stream_mgr" where
  "sm_RemoveClient clientID m = m\<lparr>smClients := gm_del clientID (smClients m)\<rparr>"

definition sm_SetChannel :: "string \<Rightarrow> byte \<Rightarrow> stream_mgr \<Rightarrow> stream_mgr" where
  "sm_SetChannel clientID channel m =
     m\<lparr>smClients := gm_upd clientID (\<lambda>cs. cs\<lparr>csChannelAssign := channel\<rparr>) (smClients m)\<rparr>"

definition sm_SetFrameSize :: "string \<Rightarrow> int \<Rightarrow> stream_mgr \<Rightarrow> stream_mgr" where
  "sm_SetFrameSize clientID frameMs m =
     m\<lparr>smClients := gm_upd clientID (\<lambda>cs. cs\<lparr>csFrameSize := frameMs\<rparr>) (smClients m)\<rparr>"

definition sm_ClientCount :: "stream_mgr \<Rightarrow> nat" where
  "sm_ClientCount m = gm_len (smClients m)"

definition sm_Stats :: "stream_mgr \<Rightarrow> i64 \<times> i64" where
  "sm_Stats m = (smPacketsSent m, smBytesSent m)"

section \<open>The queue of frames\<close>

text \<open>\<^verbatim>\<open>payloadPool.Get\<close>: a buffer of the pool (\<open>choice\<close>) or a new one.\<close>

definition pool_get :: "nat option \<Rightarrow> stream_mgr \<Rightarrow> nat \<times> stream_mgr" where
  "pool_get choice m =
     (case choice of
        Some r \<Rightarrow>
          if r \<in> set (smPool m) then (r, m\<lparr>smPool := remove1 r (smPool m)\<rparr>)
          else (length (smBufs m), m\<lparr>smBufs := smBufs m @ [replicate MaxPayloadSize 0]\<rparr>)
      | None \<Rightarrow> (length (smBufs m), m\<lparr>smBufs := smBufs m @ [replicate MaxPayloadSize 0]\<rparr>))"

definition pool_put :: "nat \<Rightarrow> stream_mgr \<Rightarrow> stream_mgr" where
  "pool_put r m = m\<lparr>smPool := r # smPool m\<rparr>"

definition SendAudio ::
  "nat option \<Rightarrow> byte list \<Rightarrow> byte \<Rightarrow> i64 \<Rightarrow> byte \<Rightarrow> stream_mgr \<Rightarrow> stream_mgr option" where
  "SendAudio choice opusData channel captureTimestamp codecFlag m =
     (let (ptr, m) = pool_get choice m
      in if length (smBufs m ! ptr) < length opusData then None
         else
           let m = m\<lparr>smBufs := (smBufs m)[ptr := blit 0 opusData (smBufs m ! ptr)]\<rparr>
           in if length (smQueue m) < BroadcastCap
              then Some (m\<lparr>smQueue := smQueue m @
                [\<lparr>bpRef = ptr, bpLength = length opusData, bpChannel = channel,
                  bpTimestamp = captureTimestamp, bpCodec = codecFlag\<rparr>]\<rparr>)
              else Some (pool_put ptr m))"

section \<open>Distribution\<close>

text \<open>Whether a client gets a frame of the channel.\<close>

definition wants :: "byte \<Rightarrow> client_stream \<Rightarrow> bool" where
  "wants channel cs \<longleftrightarrow>
     csActive cs \<and>
     \<not> (channel \<noteq> ChannelStereoMix \<and> csChannelAssign cs \<noteq> ChannelStereoMix \<and> csChannelAssign cs \<noteq> channel)"

definition active_clients :: "string list \<Rightarrow> byte \<Rightarrow> stream_mgr \<Rightarrow> string list" where
  "active_clients ks channel m =
     filter (\<lambda>k. case gm_get (smClients m) k of None \<Rightarrow> False | Some cs \<Rightarrow> wants channel cs) ks"

type_synonym datagram = "udp_addr \<times> byte list"

text \<open>
  The loop over the selected clients. \<open>werr k\<close> tells that the write to client \<open>k\<close> fails. The sequence
  number advances whether or not the packet leaves.
\<close>

fun send_loop ::
  "(string \<Rightarrow> bool) \<Rightarrow> byte list \<Rightarrow> byte \<Rightarrow> i64 \<Rightarrow> byte \<Rightarrow> string list \<Rightarrow> stream_mgr \<Rightarrow>
   datagram list \<times> stream_mgr" where
  "send_loop werr opusData channel ts codec [] m = ([], m)"
| "send_loop werr opusData channel ts codec (k # ks) m =
     (case gm_get (smClients m) k of
        None \<Rightarrow> send_loop werr opusData channel ts codec ks m
      | Some cs \<Rightarrow>
          (let cs = cs\<lparr>csSeqNum := csSeqNum cs + 1\<rparr>;
               m = m\<lparr>smClients := gm_put k cs (smClients m)\<rparr>;
               pkt = \<lparr>Version = ProtocolVersion, PType = PacketTypeAudio, SeqNum = csSeqNum cs,
                  TimestampUs = ts, ChannelMask = channel, Codec = codec, Payload = opusData\<rparr>
           in case marshal_into pkt (smPacketBuf m) of
                Inl e \<Rightarrow> send_loop werr opusData channel ts codec ks m
              | Inr (n, buf) \<Rightarrow>
                  (let m = m\<lparr>smPacketBuf := buf\<rparr>
                   in if werr k then send_loop werr opusData channel ts codec ks m
                      else
                        let m = m\<lparr>smPacketsSent := smPacketsSent m + 1,
                                  smBytesSent := smBytesSent m + of_nat n\<rparr>;
                            (ds, m) = send_loop werr opusData channel ts codec ks m
                        in ((csAddr cs, take n buf) # ds, m))))"

definition doSendAudio ::
  "(string \<Rightarrow> bool) \<Rightarrow> string list \<Rightarrow> byte list \<Rightarrow> byte \<Rightarrow> i64 \<Rightarrow> byte \<Rightarrow> stream_mgr \<Rightarrow>
   datagram list \<times> stream_mgr" where
  "doSendAudio werr ks opusData channel ts codec m =
     send_loop werr opusData channel ts codec (active_clients ks channel m) m"

text \<open>
  One iteration of the sender: it takes a frame, sends it, and gives the buffer back. When the manager
  has been stopped and frames are left, \<^verbatim>\<open>select\<close> may pick either case (\<open>quit\<close>).
\<close>

definition loop_recv :: "bool \<Rightarrow> stream_mgr \<Rightarrow> stream_mgr option" where
  "loop_recv quit m =
     (if smLoopDone m \<or> smSending m \<noteq> None then None
      else if smStopped m \<and> (quit \<or> smQueue m = []) then Some (m\<lparr>smLoopDone := True\<rparr>)
      else case smQueue m of
             [] \<Rightarrow> None
           | p # ps \<Rightarrow> Some (m\<lparr>smQueue := ps, smSending := Some p\<rparr>))"

definition loop_send :: "(string \<Rightarrow> bool) \<Rightarrow> string list \<Rightarrow> stream_mgr \<Rightarrow> datagram list \<times> stream_mgr" where
  "loop_send werr ks m =
     (case smSending m of
        None \<Rightarrow> ([], m)
      | Some p \<Rightarrow>
          (let (ds, m) = doSendAudio werr ks (take (bpLength p) (smBufs m ! bpRef p)) (bpChannel p)
                 (bpTimestamp p) (bpCodec p) m;
               m = (if length (smBufs m ! bpRef p) = MaxPayloadSize then pool_put (bpRef p) m else m)
           in (ds, m\<lparr>smSending := None\<rparr>)))"

definition SendClockSyncProbe :: "string \<Rightarrow> i64 \<Rightarrow> stream_mgr \<Rightarrow> datagram list" where
  "SendClockSyncProbe clientID now m =
     (case gm_get (smClients m) clientID of
        None \<Rightarrow> []
      | Some cs \<Rightarrow>
          (case marshal \<lparr>Version = ProtocolVersion, PType = PacketTypeClockSyncProbe, SeqNum = 0,
                TimestampUs = now, ChannelMask = 0, Codec = 0, Payload = []\<rparr> of
             Inl _ \<Rightarrow> []
           | Inr data \<Rightarrow> [(csAddr cs, data)]))"

section \<open>The receiver\<close>

definition bytes_string :: "byte list \<Rightarrow> string" where
  "bytes_string bs = map (\<lambda>b. char_of (unat b)) bs"

text \<open>One datagram; the socket cuts it to the size of the buffer.\<close>

definition receive :: "byte list \<Rightarrow> udp_addr \<Rightarrow> stream_mgr \<Rightarrow> stream_mgr" where
  "receive datagram remoteAddr m =
     (if \<not> smRunning m then m
      else case unmarshal (take MaxPacketSize datagram) of
             Inl _ \<Rightarrow> m
           | Inr pkt \<Rightarrow>
               (if PType pkt = PacketTypeClockSyncReply then m
                else if PType pkt = PacketTypeKeepAlive
                then (let clientID = bytes_string (Payload pkt)
                      in case gm_get (smClients m) clientID of
                           None \<Rightarrow> m
                         | Some cs \<Rightarrow>
                             if csAddr cs \<noteq> remoteAddr
                             then m\<lparr>smClients := gm_put clientID (cs\<lparr>csAddr := remoteAddr\<rparr>) (smClients m)\<rparr>
                             else m)
                else m))"

definition StartReceiver :: "stream_mgr \<Rightarrow> stream_mgr" where
  "StartReceiver m = m\<lparr>smRunning := True\<rparr>"

text \<open>Closing the stop channel twice panics.\<close>

definition sm_Stop :: "stream_mgr \<Rightarrow> stream_mgr option" where
  "sm_Stop m = (if smStopped m then None else Some (m\<lparr>smRunning := False, smStopped := True\<rparr>))"

section \<open>Invariant\<close>

text \<open>No buffer is at two places: the pool, the queue, the sender.\<close>

definition held :: "stream_mgr \<Rightarrow> nat list" where
  "held m = smPool m @ map bpRef (smQueue m) @ (case smSending m of None \<Rightarrow> [] | Some p \<Rightarrow> [bpRef p])"

definition sm_inv :: "stream_mgr \<Rightarrow> bool" where
  "sm_inv m \<longleftrightarrow>
     gm_wf (smClients m) \<and> length (smPacketBuf m) = MaxPacketSize \<and>
     distinct (held m) \<and> set (held m) \<subseteq> {..<length (smBufs m)} \<and>
     (\<forall>b \<in> set (smBufs m). length b = MaxPayloadSize) \<and>
     (\<forall>p \<in> set (smQueue m). bpLength p \<le> MaxPayloadSize) \<and>
     (\<forall>p. smSending m = Some p \<longrightarrow> bpLength p \<le> MaxPayloadSize) \<and>
     length (smQueue m) \<le> BroadcastCap"

section \<open>Registry\<close>

definition sm_ids :: "stream_mgr \<Rightarrow> string set" where
  "sm_ids m = set (gm_keys (smClients m))"

lemma held_clients [simp]: "held (m\<lparr>smClients := c\<rparr>) = held m"
  by (simp add: held_def)

lemma sm_inv_clients [inv_intros]: "sm_inv m \<Longrightarrow> gm_wf c \<Longrightarrow> sm_inv (m\<lparr>smClients := c\<rparr>)"
  by (simp add: sm_inv_def)

lemma sm_inv_wf: "sm_inv m \<Longrightarrow> gm_wf (smClients m)"
  by (simp add: sm_inv_def)

lemma sm_inv_ops [inv_intros]:
  "sm_inv m \<Longrightarrow> sm_inv (sm_AddClient k ac m)" "sm_inv m \<Longrightarrow> sm_inv (sm_RemoveClient k m)"
  "sm_inv m \<Longrightarrow> sm_inv (sm_SetChannel k ch m)" "sm_inv m \<Longrightarrow> sm_inv (sm_SetFrameSize k fs m)"
  by (simp_all add: sm_AddClient_def sm_RemoveClient_def sm_SetChannel_def sm_SetFrameSize_def
      sm_inv_clients sm_inv_wf)

interpretation smr: registry sm_ids sm_AddClient sm_RemoveClient sm_inv
  by unfold_locales
    (auto simp: sm_ids_def sm_AddClient_def sm_RemoveClient_def sm_inv_clients sm_inv_wf)

section \<open>The sending loop\<close>

definition audio_packet :: "u32 \<Rightarrow> byte list \<Rightarrow> byte \<Rightarrow> i64 \<Rightarrow> byte \<Rightarrow> packet" where
  "audio_packet seq data channel ts codec =
     \<lparr>Version = ProtocolVersion, PType = PacketTypeAudio, SeqNum = seq, TimestampUs = ts,
      ChannelMask = channel, Codec = codec, Payload = data\<rparr>"

definition bytes_of :: "packet \<Rightarrow> byte list" where
  "bytes_of p = header p @ Payload p"

lemma marshal_into_audio:
  assumes "length data \<le> MaxPayloadSize" and "length buf = MaxPacketSize"
  shows "\<exists>buf'. marshal_into (audio_packet seq data channel ts codec) buf =
      Inr (HeaderSize + length data, buf') \<and> length buf' = MaxPacketSize \<and>
      take (HeaderSize + length data) buf' = bytes_of (audio_packet seq data channel ts codec)"
  using assms
  by (auto simp: marshal_into_def Let_def write_packet_layout size_defs audio_packet_def bytes_of_def)

lemma unmarshal_bytes_of:
  assumes "length data \<le> MaxPayloadSize"
  shows "unmarshal (bytes_of (audio_packet seq data channel ts codec)) = Inr (audio_packet seq data channel ts codec)"
  unfolding bytes_of_def
  by (rule udp.dec_enc_exact) (use assms in \<open>simp_all add: sendable_def audio_packet_def marshal_eq\<close>)

text \<open>The filter, read positively: only clients assigned one speaker are filtered.\<close>

lemma wants_iff:
  "wants channel cs \<longleftrightarrow> csActive cs \<and>
    (channel = ChannelStereoMix \<or> csChannelAssign cs = ChannelStereoMix \<or> csChannelAssign cs = channel)"
  by (auto simp: wants_def)

text \<open>The client entry after a frame was offered to it.\<close>

definition bump :: "client_stream \<Rightarrow> client_stream" where
  "bump cs = cs\<lparr>csSeqNum := csSeqNum cs + 1\<rparr>"

lemma send_loop_step:
  assumes "length data \<le> MaxPayloadSize" and "length (smPacketBuf m) = MaxPacketSize" and "gm_get (smClients m) k = Some cs"
  obtains b m2 where "length b = MaxPacketSize"
    "m2 = m\<lparr>smClients := gm_put k (bump cs) (smClients m), smPacketBuf := b,
       smPacketsSent := smPacketsSent m + (if werr k then 0 else 1),
       smBytesSent := smBytesSent m + (if werr k then 0 else of_nat (HeaderSize + length data))\<rparr>"
    "\<forall>ks. send_loop werr data channel ts codec (k # ks) m =
      (let (ds, m') = send_loop werr data channel ts codec ks m2
       in (if werr k then ds
           else (csAddr cs, bytes_of (audio_packet (csSeqNum cs + 1) data channel ts codec)) # ds, m'))"
proof -
  obtain b where b: "marshal_into (audio_packet (csSeqNum cs + 1) data channel ts codec) (smPacketBuf m) =
      Inr (HeaderSize + length data, b)" "length b = MaxPacketSize"
      "take (HeaderSize + length data) b = bytes_of (audio_packet (csSeqNum cs + 1) data channel ts codec)"
    using marshal_into_audio [OF assms(1,2)] by blast
  have pk: "\<lparr>Version = ProtocolVersion, PType = PacketTypeAudio, SeqNum = csSeqNum cs + 1,
      TimestampUs = ts, ChannelMask = channel, Codec = codec, Payload = data\<rparr> =
      audio_packet (csSeqNum cs + 1) data channel ts codec"
    by (simp add: audio_packet_def)
  show ?thesis
    by (rule that [OF b(2) refl]) (use assms(3) b in \<open>simp add: Let_def pk bump_def split: prod.split\<close>)
qed

lemma send_loop_effect:
  assumes "length data \<le> MaxPayloadSize" and "length (smPacketBuf m) = MaxPacketSize"
    and "distinct ks" and "\<forall>k \<in> set ks. gm_get (smClients m) k \<noteq> None"
  shows "\<exists>buf' clients'. send_loop werr data channel ts codec ks m =
    (map (\<lambda>k. let cs = the (gm_get (smClients m) k)
            in (csAddr cs, bytes_of (audio_packet (csSeqNum cs + 1) data channel ts codec)))
       [k \<leftarrow> ks. \<not> werr k],
     m\<lparr>smClients := clients', smPacketBuf := buf',
       smPacketsSent := smPacketsSent m + of_nat (length [k \<leftarrow> ks. \<not> werr k]),
       smBytesSent := smBytesSent m +
         of_nat (length [k \<leftarrow> ks. \<not> werr k] * (HeaderSize + length data))\<rparr>) \<and>
    length buf' = MaxPacketSize \<and>
    gm_get clients' = (\<lambda>k. if k \<in> set ks then map_option bump (gm_get (smClients m) k) else gm_get (smClients m) k) \<and>
    (gm_wf (smClients m) \<longrightarrow> gm_wf clients')"
  using assms
proof (induction ks arbitrary: m)
  case Nil
  then show ?case by (intro exI [of _ "smPacketBuf m"] exI [of _ "smClients m"]) simp
next
  case (Cons k ks)
  obtain cs where cs: "gm_get (smClients m) k = Some cs" using Cons.prems(4) by auto
  obtain b m2 where b: "length b = MaxPacketSize"
    and m2_def: "m2 = m\<lparr>smClients := gm_put k (bump cs) (smClients m), smPacketBuf := b,
       smPacketsSent := smPacketsSent m + (if werr k then 0 else 1),
       smBytesSent := smBytesSent m + (if werr k then 0 else of_nat (HeaderSize + length data))\<rparr>"
    and step: "\<forall>ks. send_loop werr data channel ts codec (k # ks) m =
      (let (ds, m') = send_loop werr data channel ts codec ks m2
       in (if werr k then ds
           else (csAddr cs, bytes_of (audio_packet (csSeqNum cs + 1) data channel ts codec)) # ds, m'))"
    using Cons.prems(1,2) cs
    by (rule send_loop_step [where werr = werr and channel = channel and ts = ts and codec = codec])
  have get2: "gm_get (smClients m2) = (gm_get (smClients m))(k \<mapsto> bump cs)"
    by (simp add: m2_def gm_get_put)
  have "\<forall>j \<in> set ks. gm_get (smClients m2) j \<noteq> None" "length (smPacketBuf m2) = MaxPacketSize"
    using Cons.prems(4) b by (auto simp: get2) (simp_all add: m2_def)
  then obtain buf' clients' where IH: "send_loop werr data channel ts codec ks m2 =
    (map (\<lambda>k. let cs = the (gm_get (smClients m2) k)
            in (csAddr cs, bytes_of (audio_packet (csSeqNum cs + 1) data channel ts codec)))
       [k \<leftarrow> ks. \<not> werr k],
     m2\<lparr>smClients := clients', smPacketBuf := buf',
       smPacketsSent := smPacketsSent m2 + of_nat (length [k \<leftarrow> ks. \<not> werr k]),
       smBytesSent := smBytesSent m2 + of_nat (length [k \<leftarrow> ks. \<not> werr k] * (HeaderSize + length data))\<rparr>)"
    "length buf' = MaxPacketSize"
    "gm_get clients' = (\<lambda>k. if k \<in> set ks then map_option bump (gm_get (smClients m2) k) else gm_get (smClients m2) k)"
    "gm_wf (smClients m2) \<longrightarrow> gm_wf clients'"
    using Cons.IH [of m2] Cons.prems(1,3) by auto
  have out: "map (\<lambda>k. let cs = the (gm_get (smClients m2) k)
            in (csAddr cs, bytes_of (audio_packet (csSeqNum cs + 1) data channel ts codec))) [k \<leftarrow> ks. \<not> werr k] =
      map (\<lambda>k. let cs = the (gm_get (smClients m) k)
            in (csAddr cs, bytes_of (audio_packet (csSeqNum cs + 1) data channel ts codec))) [k \<leftarrow> ks. \<not> werr k]"
    using Cons.prems(3) by (auto simp: get2)
  have wf: "gm_wf (smClients m) \<Longrightarrow> gm_wf clients'" using IH(4) by (simp add: m2_def)
  have get: "gm_get clients' = (\<lambda>j. if j \<in> set (k # ks) then map_option bump (gm_get (smClients m) j) else gm_get (smClients m) j)"
    using IH(3) Cons.prems(3) cs by (auto simp: get2 fun_eq_iff)
  show ?case
    unfolding step [rule_format] IH(1) out using IH(2) get wf cs
    by (intro exI [of _ buf'] exI [of _ clients']) (simp add: m2_def algebra_simps)
qed

lemma active_clients_iff:
  assumes "range_order (smClients m) ks"
  shows "k \<in> set (active_clients ks channel m) \<longleftrightarrow> (\<exists>cs. gm_get (smClients m) k = Some cs \<and> wants channel cs)"
  using range_order_set [OF assms, of k] by (cases "gm_get (smClients m) k") (simp_all add: active_clients_def)

lemma active_clients_distinct: "range_order (smClients m) ks \<Longrightarrow> distinct (active_clients ks channel m)"
  by (simp add: active_clients_def range_order_def)

lemma doSendAudio_effect:
  assumes "sm_inv m" and "range_order (smClients m) ks" and "length data \<le> MaxPayloadSize"
  shows "\<exists>m' sel. doSendAudio werr ks data channel ts codec m =
    (map (\<lambda>k. let cs = the (gm_get (smClients m) k)
            in (csAddr cs, bytes_of (audio_packet (csSeqNum cs + 1) data channel ts codec))) sel, m') \<and>
    distinct sel \<and> (\<forall>k. k \<in> set sel \<longleftrightarrow> \<not> werr k \<and> (\<exists>cs. gm_get (smClients m) k = Some cs \<and> wants channel cs)) \<and>
    sm_inv m' \<and> smBufs m' = smBufs m \<and> smQueue m' = smQueue m \<and> smSending m' = smSending m \<and> smPool m' = smPool m \<and>
    smStopped m' = smStopped m \<and> smLoopDone m' = smLoopDone m \<and>
    smPacketsSent m' = smPacketsSent m + of_nat (length sel) \<and>
    smBytesSent m' = smBytesSent m + of_nat (length sel * (HeaderSize + length data)) \<and>
    gm_get (smClients m') =
      (\<lambda>k. map_option (\<lambda>cs. if wants channel cs then bump cs else cs) (gm_get (smClients m) k))"
proof -
  note act = active_clients_distinct [OF assms(2), of channel] active_clients_iff [OF assms(2)]
  have reg: "\<forall>k \<in> set (active_clients ks channel m). gm_get (smClients m) k \<noteq> None"
    using act(2) by auto
  have buf: "length (smPacketBuf m) = MaxPacketSize" using assms(1) by (simp add: sm_inv_def)
  obtain buf' clients' where e: "doSendAudio werr ks data channel ts codec m =
    (map (\<lambda>k. let cs = the (gm_get (smClients m) k)
            in (csAddr cs, bytes_of (audio_packet (csSeqNum cs + 1) data channel ts codec)))
       [k \<leftarrow> active_clients ks channel m. \<not> werr k],
     m\<lparr>smClients := clients', smPacketBuf := buf',
       smPacketsSent := smPacketsSent m + of_nat (length [k \<leftarrow> active_clients ks channel m. \<not> werr k]),
       smBytesSent := smBytesSent m + of_nat (length [k \<leftarrow> active_clients ks channel m. \<not> werr k] * (HeaderSize + length data))\<rparr>)"
    "length buf' = MaxPacketSize"
    "gm_get clients' = (\<lambda>k. if k \<in> set (active_clients ks channel m) then map_option bump (gm_get (smClients m) k)
       else gm_get (smClients m) k)"
    "gm_wf (smClients m) \<longrightarrow> gm_wf clients'"
    unfolding doSendAudio_def using send_loop_effect [OF assms(3) buf act(1) reg] by blast
  define m' where "m' = m\<lparr>smClients := clients', smPacketBuf := buf',
       smPacketsSent := smPacketsSent m + of_nat (length [k \<leftarrow> active_clients ks channel m. \<not> werr k]),
       smBytesSent := smBytesSent m + of_nat (length [k \<leftarrow> active_clients ks channel m. \<not> werr k] * (HeaderSize + length data))\<rparr>"
  have "sm_inv m'" using assms(1) e(2,4) by (simp add: sm_inv_def m'_def held_def)
  moreover have "gm_get (smClients m') =
      (\<lambda>k. map_option (\<lambda>cs. if wants channel cs then bump cs else cs) (gm_get (smClients m) k))"
  proof
    fix k
    show "gm_get (smClients m') k =
        map_option (\<lambda>cs. if wants channel cs then bump cs else cs) (gm_get (smClients m) k)"
      using act(2) [of k channel] by (cases "gm_get (smClients m) k") (simp_all add: m'_def e(3))
  qed
  ultimately show ?thesis
    using e(1) act
    by (intro exI [of _ m'] exI [of _ "[k \<leftarrow> active_clients ks channel m. \<not> werr k]"]) (auto simp: m'_def)
qed

section \<open>The queue as a sequence of frames\<close>

record frame =
  fData :: "byte list"
  fChannel :: byte
  fTimestamp :: i64
  fCodec :: byte

definition frame_of :: "byte list list \<Rightarrow> broadcast_packet \<Rightarrow> frame" where
  "frame_of bufs p =
     \<lparr>fData = take (bpLength p) (bufs ! bpRef p), fChannel = bpChannel p,
      fTimestamp = bpTimestamp p, fCodec = bpCodec p\<rparr>"

definition queued :: "stream_mgr \<Rightarrow> frame list" where
  "queued m = map (frame_of (smBufs m)) (smQueue m)"

definition in_flight :: "stream_mgr \<Rightarrow> frame option" where
  "in_flight m = map_option (frame_of (smBufs m)) (smSending m)"

definition send_frame :: "nat option \<Rightarrow> frame \<Rightarrow> stream_mgr \<Rightarrow> stream_mgr option" where
  "send_frame choice f = SendAudio choice (fData f) (fChannel f) (fTimestamp f) (fCodec f)"

text \<open>One whole iteration of the sender, with the frame it sent.\<close>

definition iteration :: "stream_mgr \<Rightarrow> (frame \<times> stream_mgr) option" where
  "iteration m =
     (case loop_recv False m of
        None \<Rightarrow> None
      | Some m1 \<Rightarrow>
          (case in_flight m1 of
             None \<Rightarrow> None
           | Some f \<Rightarrow> Some (f, snd (loop_send (\<lambda>_. False) (gm_keys (smClients m1)) m1))))"

lemma pool_get_props:
  assumes "sm_inv m" and "pool_get choice m = (r, m')"
  shows "r < length (smBufs m')" "r \<notin> set (held m')" "length (smBufs m' ! r) = MaxPayloadSize"
    "sm_inv m'" "smQueue m' = smQueue m" "smSending m' = smSending m" "queued m' = queued m" "in_flight m' = in_flight m"
    "smStopped m' = smStopped m" "smLoopDone m' = smLoopDone m"
proof -
  have old: "frame_of (smBufs m @ x) p = frame_of (smBufs m) p" if "bpRef p \<in> set (held m)" for p x
    using that assms(1) by (auto simp: frame_of_def sm_inv_def nth_append)
  have inq: "p \<in> set (smQueue m) \<Longrightarrow> bpRef p \<in> set (held m)" "smSending m = Some p \<Longrightarrow> bpRef p \<in> set (held m)" for p
    by (auto simp: held_def)
  have cases: "(r \<in> set (smPool m) \<and> m' = m\<lparr>smPool := remove1 r (smPool m)\<rparr>) \<or>
      (r = length (smBufs m) \<and> m' = m\<lparr>smBufs := smBufs m @ [replicate MaxPayloadSize 0]\<rparr>)"
    using assms(2) by (auto simp: pool_get_def split: option.splits if_splits)
  then show "r < length (smBufs m')" "smQueue m' = smQueue m" "smSending m' = smSending m"
    "smStopped m' = smStopped m" "smLoopDone m' = smLoopDone m"
    "length (smBufs m' ! r) = MaxPayloadSize"
    using assms(1) by (auto simp: sm_inv_def held_def)
  show "r \<notin> set (held m')" using cases
  proof
    assume "r \<in> set (smPool m) \<and> m' = m\<lparr>smPool := remove1 r (smPool m)\<rparr>"
    then show ?thesis using assms(1) by (auto simp: sm_inv_def held_def split: option.splits)
  next
    assume r: "r = length (smBufs m) \<and> m' = m\<lparr>smBufs := smBufs m @ [replicate MaxPayloadSize 0]\<rparr>"
    then have "held m' = held m" by (simp add: held_def)
    moreover have "set (held m) \<subseteq> {..<r}" using assms(1) r by (simp add: sm_inv_def)
    ultimately show ?thesis by auto
  qed
  show "sm_inv m'" using cases
  proof
    assume r: "r \<in> set (smPool m) \<and> m' = m\<lparr>smPool := remove1 r (smPool m)\<rparr>"
    then have "held m' = remove1 r (held m)" by (simp add: held_def remove1_append)
    then have "distinct (held m')" "set (held m') \<subseteq> set (held m)"
      using assms(1) by (auto simp: sm_inv_def distinct_remove1 dest: notin_set_remove1)
    then show ?thesis using assms(1) r by (auto simp: sm_inv_def)
  next
    assume r: "r = length (smBufs m) \<and> m' = m\<lparr>smBufs := smBufs m @ [replicate MaxPayloadSize 0]\<rparr>"
    then have "held m' = held m" by (simp add: held_def)
    then show ?thesis using assms(1) r by (auto simp: sm_inv_def)
  qed
  show "queued m' = queued m" "in_flight m' = in_flight m"
  proof -
    have same: "frame_of (smBufs m') p = frame_of (smBufs m) p" if "bpRef p \<in> set (held m)" for p
      using cases old [OF that] by auto
    have "smQueue m' = smQueue m" "smSending m' = smSending m" using cases by auto
    then show "queued m' = queued m" "in_flight m' = in_flight m"
      using same inq by (auto simp: queued_def in_flight_def intro!: option.map_cong0)
  qed
qed

lemma SendAudio_frames:
  assumes "sm_inv m"
  shows "case SendAudio choice data channel ts codec m of
      None \<Rightarrow> MaxPayloadSize < length data
    | Some m' \<Rightarrow> length data \<le> MaxPayloadSize \<and> sm_inv m' \<and> in_flight m' = in_flight m \<and>
        smSending m' = smSending m \<and> smStopped m' = smStopped m \<and> smLoopDone m' = smLoopDone m \<and>
        queued m' = (if length (queued m) < BroadcastCap
          then queued m @ [\<lparr>fData = data, fChannel = channel, fTimestamp = ts, fCodec = codec\<rparr>] else queued m)"
proof -
  obtain r m1 where r: "pool_get choice m = (r, m1)" by force
  note g = pool_get_props [OF assms r]
  show ?thesis
  proof (cases "length data \<le> MaxPayloadSize")
    case False
    then show ?thesis by (simp add: SendAudio_def r g(3))
  next
    case True
    define b where "b = blit 0 data (smBufs m1 ! r)"
    have b: "length b = MaxPayloadSize" "take (length data) b = data"
      using True g(3) by (simp_all add: b_def blit_fits)
    have other: "frame_of ((smBufs m1)[r := b]) p = frame_of (smBufs m1) p" if "bpRef p \<noteq> r" for p
      using that by (simp add: frame_of_def)
    have ne: "p \<in> set (smQueue m1) \<Longrightarrow> bpRef p \<noteq> r" "smSending m1 = Some p \<Longrightarrow> bpRef p \<noteq> r" for p
      using g(2) by (auto simp: held_def)
    have q: "map (frame_of ((smBufs m1)[r := b])) (smQueue m1) = queued m"
    proof -
      have "map (frame_of ((smBufs m1)[r := b])) (smQueue m1) = queued m1"
        unfolding queued_def by (rule map_cong [OF refl]) (use other ne(1) in blast)
      then show ?thesis using g(7) by simp
    qed
    have s: "map_option (frame_of ((smBufs m1)[r := b])) (smSending m1) = in_flight m"
      using other ne(2) g(8) by (cases "smSending m1") (simp_all add: in_flight_def)
    have new: "frame_of ((smBufs m1)[r := b]) \<lparr>bpRef = r, bpLength = length data, bpChannel = channel,
        bpTimestamp = ts, bpCodec = codec\<rparr> = \<lparr>fData = data, fChannel = channel, fTimestamp = ts, fCodec = codec\<rparr>"
      using b g(1) by (simp add: frame_of_def)
    have bufs: "\<forall>x \<in> set ((smBufs m1)[r := b]). length x = MaxPayloadSize"
      using g(4) b(1) by (auto simp: sm_inv_def dest: set_update_subset_insert [THEN subsetD])
    have inv: "sm_inv m1" by (rule g(4))
    show ?thesis
    proof (cases "length (smQueue m) < BroadcastCap")
      case full: True
      then have "sm_inv (m1\<lparr>smBufs := (smBufs m1)[r := b], smQueue := smQueue m1 @
            [\<lparr>bpRef = r, bpLength = length data, bpChannel = channel, bpTimestamp = ts, bpCodec = codec\<rparr>]\<rparr>)"
        using inv g(1,2,5) True bufs by (auto simp: sm_inv_def held_def split: option.splits)
      then show ?thesis using True full g q s new
        by (simp add: SendAudio_def r b_def [symmetric] Let_def queued_def in_flight_def)
    next
      case full: False
      then have "sm_inv (pool_put r (m1\<lparr>smBufs := (smBufs m1)[r := b]\<rparr>))"
        using inv g(1,2,5) bufs by (auto simp: sm_inv_def held_def pool_put_def split: option.splits)
      then show ?thesis using True full g q s
        by (simp add: SendAudio_def r b_def [symmetric] Let_def queued_def in_flight_def pool_put_def)
    qed
  qed
qed

text \<open>The sender between two iterations.\<close>

definition idle :: "stream_mgr \<Rightarrow> bool" where
  "idle m \<longleftrightarrow> sm_inv m \<and> smSending m = None \<and> \<not> smStopped m \<and> \<not> smLoopDone m"

lemma loop_send_frames:
  assumes "sm_inv m" and "smSending m = Some p" and "range_order (smClients m) ks"
  shows "case loop_send werr ks m of (ds, m') \<Rightarrow>
    sm_inv m' \<and> queued m' = queued m \<and> smSending m' = None \<and> smStopped m' = smStopped m \<and> smLoopDone m' = smLoopDone m"
proof -
  let ?d = "take (bpLength p) (smBufs m ! bpRef p)"
  have "length ?d \<le> MaxPayloadSize" using assms(1,2) by (auto simp: sm_inv_def)
  then obtain m1 ds where m1: "doSendAudio werr ks ?d (bpChannel p) (bpTimestamp p) (bpCodec p) m = (ds, m1)"
    "sm_inv m1" "smBufs m1 = smBufs m" "smQueue m1 = smQueue m" "smSending m1 = smSending m" "smPool m1 = smPool m"
    "smStopped m1 = smStopped m" "smLoopDone m1 = smLoopDone m"
    using doSendAudio_effect [OF assms(1,3)] by blast
  have "length (smBufs m1 ! bpRef p) = MaxPayloadSize"
    using m1(2,5) assms(2) by (auto simp: sm_inv_def held_def)
  then show ?thesis
    using m1 assms(2)
    by (auto simp: loop_send_def Let_def queued_def pool_put_def sm_inv_def held_def)
qed

interpretation sq: bounded_fifo queued send_frame iteration "\<lambda>f. length (fData f) \<le> MaxPayloadSize" BroadcastCap idle
proof unfold_locales
  fix m c and f :: frame
  assume m: "idle m" and f: "length (fData f) \<le> MaxPayloadSize"
  show "\<exists>m'. send_frame c f m = Some m' \<and> idle m' \<and>
      queued m' = (if length (queued m) < BroadcastCap then queued m @ [f] else queued m)"
    using SendAudio_frames [where m = m and choice = c and data = "fData f" and channel = "fChannel f" and
          ts = "fTimestamp f" and codec = "fCodec f"] m f
    by (cases "send_frame c f m") (auto simp: send_frame_def idle_def)
next
  fix m c and f :: frame
  assume "idle m" and "\<not> length (fData f) \<le> MaxPayloadSize"
  then show "send_frame c f m = None"
    using SendAudio_frames [where m = m and choice = c and data = "fData f" and channel = "fChannel f" and
          ts = "fTimestamp f" and codec = "fCodec f"]
    by (cases "send_frame c f m") (auto simp: send_frame_def idle_def)
next
  fix m assume "idle m"
  then show "iteration m = None \<longleftrightarrow> queued m = []"
    by (auto simp: iteration_def loop_recv_def idle_def queued_def in_flight_def split: list.splits)
next
  fix m and f :: frame and m' assume m: "idle m" and i: "iteration m = Some (f, m')"
  then obtain p ps where q: "smQueue m = p # ps"
    by (auto simp: iteration_def loop_recv_def idle_def split: list.splits)
  define m1 where "m1 = m\<lparr>smQueue := ps, smSending := Some p\<rparr>"
  have m1: "loop_recv False m = Some m1" using m q by (simp add: loop_recv_def idle_def m1_def)
  have inv: "sm_inv m1" using m q by (auto simp: idle_def sm_inv_def held_def m1_def)
  have "range_order (smClients m1) (gm_keys (smClients m1))"
    using inv by (simp add: range_order_keys sm_inv_wf)
  from loop_send_frames [OF inv _ this, of p "\<lambda>_. False"] show "queued m = f # queued m' \<and> idle m'"
    using i m q m1 by (auto simp: iteration_def in_flight_def queued_def idle_def m1_def)
next
  fix m assume "idle m"
  then show "length (queued m) \<le> BroadcastCap" by (simp add: idle_def sm_inv_def queued_def)
qed

section \<open>Properties\<close>

text \<open>
  C3: sending a frame writes one datagram to exactly the clients that want the channel and whose write
  does not fail, each to that client's address; it parses to an audio packet with the frame's data,
  channel, timestamp and codec and the client's next sequence number. Those clients, and no others,
  advance their sequence number, and the statistics count the datagrams and their bytes. The order in
  which the map is visited changes only the order of the datagrams.
\<close>

theorem audio_delivery:
  assumes "sm_inv m" and "range_order (smClients m) ks" and "length data \<le> MaxPayloadSize"
  shows "case doSendAudio werr ks data channel ts codec m of (ds, m') \<Rightarrow>
    sm_inv m' \<and>
    (\<exists>sel. distinct sel \<and>
      (\<forall>k. k \<in> set sel \<longleftrightarrow> \<not> werr k \<and> (\<exists>cs. gm_get (smClients m) k = Some cs \<and> csActive cs \<and>
        (channel = ChannelStereoMix \<or> csChannelAssign cs = ChannelStereoMix \<or> csChannelAssign cs = channel))) \<and>
      map (\<lambda>(a, b). (a, unmarshal b)) ds =
        map (\<lambda>k. let cs = the (gm_get (smClients m) k)
          in (csAddr cs, Inr (audio_packet (csSeqNum cs + 1) data channel ts codec))) sel) \<and>
    gm_get (smClients m') =
      (\<lambda>k. map_option (\<lambda>cs. if wants channel cs then bump cs else cs) (gm_get (smClients m) k)) \<and>
    smPacketsSent m' = smPacketsSent m + of_nat (length ds) \<and>
    smBytesSent m' = smBytesSent m + of_nat (length ds * (HeaderSize + length data))"
proof -
  obtain m' sel where e: "doSendAudio werr ks data channel ts codec m =
    (map (\<lambda>k. let cs = the (gm_get (smClients m) k)
            in (csAddr cs, bytes_of (audio_packet (csSeqNum cs + 1) data channel ts codec))) sel, m')"
    "distinct sel" "\<forall>k. k \<in> set sel \<longleftrightarrow> \<not> werr k \<and> (\<exists>cs. gm_get (smClients m) k = Some cs \<and> wants channel cs)"
    "sm_inv m'" "smPacketsSent m' = smPacketsSent m + of_nat (length sel)"
    "smBytesSent m' = smBytesSent m + of_nat (length sel * (HeaderSize + length data))"
    "gm_get (smClients m') =
      (\<lambda>k. map_option (\<lambda>cs. if wants channel cs then bump cs else cs) (gm_get (smClients m) k))"
    using doSendAudio_effect [OF assms, where werr = werr and channel = channel and ts = ts and codec = codec]
    by (elim exE conjE) (rule that, assumption+)
  have parsed: "map (\<lambda>(a, b). (a, unmarshal b))
        (map (\<lambda>k. let cs = the (gm_get (smClients m) k)
            in (csAddr cs, bytes_of (audio_packet (csSeqNum cs + 1) data channel ts codec))) sel) =
        map (\<lambda>k. let cs = the (gm_get (smClients m) k)
          in (csAddr cs, Inr (audio_packet (csSeqNum cs + 1) data channel ts codec))) sel"
    by (simp only: map_map comp_def Let_def prod.case unmarshal_bytes_of [OF assms(3)])
  show ?thesis
    unfolding e(1) prod.case length_map
    using e(2) e(3) [unfolded wants_iff] e(4-7) parsed by blast
qed

text \<open>A manager with a listener of the mix and one assigned to the front left speaker.\<close>

definition sm2 :: stream_mgr where
  "sm2 =
     sm_AddClient ''a'' (\<lparr>IP = [10, 0, 0, 1], Port = 5004\<rparr>, ChannelStereoMix)
      (sm_AddClient ''b'' (\<lparr>IP = [10, 0, 0, 2], Port = 5004\<rparr>, ChannelFrontLeft) sm_NewManager)"

lemma sm_NewManager_inv: "sm_inv sm_NewManager" and sm_NewManager_idle: "idle sm_NewManager"
  by (simp_all add: sm_inv_def idle_def sm_NewManager_def held_def)

lemma sm2_inv: "sm_inv sm2"
  unfolding sm2_def by (intro sm_inv_ops sm_NewManager_inv)

lemma sm2_order: "range_order (smClients sm2) [''a'', ''b'']"
  by (auto simp: range_order_def sm2_def sm_AddClient_def sm_NewManager_def gm_keys_def gm_put_def gm_empty_def)

theorem audio_delivery_witness:
  "case doSendAudio (\<lambda>k. k = ''a'') [''a'', ''b''] [1, 2, 3] ChannelFrontLeft 7 CodecPCM sm2 of (ds, m') \<Rightarrow>
    sm_inv m' \<and>
    (\<exists>sel. distinct sel \<and>
      (\<forall>k. k \<in> set sel \<longleftrightarrow> \<not> (\<lambda>k. k = ''a'') k \<and> (\<exists>cs. gm_get (smClients sm2) k = Some cs \<and> csActive cs \<and>
        (ChannelFrontLeft = ChannelStereoMix \<or> csChannelAssign cs = ChannelStereoMix \<or>
         csChannelAssign cs = ChannelFrontLeft))) \<and>
      map (\<lambda>(a, b). (a, unmarshal b)) ds =
        map (\<lambda>k. let cs = the (gm_get (smClients sm2) k)
          in (csAddr cs, Inr (audio_packet (csSeqNum cs + 1) [1, 2, 3] ChannelFrontLeft 7 CodecPCM))) sel) \<and>
    gm_get (smClients m') =
      (\<lambda>k. map_option (\<lambda>cs. if wants ChannelFrontLeft cs then bump cs else cs) (gm_get (smClients sm2) k)) \<and>
    smPacketsSent m' = smPacketsSent sm2 + of_nat (length ds) \<and>
    smBytesSent m' = smBytesSent sm2 + of_nat (length ds * (HeaderSize + length [1, 2, 3 :: byte]))"
  by (rule audio_delivery [OF sm2_inv sm2_order]) (simp add: MaxPayloadSize_def)

text \<open>
  Handing a frame to the sender never blocks and never disturbs a frame handed over before: the
  frames waiting and the one being sent keep their data whatever buffer the pool gives out. A frame of
  more than 4096 bytes panics; with 200 frames waiting the new one is dropped.
\<close>

theorem send_audio_isolated:
  assumes "sm_inv m"
  shows "case SendAudio choice data channel ts codec m of
      None \<Rightarrow> MaxPayloadSize < length data
    | Some m' \<Rightarrow> length data \<le> MaxPayloadSize \<and> sm_inv m' \<and> in_flight m' = in_flight m \<and>
        smClients m' = smClients m \<and>
        queued m' = (if length (queued m) < BroadcastCap
          then queued m @ [\<lparr>fData = data, fChannel = channel, fTimestamp = ts, fCodec = codec\<rparr>] else queued m)"
proof -
  obtain r m1 where r: "pool_get choice m = (r, m1)" by force
  then have "smClients m1 = smClients m" by (auto simp: pool_get_def split: option.splits if_splits)
  then have clients: "smClients m' = smClients m" if "SendAudio choice data channel ts codec m = Some m'" for m'
    using that r by (auto simp: SendAudio_def pool_put_def Let_def split: if_splits)
  show ?thesis
    using SendAudio_frames [OF assms, where choice = choice and data = data and channel = channel and ts = ts
        and codec = codec] clients
    by (cases "SendAudio choice data channel ts codec m") simp_all
qed

theorem send_audio_isolated_witness:
  "case SendAudio None [5, 6] ChannelStereoMix 9 CodecPCM sm2 of
      None \<Rightarrow> MaxPayloadSize < length [5, 6 :: byte]
    | Some m' \<Rightarrow> length [5, 6 :: byte] \<le> MaxPayloadSize \<and> sm_inv m' \<and> in_flight m' = in_flight sm2 \<and>
        smClients m' = smClients sm2 \<and>
        queued m' = (if length (queued sm2) < BroadcastCap
          then queued sm2 @ [\<lparr>fData = [5, 6], fChannel = ChannelStereoMix, fTimestamp = 9, fCodec = CodecPCM\<rparr>]
          else queued sm2)"
  by (rule send_audio_isolated [OF sm2_inv])

text \<open>
  C19: under every interleaving of the pipeline handing over frames and the sender taking them, the
  frames sent come out in the order they were handed over, unchanged and none twice; and while at most
  200 frames are handed over none is lost.
\<close>

theorem frames_in_order:
  assumes "idle m" and "\<forall>f \<in> set (puts ops). length (fData f) \<le> MaxPayloadSize"
  shows "\<exists>sent m'. q_run send_frame iteration ops m = Some (sent, m') \<and> idle m' \<and>
    (\<exists>kept. sent @ queued m' = queued m @ kept \<and> subseq kept (puts ops) \<and>
      (length (queued m) + length (puts ops) \<le> BroadcastCap \<longrightarrow> kept = puts ops))"
proof -
  obtain sent m' kept where r: "q_run send_frame iteration ops m = Some (sent, m')" "idle m'"
    "sent @ queued m' = queued m @ kept" "subseq kept (puts ops)"
    using sq.run_fifo [OF assms] by blast
  have "kept = puts ops" if "length (queued m) + length (puts ops) \<le> BroadcastCap"
    using sq.run_lossless [OF assms that] r by auto
  then show ?thesis using r by blast
qed

theorem frames_in_order_witness:
  "\<exists>sent m'. q_run send_frame iteration
      [Some (None, \<lparr>fData = [1], fChannel = 0, fTimestamp = 0, fCodec = 1\<rparr>), None,
       Some (Some 0, \<lparr>fData = [2, 3], fChannel = 0, fTimestamp = 9, fCodec = 1\<rparr>)] sm_NewManager =
      Some (sent, m') \<and> idle m' \<and>
    (\<exists>kept. sent @ queued m' = queued sm_NewManager @ kept \<and>
      subseq kept (puts [Some (None :: nat option, \<lparr>fData = [1], fChannel = 0, fTimestamp = 0, fCodec = 1\<rparr>), None,
       Some (Some 0, \<lparr>fData = [2, 3], fChannel = 0, fTimestamp = 9, fCodec = 1\<rparr>)]) \<and>
      (length (queued sm_NewManager) + length (puts [Some (None :: nat option, \<lparr>fData = [1], fChannel = 0, fTimestamp = 0, fCodec = 1\<rparr>), None,
       Some (Some 0, \<lparr>fData = [2, 3], fChannel = 0, fTimestamp = 9, fCodec = 1\<rparr>)]) \<le> BroadcastCap \<longrightarrow>
       kept = puts [Some (None :: nat option, \<lparr>fData = [1], fChannel = 0, fTimestamp = 0, fCodec = 1\<rparr>), None,
       Some (Some 0, \<lparr>fData = [2, 3], fChannel = 0, fTimestamp = 9, fCodec = 1\<rparr>)]))"
  by (rule frames_in_order [OF sm_NewManager_idle]) (simp add: MaxPayloadSize_def)

lemma sm_inv_receive [inv_intros]: "sm_inv m \<Longrightarrow> sm_inv (receive d a m)"
  by (auto simp: receive_def Let_def sm_inv_clients sm_inv_wf split: sum.split option.split)

text \<open>
  A datagram from the network changes at most the address of one client, and only when it is a
  well-formed keep-alive packet whose payload is that client's identifier and the receiver runs; then
  the client's next audio goes to the address the datagram came from.
\<close>

theorem keepalive_updates_address:
  "(if smRunning m \<and> (\<exists>pkt. unmarshal (take MaxPacketSize d) = Inr pkt \<and> PType pkt = PacketTypeKeepAlive \<and>
        bytes_string (Payload pkt) = k)
    then gm_get (smClients (receive d a m)) k = map_option (csAddr_update (\<lambda>_. a)) (gm_get (smClients m) k)
    else gm_get (smClients (receive d a m)) k = gm_get (smClients m) k) \<and>
   receive d a m = m\<lparr>smClients := smClients (receive d a m)\<rparr> \<and>
   sm_ids (receive d a m) = sm_ids m"
proof -
  have ids: "sm_ids x = {k. gm_get (smClients x) k \<noteq> None}" for x
    by (auto simp: sm_ids_def gm_get_None_iff)
  have ne: "PacketTypeKeepAlive \<noteq> PacketTypeClockSyncReply" by (simp add: packet_type_defs)
  show ?thesis
    unfolding ids receive_def Let_def using ne
    by (auto simp: gm_get_put sm_inv_clients sm_inv_wf split: sum.split option.split)
qed

text \<open>A sequence of frames, each with the order of its map traversal and the outcome of its writes.\<close>

fun send_frames :: "(frame \<times> string list \<times> (string \<Rightarrow> bool)) list \<Rightarrow> stream_mgr \<Rightarrow> datagram list \<times> stream_mgr" where
  "send_frames [] m = ([], m)"
| "send_frames ((f, ks, werr) # fs) m =
     (let (ds, m) = doSendAudio werr ks (fData f) (fChannel f) (fTimestamp f) (fCodec f) m;
          (ds', m) = send_frames fs m
      in (ds @ ds', m))"

fun numbered :: "u32 \<Rightarrow> frame list \<Rightarrow> packet list" where
  "numbered s [] = []"
| "numbered s (f # fs) =
     audio_packet (s + 1) (fData f) (fChannel f) (fTimestamp f) (fCodec f) # numbered (s + 1) fs"

lemma wants_bump [simp]: "wants ch (bump cs) = wants ch cs" "csAddr (bump cs) = csAddr cs"
  by (simp_all add: wants_def bump_def)

lemma filter_single:
  "distinct xs \<Longrightarrow> (\<And>x. x \<in> set xs \<Longrightarrow> P x \<longleftrightarrow> x = a) \<Longrightarrow>
   filter P xs = (if a \<in> set xs then [a] else [])"
  by (induction xs) (auto simp: filter_empty_conv)

lemma one_datagram:
  assumes "sm_inv m" and "range_order (smClients m) ks" and "length (fData f) \<le> MaxPayloadSize"
    and "gm_get (smClients m) k = Some cs" and "\<not> werr k"
    and "\<forall>j cj. gm_get (smClients m) j = Some cj \<longrightarrow> j \<noteq> k \<longrightarrow> csAddr cj \<noteq> csAddr cs"
  shows "case doSendAudio werr ks (fData f) (fChannel f) (fTimestamp f) (fCodec f) m of (ds, m') \<Rightarrow>
    sm_inv m' \<and> gm_get (smClients m') =
      (\<lambda>k. map_option (\<lambda>cs. if wants (fChannel f) cs then bump cs else cs) (gm_get (smClients m) k)) \<and>
    map (unmarshal \<circ> snd) [d \<leftarrow> ds. fst d = csAddr cs] =
      (if wants (fChannel f) cs then map Inr (numbered (csSeqNum cs) [f]) else [])"
proof -
  let ?g = "\<lambda>k. let cs = the (gm_get (smClients m) k)
            in (csAddr cs, bytes_of (audio_packet (csSeqNum cs + 1) (fData f) (fChannel f) (fTimestamp f) (fCodec f)))"
  obtain m' sel where e: "doSendAudio werr ks (fData f) (fChannel f) (fTimestamp f) (fCodec f) m = (map ?g sel, m')"
    "distinct sel" "\<forall>k. k \<in> set sel \<longleftrightarrow> \<not> werr k \<and> (\<exists>cs. gm_get (smClients m) k = Some cs \<and> wants (fChannel f) cs)"
    "sm_inv m'" "gm_get (smClients m') =
      (\<lambda>k. map_option (\<lambda>cs. if wants (fChannel f) cs then bump cs else cs) (gm_get (smClients m) k))"
    using doSendAudio_effect [OF assms(1-3), where werr = werr and channel = "fChannel f"
        and ts = "fTimestamp f" and codec = "fCodec f"]
    by (elim exE conjE) (rule that, assumption+)
  have addr: "fst (?g j) = csAddr cs \<longleftrightarrow> j = k" if j: "j \<in> set sel" for j
  proof -
    obtain cj where "gm_get (smClients m) j = Some cj" using spec [OF e(3), of j] j by auto
    then show ?thesis using assms(4,6) by (auto simp: Let_def)
  qed
  have "filter (\<lambda>d. fst d = csAddr cs) (map ?g sel) = map ?g (filter (\<lambda>j. fst (?g j) = csAddr cs) sel)"
    by (simp only: filter_map comp_def)
  also have "filter (\<lambda>j. fst (?g j) = csAddr cs) sel = (if k \<in> set sel then [k] else [])"
    using addr by (rule filter_single [OF e(2)])
  finally have filt: "filter (\<lambda>d. fst d = csAddr cs) (map ?g sel) = map ?g (if k \<in> set sel then [k] else [])" .
  have "k \<in> set sel \<longleftrightarrow> wants (fChannel f) cs" using spec [OF e(3), of k] assms(4,5) by simp
  then have "map (unmarshal \<circ> snd) [d \<leftarrow> map ?g sel. fst d = csAddr cs] =
      (if wants (fChannel f) cs then map Inr (numbered (csSeqNum cs) [f]) else [])"
    unfolding filt using assms(4) by (simp add: unmarshal_bytes_of [OF assms(3)])
  then show ?thesis
    unfolding e(1) prod.case using e(4,5) by blast
qed

text \<open>
  C6: what a client receives over any sequence of frames: exactly the frames of its channels, in order,
  with consecutive sequence numbers (modulo 2 to the 32) from the one after its last, so that a gap in
  the numbers tells the client how many packets were lost on the way.
\<close>

theorem sequence_numbers:
  assumes "sm_inv m" and "gm_get (smClients m) k = Some cs"
    and "\<forall>(f, ks, werr) \<in> set fs. range_order (smClients m) ks \<and> length (fData f) \<le> MaxPayloadSize \<and> \<not> werr k"
    and "\<forall>j cj. gm_get (smClients m) j = Some cj \<longrightarrow> j \<noteq> k \<longrightarrow> csAddr cj \<noteq> csAddr cs"
  shows "map (unmarshal \<circ> snd) [d \<leftarrow> fst (send_frames fs m). fst d = csAddr cs] =
    map Inr (numbered (csSeqNum cs) [f \<leftarrow> map fst fs. wants (fChannel f) cs])"
  using assms
proof (induction fs arbitrary: m cs)
  case (Cons x fs)
  obtain f ks werr where x: "x = (f, ks, werr)" by (cases x)
  obtain ds m1 where d: "doSendAudio werr ks (fData f) (fChannel f) (fTimestamp f) (fCodec f) m = (ds, m1)" by force
  have one: "sm_inv m1" "gm_get (smClients m1) =
      (\<lambda>k. map_option (\<lambda>cs. if wants (fChannel f) cs then bump cs else cs) (gm_get (smClients m) k))"
    "map (unmarshal \<circ> snd) [d \<leftarrow> ds. fst d = csAddr cs] =
      (if wants (fChannel f) cs then map Inr (numbered (csSeqNum cs) [f]) else [])"
    using one_datagram [OF Cons.prems(1) _ _ Cons.prems(2) _ Cons.prems(4), of ks f werr] Cons.prems(3) d
    by (auto simp: x)
  define cs1 where "cs1 = (if wants (fChannel f) cs then bump cs else cs)"
  have cs1: "csAddr cs1 = csAddr cs" "wants ch cs1 = wants ch cs"
    "csSeqNum cs1 = (if wants (fChannel f) cs then csSeqNum cs + 1 else csSeqNum cs)" for ch
    by (simp_all add: cs1_def) (simp add: bump_def)
  have keys: "range_order (smClients m1) ks' = range_order (smClients m) ks'" for ks'
  proof -
    have "set (gm_keys (smClients m1)) = set (gm_keys (smClients m))"
      unfolding gm_dom [symmetric] one(2) by (auto simp: dom_def)
    then show ?thesis by (simp add: range_order_def)
  qed
  have "map (unmarshal \<circ> snd) [d \<leftarrow> fst (send_frames fs m1). fst d = csAddr cs1] =
      map Inr (numbered (csSeqNum cs1) [f \<leftarrow> map fst fs. wants (fChannel f) cs1])"
  proof (rule Cons.IH [OF one(1)])
    show "gm_get (smClients m1) k = Some cs1" using Cons.prems(2) by (simp add: one(2) cs1_def)
    show "\<forall>(f, ks, werr) \<in> set fs. range_order (smClients m1) ks \<and> length (fData f) \<le> MaxPayloadSize \<and> \<not> werr k"
      using Cons.prems(3) by (auto simp: keys)
    show "\<forall>j cj. gm_get (smClients m1) j = Some cj \<longrightarrow> j \<noteq> k \<longrightarrow> csAddr cj \<noteq> csAddr cs1"
      using Cons.prems(4) by (auto simp: one(2) cs1(1) split: if_splits)
  qed
  moreover have "fst (send_frames (x # fs) m) = ds @ fst (send_frames fs m1)"
    using d by (simp add: x split: prod.split)
  ultimately show ?case using one(3) by (simp add: x cs1 comp_def)
qed simp

theorem sequence_numbers_witness:
  "map (unmarshal \<circ> snd) [d \<leftarrow> fst (send_frames
      [(\<lparr>fData = [1], fChannel = ChannelFrontLeft, fTimestamp = 0, fCodec = 1\<rparr>, [''b'', ''a''], \<lambda>_. False),
       (\<lparr>fData = [2], fChannel = ChannelFrontRight, fTimestamp = 9, fCodec = 1\<rparr>, [''a'', ''b''], \<lambda>k. k = ''b'')] sm2).
      fst d = csAddr (new_stream ''a'' \<lparr>IP = [10, 0, 0, 1], Port = 5004\<rparr> ChannelStereoMix)] =
    map Inr (numbered (csSeqNum (new_stream ''a'' \<lparr>IP = [10, 0, 0, 1], Port = 5004\<rparr> ChannelStereoMix))
      [f \<leftarrow> map fst
        [(\<lparr>fData = [1], fChannel = ChannelFrontLeft, fTimestamp = 0, fCodec = 1\<rparr>, [''b'', ''a''], \<lambda>_ :: string. False),
         (\<lparr>fData = [2], fChannel = ChannelFrontRight, fTimestamp = 9, fCodec = 1\<rparr>, [''a'', ''b''], \<lambda>k. k = ''b'')].
        wants (fChannel f) (new_stream ''a'' \<lparr>IP = [10, 0, 0, 1], Port = 5004\<rparr> ChannelStereoMix)])"
  by (rule sequence_numbers [where k = "''a''", OF sm2_inv])
    (auto simp: sm2_def sm_AddClient_def sm_NewManager_def gm_get_put range_order_def MaxPayloadSize_def new_stream_def
      split: if_splits)

end
