(* ===== verification/Server.thy ===== *)
theory Server
  imports Latency Clock Session Stream
begin

text \<open>
  \<^verbatim>\<open>internal/server/tcp.go\<close>, with the callbacks \<^verbatim>\<open>main.go\<close> installs: the life of one control
  connection (join, clock handshake, registration, read loop, cleanup) and the broadcasts. The server's
  state is the state of the four components it calls, the broadcasts whose goroutine has not run yet,
  the messages written to each connection and the calls of the user-interface callbacks. The parser of
  JSON text (\<open>scan\<close>), the clock, randomness, the outcome of every write and the order of \<^verbatim>\<open>range\<close> are
  inputs.
\<close>

section \<open>State\<close>

datatype ui_event = UiJoin string | UiLeave string | UiUpdate

record server =
  svMgr :: manager
  svStream :: stream_mgr
  svClock :: clock_sync
  svLatency :: latency_eq
  svUdpPort :: i64
  svPending :: "(ref \<times> server_msg) list"
  svOut :: "(conn \<times> server_msg) list"
  svUi :: "ui_event list"

definition on_session :: "(session \<Rightarrow> session) \<Rightarrow> server \<Rightarrow> server" where
  "on_session f sv =
     (case mSession (svMgr sv) of
        None \<Rightarrow> sv
      | Some s \<Rightarrow> sv\<lparr>svMgr := (svMgr sv)\<lparr>mSession := Some (f s)\<rparr>\<rparr>)"

text \<open>\<^verbatim>\<open>main\<close> creates one session before it starts the servers, and no other.\<close>

definition cur :: "server \<Rightarrow> session" where
  "cur sv = the (mSession (svMgr sv))"

section \<open>Writing messages\<close>

datatype send_error = MarshalErr json_error | WriteErr io_error

text \<open>
  \<^verbatim>\<open>json.Marshal\<close> fails for a message with a number that is not finite, whatever digits it writes for
  the others. The write deadline is part of the outcome of the write.
\<close>

definition sendTCPMessage ::
  "conn \<Rightarrow> io_error option \<Rightarrow> server_msg \<Rightarrow> server \<Rightarrow> send_error option \<times> server" where
  "sendTCPMessage cn werr msg sv =
     (case enc_server_msg (exact_decimal F64) msg of
        Inl e \<Rightarrow> (Some (MarshalErr e), sv)
      | Inr _ \<Rightarrow>
          (case werr of
             Some e \<Rightarrow> (Some (WriteErr e), sv)
           | None \<Rightarrow> (None, sv\<lparr>svOut := svOut sv @ [(cn, msg)]\<rparr>)))"

text \<open>
  \<^verbatim>\<open>BroadcastToAll\<close> starts one goroutine per registered client; each runs at some later time, in any
  order, and reads the client's write function only then.
\<close>

definition BroadcastToAll :: "string list \<Rightarrow> server_msg \<Rightarrow> server \<Rightarrow> server" where
  "BroadcastToAll ks msg sv =
     (case mSession (svMgr sv) of
        None \<Rightarrow> sv
      | Some s \<Rightarrow> sv\<lparr>svPending := svPending sv @ ForEachClient (\<lambda>r acc. acc @ [(r, msg)]) ks s []\<rparr>)"

definition remove_nth :: "nat \<Rightarrow> 'a list \<Rightarrow> 'a list" where
  "remove_nth i xs = take i xs @ drop (Suc i) xs"

definition run_pending :: "nat \<Rightarrow> io_error option \<Rightarrow> server \<Rightarrow> server" where
  "run_pending i werr sv =
     (if i < length (svPending sv)
      then
        let (r, msg) = svPending sv ! i;
            sv = sv\<lparr>svPending := remove_nth i (svPending sv)\<rparr>
        in (case mSession (svMgr sv) of
              None \<Rightarrow> sv
            | Some s \<Rightarrow>
                (case Send r s of
                   None \<Rightarrow> sv
                 | Some cn \<Rightarrow> snd (sendTCPMessage cn werr msg sv)))
      else sv)"

section \<open>The callbacks of the latency equaliser\<close>

definition latency_msg :: "fl \<Rightarrow> server_msg" where
  "latency_msg d = SetGlobalLatency \<lparr>glType = MsgSetGlobalLatency, glTargetMs = d\<rparr>"

definition setFrameSize :: "string \<Rightarrow> int \<Rightarrow> server \<Rightarrow> server" where
  "setFrameSize clientID frameMs sv =
     (let sv = sv\<lparr>svStream := sm_SetFrameSize clientID frameMs (svStream sv)\<rparr>
      in on_session (\<lambda>s. case GetClient clientID s of None \<Rightarrow> s | Some r \<Rightarrow> cl_SetFrameSize r frameMs s) sv)"

fun apply_effect :: "string list \<Rightarrow> le_effect \<Rightarrow> server \<Rightarrow> server" where
  "apply_effect ks (Broadcast d) sv = BroadcastToAll ks (latency_msg d) sv"
| "apply_effect ks (FrameSize k n) sv = setFrameSize k n sv"

definition apply_effects :: "string list \<Rightarrow> le_effect list \<Rightarrow> server \<Rightarrow> server" where
  "apply_effects ks es sv = fold (apply_effect ks) es sv"

section \<open>Joining\<close>

text \<open>The inputs of one connection, apart from the bytes it delivers.\<close>

record conn_env =
  ceRand :: "byte list option"
  ceRandErr :: string
  ceNow :: go_time
  ceIP :: "byte list"
  ceReplyErr :: "io_error option"
  ceHs :: hs_env
  ceLatencyErr :: "io_error option"
  ceListErr :: "io_error option"
  ceOrder :: "string list"
  ceLeaveOrder :: "string list"

datatype join_failure =
    BadRead frame_error
  | BadJson json_error
  | BadType string
  | NoSession
  | Rejected sess_error
  | AcceptFailed send_error

definition reject_reason :: "conn_env \<Rightarrow> sess_error \<Rightarrow> string" where
  "reject_reason env e =
     (case e of
        ErrInvalidToken \<Rightarrow> ''invalid session token''
      | _ \<Rightarrow> ''generate client ID: '' @ ceRandErr env)"

definition reject_msg :: "string \<Rightarrow> server_msg" where
  "reject_msg reason = JoinReject \<lparr>jxType = MsgJoinReject, jxReason = reason\<rparr>"

definition accept_msg :: "string \<Rightarrow> string \<Rightarrow> i64 \<Rightarrow> server_msg" where
  "accept_msg cid sid port =
     JoinAccept \<lparr>jaType = MsgJoinAccept, jaClientID = cid, jaSessionID = sid, jaUDPPort = port\<rparr>"

text \<open>Steps 1 to 3 of \<^verbatim>\<open>handleConnection\<close>; a success is the client object and the UDP port it asks for.\<close>

definition join_phase ::
  "(byte list \<Rightarrow> json option) \<Rightarrow> conn_env \<Rightarrow> conn \<Rightarrow> inconn \<Rightarrow> server \<Rightarrow>
   (join_failure + ref \<times> i64) \<times> inconn \<times> server" where
  "join_phase scan env cn inp sv =
     (case readTCPMessage inp of
        (Inl e, inp) \<Rightarrow> (Inl (BadRead e), inp, sv)
      | (Inr msg, inp) \<Rightarrow>
          (case decode_bytes scan dec_join_request_msg msg of
             Inl e \<Rightarrow> (Inl (BadJson e), inp, sv)
           | Inr joinReq \<Rightarrow>
               if jrType joinReq \<noteq> MsgJoinRequest then (Inl (BadType (jrType joinReq)), inp, sv)
               else case GetSession (svMgr sv) of
                  None \<Rightarrow>
                    (Inl NoSession, inp, snd (sendTCPMessage cn (ceReplyErr env) (reject_msg ''no active session'') sv))
                | Some s \<Rightarrow>
                    (case AddClient (jrToken joinReq) (jrDeviceName joinReq) (jrPlatform joinReq) cn
                        (ceRand env) (ceNow env) s of
                       (Inl e, s) \<Rightarrow>
                         (Inl (Rejected e), inp,
                          snd (sendTCPMessage cn (ceReplyErr env) (reject_msg (reject_reason env e)) sv))
                     | (Inr r, s) \<Rightarrow>
                         (let sv = sv\<lparr>svMgr := (svMgr sv)\<lparr>mSession := Some s\<rparr>\<rparr>;
                              cid = cID (store s ! r)
                          in case sendTCPMessage cn (ceReplyErr env) (accept_msg cid (sID s) (svUdpPort sv)) sv of
                               (Some e, sv) \<Rightarrow> (Inl (AcceptFailed e), inp, on_session (RemoveClient cid) sv)
                             | (None, sv) \<Rightarrow> (Inr (r, jrUDPPort joinReq), inp, sv)))))"

text \<open>Step 4, the clock handshake. A failure removes the client from the session, and from there only.\<close>

definition handshake_phase ::
  "(byte list \<Rightarrow> json option) \<Rightarrow> conn_env \<Rightarrow> conn \<Rightarrow> string \<Rightarrow> inconn \<Rightarrow> server \<Rightarrow>
   hs_error option \<times> inconn \<times> server" where
  "handshake_phase scan env cn cid inp sv =
     (case InitialHandshake (decode_bytes scan dec_clock_sync_reply_msg) (ceHs env) cid inp (svClock sv) of
        (err, cs, inp, sent) \<Rightarrow>
          (let sv = sv\<lparr>svClock := cs, svOut := svOut sv @ map (Pair cn) sent\<rparr>
           in case err of
                None \<Rightarrow> (None, inp, sv)
              | Some e \<Rightarrow> (Some e, inp, on_session (RemoveClient cid) sv)))"

text \<open>Step 5 up to the read loop, which first installs the write function. \<^verbatim>\<open>ceOrder\<close> orders the list.\<close>

definition enter_phase :: "conn_env \<Rightarrow> conn \<Rightarrow> ref \<Rightarrow> i64 \<Rightarrow> server \<Rightarrow> server" where
  "enter_phase env cn r port sv =
     (case mSession (svMgr sv) of
        None \<Rightarrow> sv
      | Some s \<Rightarrow>
          (let c = store s ! r;
               cid = cID c;
               sv = sv\<lparr>svStream := sm_AddClient cid
                   (\<lparr>IP = ceIP env, Port = sint port\<rparr>, cChannelAssign c) (svStream sv)\<rparr>;
               sv = snd (sendTCPMessage cn (ceLatencyErr env) (latency_msg (GlobalDelay (svLatency sv))) sv);
               sv = snd (sendTCPMessage cn (ceListErr env)
                   (ClientListM \<lparr>clType = MsgClientList, clClients = ClientList (ceOrder env) s\<rparr>) sv);
               sv = sv\<lparr>svUi := svUi sv @ [UiJoin cid, UiUpdate]\<rparr>
           in on_session (SetWriteFunc r cn) sv))"

section \<open>The read loop\<close>

text \<open>The inputs of one iteration: the time, the clock for a reply, the outcome of a write, a map order.\<close>

record msg_env =
  meNow :: go_time
  meRecvTs :: i64
  meWriteErr :: "io_error option"
  meOrder :: "string list"

text \<open>One message. \<open>None\<close> is the panic of a nil frame-size setter, which \<^verbatim>\<open>main.go\<close> rules out.\<close>

definition handle_message ::
  "(byte list \<Rightarrow> json option) \<Rightarrow> msg_env \<Rightarrow> conn \<Rightarrow> ref \<Rightarrow> string \<Rightarrow> byte list \<Rightarrow> server \<Rightarrow> server option" where
  "handle_message scan env cn r cid msg sv =
     (case decode_bytes scan dec_tcp_message msg of
        Inl _ \<Rightarrow> Some sv
      | Inr envelope \<Rightarrow>
          (let t = tmType envelope
           in if t = MsgHeartbeat then Some (on_session (UpdateHeartbeat r (meNow env)) sv)
              else if t = MsgJitterReport
              then (case decode_bytes scan dec_jitter_report_msg msg of
                      Inl _ \<Rightarrow> Some sv
                    | Inr report \<Rightarrow>
                        (let sv = on_session (SetJitter r (jiP95Ms report)) sv
                         in case ReportJitter cid (jiP95Ms report) (meNow env) (svLatency sv) of
                              None \<Rightarrow> None
                            | Some (le, es) \<Rightarrow> Some (apply_effects (meOrder env) es (sv\<lparr>svLatency := le\<rparr>))))
              else if t = MsgClockSyncReply
              then (case decode_bytes scan dec_clock_sync_reply_msg msg of
                      Inl _ \<Rightarrow> Some sv
                    | Inr reply \<Rightarrow>
                        (case ProcessPeriodicReply cid (meRecvTs env) (meNow env) (meWriteErr env) reply (svClock sv) of
                           (err, cs, sent) \<Rightarrow> Some (sv\<lparr>svClock := cs, svOut := svOut sv @ map (Pair cn) sent\<rparr>)))
              else if t = MsgAppStateChange
              then (case decode_bytes scan dec_app_state_change_msg msg of
                      Inl _ \<Rightarrow> Some sv
                    | Inr stateMsg \<Rightarrow> Some (on_session (SetAppState r (asState stateMsg)) sv))
              else Some sv))"

text \<open>The periodic probe of the connection's ticker, through the write function of the loop.\<close>

definition sync_tick :: "i64 \<Rightarrow> io_error option \<Rightarrow> conn \<Rightarrow> string \<Rightarrow> server \<Rightarrow> server" where
  "sync_tick now werr cn cid sv =
     (case SendPeriodicProbe cid now werr (svClock sv) of
        (_, sent) \<Rightarrow> sv\<lparr>svOut := svOut sv @ map (Pair cn) sent\<rparr>)"

text \<open>After the loop.\<close>

definition cleanup :: "string list \<Rightarrow> string \<Rightarrow> server \<Rightarrow> server" where
  "cleanup ks cid sv =
     (let sv = on_session (RemoveClient cid) sv;
          sv = sv\<lparr>svStream := sm_RemoveClient cid (svStream sv)\<rparr>;
          sv = sv\<lparr>svClock := cs_RemoveClient cid (svClock sv)\<rparr>;
          (le, es) = le_RemoveClient cid (svLatency sv);
          sv = apply_effects ks es (sv\<lparr>svLatency := le\<rparr>)
      in sv\<lparr>svUi := svUi sv @ [UiLeave cid, UiUpdate]\<rparr>)"

section \<open>The loop and the whole connection\<close>

lemma readTCPMessage_shrinks:
  assumes "readTCPMessage c = (Inr m, c')"
  shows "length (stream c') + 4 \<le> length (stream c)" and "endErr c' = endErr c"
  using readTCPMessage_bytes [of c] assms
  by (auto simp: message_bytes_def read_bytes_def split: if_splits)

text \<open>
  \<^verbatim>\<open>clientReadLoop\<close>: message \<open>i\<close> is handled with the inputs \<open>envs i\<close>, after the other goroutines did
  \<open>others i\<close> to the server while the loop waited for it. The result is the error that ended the loop.
\<close>

function clientReadLoop ::
  "(byte list \<Rightarrow> json option) \<Rightarrow> (nat \<Rightarrow> msg_env) \<Rightarrow> (nat \<Rightarrow> server \<Rightarrow> server) \<Rightarrow> nat \<Rightarrow>
   conn \<Rightarrow> ref \<Rightarrow> string \<Rightarrow> inconn \<Rightarrow> server \<Rightarrow> (frame_error \<times> inconn \<times> server) option" where
  "clientReadLoop scan envs others i cn r cid inp sv =
     (let sv = others i sv
      in case readTCPMessage inp of
           (Inl e, inp) \<Rightarrow> Some (e, inp, sv)
         | (Inr msg, inp) \<Rightarrow>
             (case handle_message scan (envs i) cn r cid msg sv of
                None \<Rightarrow> None
              | Some sv \<Rightarrow> clientReadLoop scan envs others (Suc i) cn r cid inp sv))"
  by pat_completeness auto
termination
  by (relation "measure (\<lambda>(scan, envs, others, i, cn, r, cid, inp, sv). length (stream inp))")
    (auto dest!: readTCPMessage_shrinks(1) [OF sym])

declare clientReadLoop.simps [simp del]

datatype conn_end =
    NotJoined join_failure
  | NotSynced hs_error
  | Disconnected frame_error

definition client_id :: "ref \<Rightarrow> server \<Rightarrow> string" where
  "client_id r sv = cID (store (cur sv) ! r)"

definition handleConnection ::
  "(byte list \<Rightarrow> json option) \<Rightarrow> conn_env \<Rightarrow> (nat \<Rightarrow> msg_env) \<Rightarrow> (nat \<Rightarrow> server \<Rightarrow> server) \<Rightarrow>
   conn \<Rightarrow> inconn \<Rightarrow> server \<Rightarrow> (conn_end \<times> inconn \<times> server) option" where
  "handleConnection scan env envs others cn inp sv =
     (case join_phase scan env cn inp sv of
        (Inl f, inp, sv) \<Rightarrow> Some (NotJoined f, inp, sv)
      | (Inr (r, port), inp, sv) \<Rightarrow>
          (let cid = client_id r sv
           in case handshake_phase scan env cn cid inp sv of
                (Some e, inp, sv) \<Rightarrow> Some (NotSynced e, inp, sv)
              | (None, inp, sv) \<Rightarrow>
                  (case clientReadLoop scan envs others 0 cn r cid inp (enter_phase env cn r port sv) of
                     None \<Rightarrow> None
                   | Some (e, inp, sv) \<Rightarrow> Some (Disconnected e, inp, cleanup (ceLeaveOrder env) cid sv))))"


section \<open>Start-up\<close>

text \<open>The state \<^verbatim>\<open>main\<close> hands to the servers: a fresh session, empty components, the callbacks installed.\<close>

definition start_server :: "session \<Rightarrow> fl \<Rightarrow> i64 \<Rightarrow> server" where
  "start_server s captureLatencyMs udpPort =
     \<lparr>svMgr = NewManager\<lparr>mSession := Some s\<rparr>, svStream = StartReceiver sm_NewManager, svClock = NewClockSync,
      svLatency = SetLoopbackCompensation ''laptop_host'' captureLatencyMs (NewLatencyEqualizer True True),
      svUdpPort = udpPort, svPending = [], svOut = [], svUi = []\<rparr>"

end
