(* ===== verification/Control.thy ===== *)
theory Control
  imports Server
begin

text \<open>
  Lemmas and properties of the TCP server: what each operation of \<^verbatim>\<open>Server\<close> leaves unchanged, the
  invariant of the server and its preservation, and the behaviour of one connection: the join, the
  handling of one message, the loop, the cleanup and the whole of \<^verbatim>\<open>handleConnection\<close>.
\<close>

section \<open>Frames\<close>

lemma sendTCPMessage_frame [simp, frame_simps]:
  "svMgr (snd (sendTCPMessage cn w m sv)) = svMgr sv"
  "svStream (snd (sendTCPMessage cn w m sv)) = svStream sv"
  "svClock (snd (sendTCPMessage cn w m sv)) = svClock sv"
  "svLatency (snd (sendTCPMessage cn w m sv)) = svLatency sv"
  "svUdpPort (snd (sendTCPMessage cn w m sv)) = svUdpPort sv"
  "svPending (snd (sendTCPMessage cn w m sv)) = svPending sv"
  "svUi (snd (sendTCPMessage cn w m sv)) = svUi sv"
  by (simp_all add: sendTCPMessage_def split: sum.split option.split)

lemma on_session_frame [simp, frame_simps]:
  "svStream (on_session f sv) = svStream sv" "svClock (on_session f sv) = svClock sv"
  "svLatency (on_session f sv) = svLatency sv" "svUdpPort (on_session f sv) = svUdpPort sv"
  "svPending (on_session f sv) = svPending sv" "svOut (on_session f sv) = svOut sv"
  "svUi (on_session f sv) = svUi sv"
  "mSession (svMgr (on_session f sv)) = map_option f (mSession (svMgr sv))"
  "mStopped (svMgr (on_session f sv)) = mStopped (svMgr sv)"
  by (simp_all add: on_session_def split: option.split)

lemma cur_on_session [simp]: "mSession (svMgr sv) = Some s \<Longrightarrow> cur (on_session f sv) = f s"
  by (simp add: cur_def)

lemma cur_Some [simp]: "mSession (svMgr sv) = Some s \<Longrightarrow> cur sv = s"
  by (simp add: cur_def)

lemma BroadcastToAll_frame [simp, frame_simps]:
  "svMgr (BroadcastToAll ks m sv) = svMgr sv" "svStream (BroadcastToAll ks m sv) = svStream sv"
  "svClock (BroadcastToAll ks m sv) = svClock sv" "svLatency (BroadcastToAll ks m sv) = svLatency sv"
  "svUdpPort (BroadcastToAll ks m sv) = svUdpPort sv" "svOut (BroadcastToAll ks m sv) = svOut sv"
  "svUi (BroadcastToAll ks m sv) = svUi sv"
  by (simp_all add: BroadcastToAll_def split: option.split)

lemma fold_snoc: "fold (\<lambda>x acc. acc @ [f x]) xs acc = acc @ map f xs"
  by (induction xs arbitrary: acc) simp_all

lemma BroadcastToAll_pending:
  "mSession (svMgr sv) = Some s \<Longrightarrow>
   svPending (BroadcastToAll ks m sv) = svPending sv @ map (\<lambda>r. (r, m)) (visit ks s)"
  by (simp add: BroadcastToAll_def ForEachClient_def fold_snoc)

lemma setFrameSize_frame [simp, frame_simps]:
  "svClock (setFrameSize k n sv) = svClock sv" "svLatency (setFrameSize k n sv) = svLatency sv"
  "svUdpPort (setFrameSize k n sv) = svUdpPort sv" "svPending (setFrameSize k n sv) = svPending sv"
  "svOut (setFrameSize k n sv) = svOut sv" "svUi (setFrameSize k n sv) = svUi sv"
  "svStream (setFrameSize k n sv) = sm_SetFrameSize k n (svStream sv)"
  by (simp_all add: setFrameSize_def Let_def)

lemma run_pending_frame [simp, frame_simps]:
  "svMgr (run_pending i w sv) = svMgr sv" "svStream (run_pending i w sv) = svStream sv"
  "svClock (run_pending i w sv) = svClock sv" "svLatency (run_pending i w sv) = svLatency sv"
  "svUdpPort (run_pending i w sv) = svUdpPort sv" "svUi (run_pending i w sv) = svUi sv"
  by (simp_all add: run_pending_def Let_def split: prod.split option.split)

lemma apply_effects_Nil [simp]: "apply_effects ks [] sv = sv"
  by (simp add: apply_effects_def)

lemma apply_effects_Cons [simp]: "apply_effects ks (e # es) sv = apply_effects ks es (apply_effect ks e sv)"
  by (simp add: apply_effects_def)

lemma apply_effects_append [simp]:
  "apply_effects ks (es @ es') sv = apply_effects ks es' (apply_effects ks es sv)"
  by (simp add: apply_effects_def)

lemma apply_effect_frame [simp, frame_simps]:
  "svClock (apply_effect ks e sv) = svClock sv" "svLatency (apply_effect ks e sv) = svLatency sv"
  "svUdpPort (apply_effect ks e sv) = svUdpPort sv" "svOut (apply_effect ks e sv) = svOut sv"
  "svUi (apply_effect ks e sv) = svUi sv"
  by (cases e; simp)+

lemma apply_effects_frame [simp, frame_simps]:
  "svClock (apply_effects ks es sv) = svClock sv" "svLatency (apply_effects ks es sv) = svLatency sv"
  "svUdpPort (apply_effects ks es sv) = svUdpPort sv" "svOut (apply_effects ks es sv) = svOut sv"
  "svUi (apply_effects ks es sv) = svUi sv"
  by (induction es arbitrary: sv) simp_all

section \<open>The invariant\<close>

text \<open>Messages that \<^verbatim>\<open>json.Marshal\<close> accepts: every number in them is finite.\<close>

definition msg_ok :: "server_msg \<Rightarrow> bool" where
  "msg_ok m \<longleftrightarrow> (case enc_server_msg (exact_decimal F64) m of Inl _ \<Rightarrow> False | Inr _ \<Rightarrow> True)"

definition client_ok :: "client \<Rightarrow> bool" where
  "client_ok c \<longleftrightarrow> (\<exists>q. cP95Jitter c = Fin q)"

definition server_inv :: "server \<Rightarrow> bool" where
  "server_inv sv \<longleftrightarrow>
     (\<exists>s. mSession (svMgr sv) = Some s \<and> sess_inv s \<and> list_all client_ok (store s) \<and>
        list_all (\<lambda>(r, m). r < length (store s) \<and> msg_ok m) (svPending sv)) \<and>
     sm_inv (svStream sv) \<and> gm_wf (svClock sv) \<and> le_inv (svLatency sv) \<and>
     has_frameSetter (svLatency sv) \<and> has_broadcaster (svLatency sv) \<and>
     list_all (\<lambda>(cn, m). msg_ok m) (svOut sv)"

lemma msg_ok_simps [simp]:
  "msg_ok (JoinAccept a)" "msg_ok (JoinReject b)" "msg_ok (ClockSyncProbe c)" "msg_ok (ClockOffset d)"
  "msg_ok (ChannelAssign e)" "msg_ok (SetFrameSizeM f)" "msg_ok (SessionEnded g)"
  by (simp_all add: msg_ok_def enc_server_msg_def)

lemma msg_ok_wrapped [simp]:
  "msg_ok (probe_msg t)" "msg_ok (offset_msg o')" "msg_ok (reject_msg e)" "msg_ok (accept_msg k i p)"
  by (simp_all add: probe_msg_def offset_msg_def reject_msg_def accept_msg_def)

lemma msg_ok_latency [simp]: "msg_ok (latency_msg (Fin q))"
  by (simp add: msg_ok_def enc_server_msg_def latency_msg_def enc_set_global_latency_msg_def enc_float64_def)

lemma msg_ok_delay: "delay_ok d \<Longrightarrow> msg_ok (latency_msg d)"
  by (auto simp: delay_ok_def)

lemma enc_all_Inr: "(\<And>x. x \<in> set xs \<Longrightarrow> \<exists>j. f x = Inr j) \<Longrightarrow> \<exists>js. enc_all f xs = Inr js"
proof (induction xs)
  case (Cons x xs)
  then obtain j js where "f x = Inr j" "enc_all f xs = Inr js" by fastforce
  then show ?case by simp
qed simp

lemma msg_ok_list:
  assumes "list_all client_ok (store s)" and "set ks \<subseteq> sess_ids s" and "sess_inv s"
  shows "msg_ok (ClientListM \<lparr>clType = t, clClients = ClientList ks s\<rparr>)"
proof -
  have "\<exists>j. enc_client_info (exact_decimal F64) ci = Inr j" if ci: "ci \<in> set (ClientList ks s)" for ci
  proof -
    obtain k where k: "k \<in> set ks" "ci = Info (store s ! the (gm_get (sClients s) k))"
      using ci by (auto simp: ClientList_def visit_def)
    then have "k \<in> sess_ids s" using assms(2) by blast
    then obtain r where r: "gm_get (sClients s) k = Some r" by (auto simp: sess_ids_iff)
    then have "r < length (store s)" using assms(3) by (simp add: sess_inv_def)
    then have "client_ok (store s ! r)" using assms(1) by (simp add: list_all_length)
    then show ?thesis using k r by (auto simp: client_ok_def Info_def enc_client_info_def enc_float64_def)
  qed
  then obtain js where "enc_all (enc_client_info (exact_decimal F64)) (ClientList ks s) = Inr js"
    using enc_all_Inr by blast
  then show ?thesis by (simp add: msg_ok_def enc_server_msg_def enc_client_list_msg_def)
qed


section \<open>The invariant is preserved\<close>

lemma server_invE:
  assumes "server_inv sv"
  obtains s where "mSession (svMgr sv) = Some s" "cur sv = s" "sess_inv s" "list_all client_ok (store s)"
    "\<And>r m. (r, m) \<in> set (svPending sv) \<Longrightarrow> r < length (store s) \<and> msg_ok m"
    "sm_inv (svStream sv)" "gm_wf (svClock sv)" "le_inv (svLatency sv)"
    "has_frameSetter (svLatency sv)" "has_broadcaster (svLatency sv)"
proof -
  obtain s where "mSession (svMgr sv) = Some s" "sess_inv s" "list_all client_ok (store s)"
    "list_all (\<lambda>(r, m). r < length (store s) \<and> msg_ok m) (svPending sv)"
    using assms by (auto simp: server_inv_def)
  then show thesis using assms by (intro that [of s]) (auto simp: server_inv_def list_all_iff)
qed

lemma server_inv_on_session [inv_intros]:
  assumes "server_inv sv"
    and "\<And>s. sess_inv s \<Longrightarrow> list_all client_ok (store s) \<Longrightarrow>
      sess_inv (f s) \<and> list_all client_ok (store (f s)) \<and> length (store s) \<le> length (store (f s))"
  shows "server_inv (on_session f sv)"
  using assms unfolding server_inv_def by (fastforce simp: list_all_iff)

lemma server_inv_stream [inv_intros]: "server_inv sv \<Longrightarrow> sm_inv m \<Longrightarrow> server_inv (sv\<lparr>svStream := m\<rparr>)"
  by (simp add: server_inv_def)

lemma server_inv_clock [inv_intros]: "server_inv sv \<Longrightarrow> gm_wf c \<Longrightarrow> server_inv (sv\<lparr>svClock := c\<rparr>)"
  by (simp add: server_inv_def)

lemma server_inv_latency [inv_intros]:
  "server_inv sv \<Longrightarrow> le_inv le \<Longrightarrow> has_frameSetter le \<Longrightarrow> has_broadcaster le \<Longrightarrow>
   server_inv (sv\<lparr>svLatency := le\<rparr>)"
  by (simp add: server_inv_def)

lemma server_inv_ui [simp]: "server_inv (sv\<lparr>svUi := u\<rparr>) = server_inv sv"
  by (simp add: server_inv_def)

lemma server_inv_out [inv_intros]:
  "server_inv sv \<Longrightarrow> list_all msg_ok ms \<Longrightarrow> server_inv (sv\<lparr>svOut := svOut sv @ map (Pair cn) ms\<rparr>)"
  by (auto simp: server_inv_def list_all_iff)

text \<open>A message that marshals is written iff the write succeeds; another one is not written.\<close>

lemma sendTCPMessage_ok:
  "msg_ok m \<Longrightarrow> sendTCPMessage cn w m sv =
     (case w of Some e \<Rightarrow> (Some (WriteErr e), sv) | None \<Rightarrow> (None, sv\<lparr>svOut := svOut sv @ [(cn, m)]\<rparr>))"
  by (auto simp: sendTCPMessage_def msg_ok_def split: sum.splits option.split)

lemma sendTCPMessage_bad: "\<not> msg_ok m \<Longrightarrow> snd (sendTCPMessage cn w m sv) = sv"
  by (auto simp: sendTCPMessage_def msg_ok_def split: sum.splits)

lemma server_inv_send [inv_intros]: "server_inv sv \<Longrightarrow> server_inv (snd (sendTCPMessage cn w m sv))"
proof (cases "msg_ok m")
  case True
  assume "server_inv sv"
  then show ?thesis
    using True server_inv_out [of sv "[m]" cn] by (cases w) (simp_all add: sendTCPMessage_ok)
next
  case False
  then show "server_inv sv \<Longrightarrow> ?thesis" by (simp add: sendTCPMessage_bad)
qed

lemma list_all_update: "list_all P xs \<Longrightarrow> P x \<Longrightarrow> list_all P (xs[i := x])"
  by (auto simp: list_all_iff dest: set_update_subset_insert [THEN subsetD])

lemma upd_client_ok [inv_intros]:
  assumes "list_all client_ok (store s)" and "\<And>c. client_ok c \<Longrightarrow> client_ok (f c)"
  shows "list_all client_ok (store (upd_client r f s))"
proof (cases "r < length (store s)")
  case True
  then have "client_ok (store s ! r)" using assms(1) by (simp add: list_all_length)
  then show ?thesis using assms by (simp add: upd_client_def list_all_update)
next
  case False
  then show ?thesis using assms(1) by (simp add: upd_client_def list_update_beyond)
qed

lemma server_inv_upd_client [inv_intros]:
  assumes "server_inv sv" and "\<And>c. cID (f c) = cID c" and "\<And>c. client_ok c \<Longrightarrow> client_ok (f c)"
  shows "server_inv (on_session (upd_client r f) sv)"
  using assms(1) by (rule server_inv_on_session) (auto intro: sess_inv_upd upd_client_ok assms(2,3))

lemmas client_methods = UpdateHeartbeat_def SetJitter_def cl_SetChannel_def cl_SetFrameSize_def
  SetAppState_def SetWriteFunc_def

lemma server_inv_methods [inv_intros]:
  assumes "server_inv sv"
  shows "server_inv (on_session (UpdateHeartbeat r now) sv)" "server_inv (on_session (SetJitter r (Fin q)) sv)"
    "server_inv (on_session (cl_SetChannel r ch) sv)" "server_inv (on_session (cl_SetFrameSize r n) sv)"
    "server_inv (on_session (SetAppState r st) sv)" "server_inv (on_session (SetWriteFunc r cn) sv)"
  unfolding client_methods using assms by (auto intro!: server_inv_upd_client simp: client_ok_def)

lemma server_inv_RemoveClient [inv_intros]: "server_inv sv \<Longrightarrow> server_inv (on_session (RemoveClient k) sv)"
  by (rule server_inv_on_session) (auto intro: sess_inv_RemoveClient)

lemma server_inv_Broadcast [inv_intros]:
  assumes "server_inv sv" and "msg_ok m" and "set ks \<subseteq> sess_ids (cur sv)"
  shows "server_inv (BroadcastToAll ks m sv)"
proof -
  obtain s where s: "mSession (svMgr sv) = Some s" "cur sv = s" "sess_inv s" using assms(1) by (rule server_invE)
  have "r < length (store s)" if r: "r \<in> set (visit ks s)" for r
  proof -
    obtain k where k: "k \<in> set ks" "r = the (gm_get (sClients s) k)" using r by (auto simp: visit_def)
    then have "k \<in> sess_ids s" using assms(3) s(2) by blast
    then obtain r' where "gm_get (sClients s) k = Some r'" by (auto simp: sess_ids_iff)
    then show ?thesis using k(2) s(3) by (simp add: sess_inv_def)
  qed
  then have "list_all (\<lambda>(r, m). r < length (store s) \<and> msg_ok m) (map (\<lambda>r. (r, m)) (visit ks s))"
    using assms(2) by (auto simp: list_all_iff)
  then show ?thesis using assms(1) s(1) by (auto simp: server_inv_def BroadcastToAll_pending)
qed

lemma server_inv_setFrameSize [inv_intros]:
  assumes "server_inv sv" shows "server_inv (setFrameSize k n sv)"
proof -
  have "server_inv (sv\<lparr>svStream := sm_SetFrameSize k n (svStream sv)\<rparr>)"
    using assms by (auto intro!: server_inv_stream sm_inv_ops elim: server_invE)
  then have "server_inv (on_session (\<lambda>s. case GetClient k s of None \<Rightarrow> s | Some r \<Rightarrow> cl_SetFrameSize r n s)
      (sv\<lparr>svStream := sm_SetFrameSize k n (svStream sv)\<rparr>))"
    unfolding client_methods
    by (rule server_inv_on_session) (auto intro: sess_inv_upd upd_client_ok simp: client_ok_def split: option.split)
  then show ?thesis by (simp add: setFrameSize_def Let_def)
qed

lemma cur_setFrameSize [simp]: "sClients (cur (setFrameSize k n sv)) = sClients (cur sv)"
  by (auto simp: setFrameSize_def Let_def on_session_def cur_def cl_SetFrameSize_def split: option.split)

lemma sess_ids_setFrameSize [simp]: "sess_ids (cur (setFrameSize k n sv)) = sess_ids (cur sv)"
  by (simp add: sess_ids_def)

lemma cur_BroadcastToAll [simp]: "cur (BroadcastToAll ks m sv) = cur sv"
  by (simp add: cur_def)

definition effects_ok :: "le_effect list \<Rightarrow> bool" where
  "effects_ok es \<longleftrightarrow> list_all (\<lambda>e. case e of Broadcast d \<Rightarrow> delay_ok d | FrameSize k n \<Rightarrow> True) es"

lemma server_inv_effects [inv_intros]:
  "server_inv sv \<Longrightarrow> effects_ok es \<Longrightarrow> set ks \<subseteq> sess_ids (cur sv) \<Longrightarrow> server_inv (apply_effects ks es sv)"
proof (induction es arbitrary: sv)
  case (Cons e es)
  have "server_inv (apply_effect ks e sv)" "sess_ids (cur (apply_effect ks e sv)) = sess_ids (cur sv)"
    using Cons.prems by (cases e; auto simp: effects_ok_def intro!: inv_intros msg_ok_delay)+
  then show ?case using Cons by (simp add: effects_ok_def)
qed simp

lemma recalculate_effects_ok: "le_inv le \<Longrightarrow> effects_ok (snd (recalculate le))"
  using recalculate_inv [of le] by (simp add: recalculate_effects effects_ok_def le_inv_def)

lemma ReportJitter_ok:
  assumes "le_inv le" and "has_frameSetter le" and "has_broadcaster le"
  obtains le' es where "ReportJitter k p now le = Some (le', es)" "le_inv le'" "has_frameSetter le'"
    "has_broadcaster le'" "effects_ok es"
    "reports le' = gm_put k \<lparr>P95Ms = p, UpdatedAt = now\<rparr> (reports le)"
    "list_all (\<lambda>e. case e of Broadcast d \<Rightarrow> d = globalDelay le' | FrameSize j n \<Rightarrow> j = k) es"
proof -
  obtain le' es where r: "ReportJitter k p now le = Some (le', es)" using ReportJitter_total [OF assms(2)] by blast
  define le1 where "le1 = le\<lparr>reports := gm_put k \<lparr>P95Ms = p, UpdatedAt = now\<rparr> (reports le)\<rparr>"
  have le1: "le_inv le1" "has_frameSetter le1" "has_broadcaster le1" using assms by (simp_all add: le_inv_def le1_def)
  have es: "effects_ok es \<and> list_all (\<lambda>e. case e of Broadcast d \<Rightarrow> d = globalDelay le' | FrameSize j n \<Rightarrow> j = k) es"
    using r recalculate_effects_ok [OF le1(1)] recalculate_effects [OF le1(1)]
    by (cases rule: ReportJitter_cases) (auto simp: le1_def [symmetric] effects_ok_def list_all_iff)
  have "has_frameSetter le' \<and> has_broadcaster le'"
    using r le1 by (cases rule: ReportJitter_cases) (auto simp: le1_def [symmetric] frame_simps)
  then show thesis
    using that [OF r ReportJitter_inv [OF assms(1) r]] ReportJitter_reports [OF r] es by blast
qed

lemma le_RemoveClient_ok:
  assumes "le_inv le"
  shows "effects_ok (snd (le_RemoveClient k le))"
    "reports (fst (le_RemoveClient k le)) = gm_del k (reports le)"
    "has_frameSetter (fst (le_RemoveClient k le)) = has_frameSetter le"
    "has_broadcaster (fst (le_RemoveClient k le)) = has_broadcaster le"
    "list_all (\<lambda>e. case e of Broadcast d \<Rightarrow> d = globalDelay (fst (le_RemoveClient k le)) | FrameSize j n \<Rightarrow> False)
       (snd (le_RemoveClient k le))"
proof -
  have inv: "le_inv (le\<lparr>reports := gm_del k (reports le)\<rparr>)" using assms by (simp add: le_inv_def)
  then show "effects_ok (snd (le_RemoveClient k le))" by (simp add: le_RemoveClient_def recalculate_effects_ok)
  show "list_all (\<lambda>e. case e of Broadcast d \<Rightarrow> d = globalDelay (fst (le_RemoveClient k le)) | FrameSize j n \<Rightarrow> False)
       (snd (le_RemoveClient k le))"
    using recalculate_effects [OF inv] by (simp add: le_RemoveClient_def)
qed (simp_all add: le_RemoveClient_def frame_simps)


section \<open>One message\<close>

text \<open>
  What the goroutine of client \<open>cid\<close>, with its object at \<open>r\<close>, may change: the data of that client.
\<close>

definition only_client :: "ref \<Rightarrow> string \<Rightarrow> server \<Rightarrow> server \<Rightarrow> bool" where
  "only_client r cid sv sv' \<longleftrightarrow>
     sClients (cur sv') = sClients (cur sv) \<and> length (store (cur sv')) = length (store (cur sv)) \<and>
     (\<forall>r'. r' \<noteq> r \<longrightarrow> store (cur sv') ! r' = store (cur sv) ! r') \<and>
     (\<forall>r'. cID (store (cur sv') ! r') = cID (store (cur sv) ! r') \<and>
        cChannelAssign (store (cur sv') ! r') = cChannelAssign (store (cur sv) ! r')) \<and>
     (\<forall>k. k \<noteq> cid \<longrightarrow>
        gm_get (smClients (svStream sv')) k = gm_get (smClients (svStream sv)) k \<and>
        gm_get (svClock sv') k = gm_get (svClock sv) k \<and>
        gm_get (reports (svLatency sv')) k = gm_get (reports (svLatency sv)) k) \<and>
     (\<forall>k. map_option csChannelAssign (gm_get (smClients (svStream sv')) k) =
        map_option csChannelAssign (gm_get (smClients (svStream sv)) k)) \<and>
     cs_ids (svClock sv') = cs_ids (svClock sv) \<and>
     le_ids (svLatency sv') \<subseteq> insert cid (le_ids (svLatency sv))"

lemma only_client_refl [intro, simp]: "only_client r cid sv sv"
  by (auto simp: only_client_def)

lemma only_client_trans:
  assumes "only_client r cid sv sv'" and "only_client r cid sv' sv''"
  shows "only_client r cid sv sv''"
  using assms unfolding only_client_def by (elim conjE) (intro conjI allI impI, simp_all, blast)

lemma only_client_sm_ids: "only_client r cid sv sv' \<Longrightarrow> sm_ids (svStream sv') = sm_ids (svStream sv)"
proof -
  assume "only_client r cid sv sv'"
  then have "(gm_get (smClients (svStream sv')) k = None) = (gm_get (smClients (svStream sv)) k = None)" for k
    unfolding only_client_def by (metis option.map_disc_iff)
  then show ?thesis by (auto simp: sm_ids_def gm_get_None_iff)
qed

lemma only_client_upd:
  assumes "mSession (svMgr sv) = Some s" and "\<And>c. cID (f c) = cID c" and "\<And>c. cChannelAssign (f c) = cChannelAssign c"
  shows "only_client r cid sv (on_session (upd_client r f) sv)"
proof -
  have "store (upd_client r f s) ! r' = (if r' = r \<and> r < length (store s) then f (store s ! r) else store s ! r')" for r'
    by (cases "r < length (store s)") (auto simp: upd_client_def list_update_beyond nth_list_update)
  then show ?thesis using assms by (auto simp: only_client_def)
qed

lemma only_client_pending [simp]:
  "only_client r cid sv (sv'\<lparr>svPending := p\<rparr>) = only_client r cid sv sv'"
  "only_client r cid sv (sv'\<lparr>svOut := q\<rparr>) = only_client r cid sv sv'"
  "only_client r cid sv (sv'\<lparr>svUi := u\<rparr>) = only_client r cid sv sv'"
  by (simp_all add: only_client_def cur_def)

lemma only_client_Broadcast [simp]: "only_client r cid sv (BroadcastToAll ks m sv') = only_client r cid sv sv'"
  by (simp add: BroadcastToAll_def split: option.split)

lemma only_client_setFrameSize:
  assumes "mSession (svMgr sv) = Some s" and "GetClient cid s \<in> {None, Some r}"
  shows "only_client r cid sv (setFrameSize cid n sv)"
proof -
  let ?sv = "sv\<lparr>svStream := sm_SetFrameSize cid n (svStream sv)\<rparr>"
  have "only_client r cid sv ?sv"
    by (auto simp: only_client_def sm_SetFrameSize_def cur_def gm_get_upd option.map_comp comp_def)
  moreover have "only_client r cid ?sv (on_session (\<lambda>s. case GetClient cid s of None \<Rightarrow> s | Some r \<Rightarrow> cl_SetFrameSize r n s) ?sv)"
  proof (cases "GetClient cid s")
    case None
    then have "on_session (\<lambda>s. case GetClient cid s of None \<Rightarrow> s | Some r \<Rightarrow> cl_SetFrameSize r n s) ?sv = ?sv"
      using assms(1) by (simp add: on_session_def)
    then show ?thesis by simp
  next
    case (Some r')
    then have "on_session (\<lambda>s. case GetClient cid s of None \<Rightarrow> s | Some r \<Rightarrow> cl_SetFrameSize r n s) ?sv =
        on_session (cl_SetFrameSize r n) ?sv"
      using assms by (simp add: on_session_def)
    then show ?thesis unfolding cl_SetFrameSize_def using assms(1) by (simp add: only_client_upd)
  qed
  ultimately show ?thesis unfolding setFrameSize_def Let_def by (rule only_client_trans)
qed

lemma only_client_effects:
  assumes "mSession (svMgr sv) = Some s" and "GetClient cid s \<in> {None, Some r}"
    and "list_all (\<lambda>e. case e of Broadcast d \<Rightarrow> True | FrameSize j n \<Rightarrow> j = cid) es"
  shows "only_client r cid sv (apply_effects ks es sv)"
  using assms
proof (induction es arbitrary: sv s)
  case (Cons e es)
  let ?sv = "apply_effect ks e sv"
  have oc: "only_client r cid sv ?sv"
    using Cons.prems by (cases e) (auto intro: only_client_setFrameSize)
  obtain s' where s': "mSession (svMgr ?sv) = Some s'" 
    using Cons.prems(1) by (cases e) (auto simp: setFrameSize_def Let_def)
  have "sClients s' = sClients s" using oc Cons.prems(1) s' by (simp add: only_client_def)
  then have "only_client r cid ?sv (apply_effects ks es ?sv)"
    using Cons.IH [OF s'] Cons.prems(2,3) by (simp add: GetClient_def)
  with oc show ?case by (auto intro: only_client_trans)
qed simp


lemma ProcessPeriodicReply_frame:
  assumes "ProcessPeriodicReply cid rts now w reply cs = (err, cs', sent)"
  shows "gm_wf cs \<Longrightarrow> gm_wf cs'" "k \<noteq> cid \<Longrightarrow> gm_get cs' k = gm_get cs k" "cs_ids cs' = cs_ids cs" "list_all msg_ok sent"
proof -
  have "(cs' = cs \<or> (\<exists>cc cc'. gm_get cs cid = Some cc \<and> cs' = gm_put cid cc' cs)) \<and> list_all msg_ok sent"
    using assms by (auto simp: ProcessPeriodicReply_def Let_def split: option.splits if_splits)
  then show "gm_wf cs \<Longrightarrow> gm_wf cs'" "k \<noteq> cid \<Longrightarrow> gm_get cs' k = gm_get cs k" "cs_ids cs' = cs_ids cs" "list_all msg_ok sent"
    by (auto simp: gm_get_put cs_ids_def simp flip: gm_dom split: if_splits)
qed

lemma dec_jitter_finite:
  assumes "decode_bytes scan dec_jitter_report_msg b = Inr m" shows "\<exists>q. jiP95Ms m = Fin q"
proof -
  obtain j where "dec_jitter_report_msg j = Inr m" using assms by (auto simp: decode_bytes_def split: option.splits)
  then show ?thesis unfolding dec_jitter_report_msg_def
    by (rule decode_struct_keeps [rotated 2])
      (auto simp: set_string_def set_float64_def split: json.split fl.split)
qed

text \<open>The handling of any message: it succeeds, keeps the invariant, and stays within the client's data.\<close>

text \<open>What handling one message may do: the client's own data change, and messages go to its connection.\<close>

definition msg_effect :: "conn \<Rightarrow> nat \<Rightarrow> string \<Rightarrow> server \<Rightarrow> server option \<Rightarrow> bool" where
  "msg_effect cn r cid sv res \<longleftrightarrow>
     (\<exists>sv' ms. res = Some sv' \<and> server_inv sv' \<and> only_client r cid sv sv' \<and>
        svOut sv' = svOut sv @ map (Pair cn) ms \<and> svUi sv' = svUi sv \<and> svUdpPort sv' = svUdpPort sv)"

lemma msg_effect_same: "server_inv sv \<Longrightarrow> msg_effect cn r cid sv (Some sv)"
  unfolding msg_effect_def by (intro exI [of _ sv] exI [of _ "[]"]) simp

lemma msg_effect_upd:
  assumes "server_inv sv" and "\<And>c. cID (f c) = cID c" "\<And>c. cChannelAssign (f c) = cChannelAssign c"
    and "\<And>c. client_ok c \<Longrightarrow> client_ok (f c)"
  shows "msg_effect cn r cid sv (Some (on_session (upd_client r f) sv))"
proof -
  obtain s where "mSession (svMgr sv) = Some s" using assms(1) by (rule server_invE)
  then show ?thesis using assms unfolding msg_effect_def
    by (intro exI [of _ "on_session (upd_client r f) sv"] exI [of _ "[]"])
      (auto intro: only_client_upd server_inv_upd_client)
qed

lemma msg_effect_jitter:
  assumes inv: "server_inv sv" and own: "GetClient cid (cur sv) \<in> {None, Some r}"
    and order: "set order \<subseteq> sess_ids (cur sv)"
  shows "\<exists>le' es. ReportJitter cid (Fin q) now (svLatency sv) = Some (le', es) \<and>
    msg_effect cn r cid sv (Some (apply_effects order es ((on_session (SetJitter r (Fin q)) sv)\<lparr>svLatency := le'\<rparr>)))"
proof -
  obtain s where s: "mSession (svMgr sv) = Some s" "cur sv = s" using inv by (rule server_invE)
  let ?sv1 = "on_session (SetJitter r (Fin q)) sv"
  have inv1: "server_inv ?sv1" using inv by (rule server_inv_methods)
  have oc1: "only_client r cid sv ?sv1" unfolding SetJitter_def using s(1) by (rule only_client_upd) simp_all
  obtain le' es where r: "ReportJitter cid (Fin q) now (svLatency sv) = Some (le', es)" "le_inv le'"
    "has_frameSetter le'" "has_broadcaster le'" "effects_ok es"
    "reports le' = gm_put cid \<lparr>P95Ms = Fin q, UpdatedAt = now\<rparr> (reports (svLatency sv))"
    "list_all (\<lambda>e. case e of Broadcast d \<Rightarrow> d = globalDelay le' | FrameSize j n \<Rightarrow> j = cid) es"
    using ReportJitter_ok inv by (metis server_invE)
  let ?sv2 = "?sv1\<lparr>svLatency := le'\<rparr>"
  have s2: "mSession (svMgr ?sv2) = Some (SetJitter r (Fin q) s)" "cur ?sv2 = SetJitter r (Fin q) s"
    using s by (simp_all add: cur_def)
  have "server_inv (apply_effects order es ?sv2)"
    using server_inv_latency [OF inv1 r(2-4)] r(5) order s
    by (intro server_inv_effects) (simp_all add: cur_def sess_ids_def SetJitter_def)
  moreover have "only_client r cid ?sv1 ?sv2"
    using r(6) by (auto simp: only_client_def cur_def le_ids_def gm_get_put)
  moreover have "only_client r cid ?sv2 (apply_effects order es ?sv2)"
    using s2(1) own s(2) r(7)
    by (intro only_client_effects [OF s2(1)])
      (auto simp: GetClient_def SetJitter_def list_all_iff split: le_effect.splits)
  ultimately show ?thesis using oc1 unfolding r(1) msg_effect_def
    by (intro exI [of _ le'] exI [of _ es] conjI refl exI [of _ "apply_effects order es ?sv2"] exI [of _ "[]"])
      (auto intro: only_client_trans)
qed

lemma msg_effect_reply:
  assumes inv: "server_inv sv" and p: "ProcessPeriodicReply cid t4 now we reply (svClock sv) = (err, cs, sent)"
  shows "msg_effect cn r cid sv (Some (sv\<lparr>svClock := cs, svOut := svOut sv @ map (Pair cn) sent\<rparr>))"
proof -
  note f = ProcessPeriodicReply_frame [OF p]
  have "server_inv (sv\<lparr>svClock := cs\<rparr>)" using inv f(1) by (intro server_inv_clock) (auto simp: server_inv_def)
  then have "server_inv (sv\<lparr>svClock := cs, svOut := svOut sv @ map (Pair cn) sent\<rparr>)"
    using server_inv_out [OF _ f(4), of "sv\<lparr>svClock := cs\<rparr>" cn] by simp
  moreover have "only_client r cid sv (sv\<lparr>svClock := cs, svOut := svOut sv @ map (Pair cn) sent\<rparr>)"
    using f(2,3) by (auto simp: only_client_def cur_def)
  ultimately show ?thesis unfolding msg_effect_def by fastforce
qed

lemma handle_message_effect:
  assumes inv: "server_inv sv" and own: "GetClient cid (cur sv) \<in> {None, Some r}"
    and order: "set (meOrder env) \<subseteq> sess_ids (cur sv)"
  shows "\<exists>sv' ms. handle_message scan env cn r cid msg sv = Some sv' \<and> server_inv sv' \<and> only_client r cid sv sv' \<and>
    svOut sv' = svOut sv @ map (Pair cn) ms \<and> svUi sv' = svUi sv \<and> svUdpPort sv' = svUdpPort sv"
  unfolding msg_effect_def [symmetric]
proof (cases "decode_bytes scan dec_tcp_message msg")
  case (Inl e)
  then show "msg_effect cn r cid sv (handle_message scan env cn r cid msg sv)"
    by (simp add: handle_message_def msg_effect_same inv)
next
  case (Inr envelope)
  note hm = handle_message_def [of scan env cn r cid msg sv, unfolded Inr sum.case Let_def]
  consider "tmType envelope = MsgHeartbeat" | "tmType envelope = MsgJitterReport"
    | "tmType envelope = MsgClockSyncReply" | "tmType envelope = MsgAppStateChange"
    | "tmType envelope \<notin> {MsgHeartbeat, MsgJitterReport, MsgClockSyncReply, MsgAppStateChange}" by blast
  then show "msg_effect cn r cid sv (handle_message scan env cn r cid msg sv)"
  proof cases
    case 1
    then show ?thesis by (auto simp: hm UpdateHeartbeat_def client_ok_def intro!: msg_effect_upd [OF inv])
  next
    case 2
    show ?thesis
    proof (cases "decode_bytes scan dec_jitter_report_msg msg")
      case report: (Inr report)
      obtain q where "jiP95Ms report = Fin q" using dec_jitter_finite [OF report] by blast
      then show ?thesis
        using msg_effect_jitter [OF inv own order, of q "meNow env" cn] 2 report by (auto simp: hm msg_type_defs)
    qed (use 2 in \<open>simp add: hm msg_type_defs msg_effect_same inv\<close>)
  next
    case 3
    then show ?thesis
      by (auto simp: hm msg_type_defs msg_effect_same inv intro: msg_effect_reply split: sum.split prod.split)
  next
    case 4
    then show ?thesis
      by (auto simp: hm msg_type_defs msg_effect_same inv SetAppState_def client_ok_def intro!: msg_effect_upd split: sum.split)
  next
    case 5
    then show ?thesis by (simp add: hm msg_effect_same inv)
  qed
qed

section \<open>The phases of a connection\<close>

text \<open>What the phases before the loop leave alone.\<close>

definition quiet :: "conn \<Rightarrow> server \<Rightarrow> server \<Rightarrow> bool" where
  "quiet cn sv sv' \<longleftrightarrow>
     svLatency sv' = svLatency sv \<and> svUdpPort sv' = svUdpPort sv \<and> svPending sv' = svPending sv \<and>
     (\<exists>ms. svOut sv' = svOut sv @ map (Pair cn) ms)"

lemma quiet_refl [simp, intro]: "quiet cn sv sv"
  by (simp add: quiet_def)

lemma quiet_trans: "quiet cn sv sv' \<Longrightarrow> quiet cn sv' sv'' \<Longrightarrow> quiet cn sv sv''"
  unfolding quiet_def by (metis append.assoc map_append)

lemma quiet_send [simp]: "quiet cn sv (snd (sendTCPMessage cn w m sv))"
  by (cases "msg_ok m"; cases w)
    (auto simp: quiet_def sendTCPMessage_ok sendTCPMessage_bad intro: exI [of _ "[]"] exI [of _ "[m]"])

lemma quiet_on_session [simp]: "quiet cn sv (on_session f sv')  = quiet cn sv sv'"
  by (simp add: quiet_def)

lemma AddClient_Inr:
  assumes "AddClient token name platform cn rd now s = (Inr r, s')"
  obtains cid where "generateClientID rd = Some cid" "token = sToken s" "r = length (store s)"
    "store s' = store s @ [new_client cid name platform cn now]" "sClients s' = gm_put cid r (sClients s)"
    "sID s' = sID s" "sToken s' = sToken s"
proof -
  obtain cid where "generateClientID rd = Some cid" "token = sToken s"
    using assms by (auto simp: AddClient_def split: option.splits if_splits)
  then show thesis using assms by (intro that [of cid]) (auto simp: AddClient_def Let_def register_def)
qed

lemma AddClient_Inl: "AddClient token name platform cn rd now s = (Inl e, s') \<Longrightarrow> s' = s"
  by (auto simp: AddClient_def Let_def split: option.splits if_splits)

lemma AddClient_inv:
  assumes "sess_inv s" and "list_all client_ok (store s)" and "AddClient token name platform cn rd now s = (Inr r, s')"
  shows "sess_inv s' \<and> list_all client_ok (store s') \<and> length (store s) \<le> length (store s')"
  using assms(3)
proof (rule AddClient_Inr)
  fix cid
  assume a: "r = length (store s)" "store s' = store s @ [new_client cid name platform cn now]"
    "sClients s' = gm_put cid r (sClients s)"
  have "sess_inv (register cid (new_client cid name platform cn now) s)"
    by (rule sess_inv_register [OF assms(1)]) (simp add: new_client_def)
  then have "sess_inv s'" using a by (simp add: sess_inv_def)
  then show ?thesis using a assms(2) by (simp add: client_ok_def new_client_def)
qed

definition with_session :: "session \<Rightarrow> server \<Rightarrow> server" where
  "with_session s sv = sv\<lparr>svMgr := (svMgr sv)\<lparr>mSession := Some s\<rparr>\<rparr>"

lemma with_session_frame [simp]:
  "mSession (svMgr (with_session s sv)) = Some s" "svStream (with_session s sv) = svStream sv"
  "svClock (with_session s sv) = svClock sv" "svLatency (with_session s sv) = svLatency sv"
  "svUdpPort (with_session s sv) = svUdpPort sv" "svPending (with_session s sv) = svPending sv"
  "svOut (with_session s sv) = svOut sv" "svUi (with_session s sv) = svUi sv" "cur (with_session s sv) = s"
  by (simp_all add: with_session_def cur_def)

lemma server_inv_with_session:
  "server_inv sv \<Longrightarrow> sess_inv s \<and> list_all client_ok (store s) \<and> length (store (cur sv)) \<le> length (store s) \<Longrightarrow>
   server_inv (with_session s sv)"
  unfolding server_inv_def by (fastforce simp: list_all_iff)

text \<open>The three ways the join can go.\<close>

lemma join_phase_cases:
  assumes s: "mSession (svMgr sv) = Some s" and join: "join_phase scan env cn inp sv = (res, inp', sv')"
  obtains (early) f m where "res = Inl f" "\<And>e. f \<noteq> AcceptFailed e"
      "sv' = sv \<or> sv' = snd (sendTCPMessage cn (ceReplyErr env) m sv)"
  | (unaccepted) req :: join_request_msg and r s1 e where "res = Inl (AcceptFailed e)"
      "AddClient (jrToken req) (jrDeviceName req) (jrPlatform req) cn (ceRand env) (ceNow env) s = (Inr r, s1)"
      "sv' = on_session (RemoveClient (cID (store s1 ! r))) (with_session s1 sv)"
  | (joined) req :: join_request_msg and r s1 where "res = Inr (r, jrUDPPort req)" "ceReplyErr env = None"
      "AddClient (jrToken req) (jrDeviceName req) (jrPlatform req) cn (ceRand env) (ceNow env) s = (Inr r, s1)"
      "sv' = (with_session s1 sv)\<lparr>svOut := svOut sv @ [(cn, accept_msg (cID (store s1 ! r)) (sID s1) (svUdpPort sv))]\<rparr>"
proof -
  obtain msg inp1 where m: "readTCPMessage inp = (msg, inp1)" by force
  show thesis
  proof (cases msg)
    case (Inl e)
    then show thesis using join m by (intro early) (auto simp: join_phase_def)
  next
    case (Inr b)
    show thesis
    proof (cases "decode_bytes scan dec_join_request_msg b")
      case (Inl e)
      then show thesis using join m Inr by (intro early) (auto simp: join_phase_def)
    next
      case req: (Inr req)
      note j = join [unfolded join_phase_def m prod.case Inr sum.case req GetSession_def s option.case Let_def]
      show thesis
      proof (cases "jrType req = MsgJoinRequest")
        case False
        then show thesis using j by (intro early) auto
      next
        case True
        obtain a s1 where a: "AddClient (jrToken req) (jrDeviceName req) (jrPlatform req) cn (ceRand env) (ceNow env) s = (a, s1)"
          by force
        show thesis
        proof (cases a)
          case (Inl e)
          then show thesis using j a True by (intro early) (auto split: prod.splits)
        next
          case (Inr r)
          note add = a [unfolded Inr]
          show thesis
          proof (cases "ceReplyErr env")
            case None
            then show thesis
              using j True add by (intro joined [OF _ _ add]) (auto simp: sendTCPMessage_ok with_session_def)
          next
            case (Some e)
            then show thesis
              using j True add by (intro unaccepted [OF _ add]) (auto simp: sendTCPMessage_ok with_session_def)
          qed
        qed
      qed
    qed
  qed
qed

text \<open>A failed join leaves the registered clients as they were, up to the withdrawn new one.\<close>

lemma join_phase_Inl:
  assumes "server_inv sv" and "join_phase scan env cn inp sv = (Inl f, inp', sv')"
  shows "server_inv sv'" "quiet cn sv sv'" "svStream sv' = svStream sv" "svClock sv' = svClock sv" "svUi sv' = svUi sv"
    "svMgr sv' = svMgr sv \<or> (\<exists>cid c. generateClientID (ceRand env) = Some cid \<and> cID c = cid \<and>
       store (cur sv') = store (cur sv) @ [c] \<and>
       gm_get (sClients (cur sv')) = (gm_get (sClients (cur sv)))(cid := None))"
proof -
  obtain s where s: "mSession (svMgr sv) = Some s" "cur sv = s" "sess_inv s" "list_all client_ok (store s)"
    using assms(1) by (rule server_invE)
  have "server_inv sv' \<and> quiet cn sv sv' \<and> svStream sv' = svStream sv \<and> svClock sv' = svClock sv \<and>
    svUi sv' = svUi sv \<and> (svMgr sv' = svMgr sv \<or> (\<exists>cid c. generateClientID (ceRand env) = Some cid \<and> cID c = cid \<and>
       store (cur sv') = store (cur sv) @ [c] \<and>
       gm_get (sClients (cur sv')) = (gm_get (sClients (cur sv)))(cid := None)))"
    using s(1) assms(2)
  proof (cases rule: join_phase_cases)
    case (early f m)
    then show ?thesis using assms(1) by (auto intro: server_inv_send)
  next
    case (unaccepted req r s1 e)
    obtain cid where c: "generateClientID (ceRand env) = Some cid" "r = length (store s)"
      "store s1 = store s @ [new_client cid (jrDeviceName req) (jrPlatform req) cn (ceNow env)]"
      "sClients s1 = gm_put cid r (sClients s)"
      using unaccepted(2) by (rule AddClient_Inr)
    have "server_inv (with_session s1 sv)"
      using AddClient_inv [OF s(3,4) unaccepted(2)] s(2) assms(1) by (intro server_inv_with_session) simp_all
    then have "server_inv sv'" unfolding unaccepted(3) by (rule server_inv_RemoveClient)
    moreover have "quiet cn sv sv'" by (auto simp: unaccepted(3) quiet_def)
    ultimately show ?thesis
      using c s(2) unaccepted(3)
      by (intro conjI disjI2 exI [of _ cid] exI [of _ "new_client cid (jrDeviceName req) (jrPlatform req) cn (ceNow env)"])
        (auto simp: new_client_def gm_get_del gm_get_put)
  qed simp
  then show "server_inv sv'" "quiet cn sv sv'" "svStream sv' = svStream sv" "svClock sv' = svClock sv" "svUi sv' = svUi sv"
    "svMgr sv' = svMgr sv \<or> (\<exists>cid c. generateClientID (ceRand env) = Some cid \<and> cID c = cid \<and>
       store (cur sv') = store (cur sv) @ [c] \<and>
       gm_get (sClients (cur sv')) = (gm_get (sClients (cur sv)))(cid := None))"
    by blast+
qed

lemma join_phase_Inr:
  assumes "server_inv sv" and "join_phase scan env cn inp sv = (Inr (r, port), inp', sv')"
  obtains cid c where "server_inv sv'" "quiet cn sv sv'" "svStream sv' = svStream sv" "svClock sv' = svClock sv"
    "svUi sv' = svUi sv" "generateClientID (ceRand env) = Some cid" "cID c = cid" "r = length (store (cur sv))"
    "store (cur sv') = store (cur sv) @ [c]" "sClients (cur sv') = gm_put cid r (sClients (cur sv))"
    "client_id r sv' = cid"
proof -
  obtain s where s: "mSession (svMgr sv) = Some s" "cur sv = s" "sess_inv s" "list_all client_ok (store s)"
    using assms(1) by (rule server_invE)
  show thesis
    using s(1) assms(2)
  proof (cases rule: join_phase_cases)
    case (joined req r1 s1)
    then have [simp]: "r1 = r" by simp
    obtain cid where c: "generateClientID (ceRand env) = Some cid" "r = length (store s)"
      "store s1 = store s @ [new_client cid (jrDeviceName req) (jrPlatform req) cn (ceNow env)]"
      "sClients s1 = gm_put cid r (sClients s)"
      using joined(3) unfolding \<open>r1 = r\<close> by (rule AddClient_Inr)
    have inv: "server_inv (with_session s1 sv)"
      using AddClient_inv [OF s(3,4) joined(3)] s(2) assms(1) by (intro server_inv_with_session) simp_all
    have "server_inv sv'"
      using server_inv_out [OF inv, of "[accept_msg (cID (store s1 ! r)) (sID s1) (svUdpPort sv)]" cn] joined(4) by simp
    moreover have "quiet cn sv sv'"
      by (auto simp: joined(4) quiet_def intro!: exI [of _ "[accept_msg (cID (store s1 ! r)) (sID s1) (svUdpPort sv)]"])
    moreover have "cur sv' = s1" by (simp add: joined(4) cur_def)
    ultimately show ?thesis using c s(2) joined(4)
      by (intro that [of cid "new_client cid (jrDeviceName req) (jrPlatform req) cn (ceNow env)"])
        (simp_all add: client_id_def, simp_all add: new_client_def)
  qed simp_all
qed


lemma InitialHandshake_frame:
  assumes "InitialHandshake dec env cid conn cs = (err, cs', conn', sent)"
  shows "list_all msg_ok sent"
    "cs' = cs \<and> err \<noteq> None \<and> (\<forall>e. err \<noteq> Some (SendOffset e)) \<or>
     (\<exists>cc. cs' = store_clock cid cc cs) \<and> (err = None \<or> (\<exists>e. err = Some (SendOffset e)))"
proof -
  obtain r c s where run: "sync_rounds dec env [0..<InitialProbeRounds] conn [] [] = (r, c, s)"
    using prod_cases3 by blast
  have s: "list_all msg_ok s" using sync_rounds_outcome [OF run] by (cases r) (auto simp: list_all_iff)
  have no_offset: "e \<noteq> SendOffset x" if "sync_rounds dec env ks conn sent rs = (Inl e, c, s)" for e x ks conn sent rs c s
    using that
    by (induction dec env ks conn sent rs rule: sync_rounds.induct)
      (auto simp: Let_def split: option.splits sum.splits prod.splits)
  have no: "r \<noteq> Inl (SendOffset x)" for x
  proof
    assume "r = Inl (SendOffset x)"
    then show False using run no_offset by blast
  qed
  show "list_all msg_ok sent" "cs' = cs \<and> err \<noteq> None \<and> (\<forall>e. err \<noteq> Some (SendOffset e)) \<or>
     (\<exists>cc. cs' = store_clock cid cc cs) \<and> (err = None \<or> (\<exists>e. err = Some (SendOffset e)))"
    using assms s no run
    by (auto simp: InitialHandshake_def Let_def split: sum.splits list.splits prod.splits option.splits)
qed

lemma handshake_phase_effect:
  assumes "server_inv sv" and "handshake_phase scan env cn cid inp sv = (err, inp', sv')"
  shows "server_inv sv'" "quiet cn sv sv'" "svStream sv' = svStream sv" "svUi sv' = svUi sv"
    "cur sv' = (if err = None then cur sv else RemoveClient cid (cur sv))"
    "svClock sv' = svClock sv \<and> err \<noteq> None \<and> (\<forall>e. err \<noteq> Some (SendOffset e)) \<or>
     (\<exists>cc. svClock sv' = store_clock cid cc (svClock sv)) \<and> (err = None \<or> (\<exists>e. err = Some (SendOffset e)))"
proof -
  obtain s where s: "mSession (svMgr sv) = Some s" "cur sv = s" "gm_wf (svClock sv)" using assms(1) by (rule server_invE)
  obtain cs sent where h: "InitialHandshake (decode_bytes scan dec_clock_sync_reply_msg) (ceHs env) cid inp (svClock sv) =
      (err, cs, inp', sent)"
    using assms(2) by (auto simp: handshake_phase_def Let_def split: prod.splits option.splits)
  define sv1 where "sv1 = (sv\<lparr>svClock := cs\<rparr>)\<lparr>svOut := svOut (sv\<lparr>svClock := cs\<rparr>) @ map (Pair cn) sent\<rparr>"
  have sv': "sv' = (if err = None then sv1 else on_session (RemoveClient cid) sv1)"
    using assms(2) h by (auto simp: handshake_phase_def Let_def sv1_def split: option.splits)
  note f = InitialHandshake_frame [OF h]
  have "gm_wf cs" using f(2) s(3) by (auto simp: store_clock_def)
  then have "server_inv sv1"
    using f(1) assms(1) unfolding sv1_def by (intro server_inv_out server_inv_clock)
  then show "server_inv sv'" by (auto simp: sv' intro: server_inv_RemoveClient)
  have cur1: "mSession (svMgr sv1) = Some s" using s(1) by (simp add: sv1_def)
  then show "cur sv' = (if err = None then cur sv else RemoveClient cid (cur sv))" using s(2) by (simp add: sv')
  show "quiet cn sv sv'" "svStream sv' = svStream sv" "svUi sv' = svUi sv"
    by (auto simp: sv' sv1_def quiet_def)
  have "svClock sv' = cs" by (simp add: sv' sv1_def)
  then show "svClock sv' = svClock sv \<and> err \<noteq> None \<and> (\<forall>e. err \<noteq> Some (SendOffset e)) \<or>
     (\<exists>cc. svClock sv' = store_clock cid cc (svClock sv)) \<and> (err = None \<or> (\<exists>e. err = Some (SendOffset e)))"
    using f(2) by simp
qed

lemma enter_phase_effect:
  assumes "server_inv sv" and "set (ceOrder env) \<subseteq> sess_ids (cur sv)"
  shows "server_inv (enter_phase env cn r port sv)" "quiet cn sv (enter_phase env cn r port sv)"
    "cur (enter_phase env cn r port sv) = SetWriteFunc r cn (cur sv)"
    "svStream (enter_phase env cn r port sv) =
       sm_AddClient (client_id r sv) (\<lparr>IP = ceIP env, Port = sint port\<rparr>, cChannelAssign (store (cur sv) ! r)) (svStream sv)"
    "svClock (enter_phase env cn r port sv) = svClock sv"
    "svUi (enter_phase env cn r port sv) = svUi sv @ [UiJoin (client_id r sv), UiUpdate]"
proof -
  obtain s where s: "mSession (svMgr sv) = Some s" "cur sv = s" "sm_inv (svStream sv)" using assms(1) by (rule server_invE)
  define sv1 where "sv1 = sv\<lparr>svStream := sm_AddClient (client_id r sv)
    (\<lparr>IP = ceIP env, Port = sint port\<rparr>, cChannelAssign (store s ! r)) (svStream sv)\<rparr>"
  define sv2 where "sv2 = snd (sendTCPMessage cn (ceLatencyErr env) (latency_msg (GlobalDelay (svLatency sv1))) sv1)"
  define sv3 where "sv3 = snd (sendTCPMessage cn (ceListErr env)
    (ClientListM \<lparr>clType = MsgClientList, clClients = ClientList (ceOrder env) s\<rparr>) sv2)"
  have e: "enter_phase env cn r port sv =
      on_session (SetWriteFunc r cn) (sv3\<lparr>svUi := svUi sv3 @ [UiJoin (client_id r sv), UiUpdate]\<rparr>)"
    unfolding enter_phase_def s(1) option.case Let_def sv3_def sv2_def sv1_def client_id_def s(2) ..
  have "server_inv sv1" unfolding sv1_def using assms(1) s(3) by (intro server_inv_stream sm_inv_ops)
  then have "server_inv sv3" unfolding sv3_def sv2_def by (intro server_inv_send)
  then show "server_inv (enter_phase env cn r port sv)" unfolding e by (intro server_inv_methods) simp
  have m3: "svMgr sv3 = svMgr sv" by (simp add: sv3_def sv2_def sv1_def)
  show "cur (enter_phase env cn r port sv) = SetWriteFunc r cn (cur sv)"
    using s m3 by (simp add: e cur_def)
  have "quiet cn sv sv1" by (auto simp: sv1_def quiet_def)
  then have "quiet cn sv sv3" unfolding sv3_def sv2_def by (meson quiet_trans quiet_send)
  then show "quiet cn sv (enter_phase env cn r port sv)" by (auto simp: e quiet_def)
  show "svStream (enter_phase env cn r port sv) =
       sm_AddClient (client_id r sv) (\<lparr>IP = ceIP env, Port = sint port\<rparr>, cChannelAssign (store (cur sv) ! r)) (svStream sv)"
    "svClock (enter_phase env cn r port sv) = svClock sv"
    "svUi (enter_phase env cn r port sv) = svUi sv @ [UiJoin (client_id r sv), UiUpdate]"
    using s(2) by (simp_all add: e sv3_def sv2_def sv1_def)
qed

lemma broadcasts_frame:
  "list_all (\<lambda>e. case e of Broadcast d \<Rightarrow> P d | FrameSize j n \<Rightarrow> False) es \<Longrightarrow>
   svMgr (apply_effects ks es sv) = svMgr sv \<and> svStream (apply_effects ks es sv) = svStream sv"
  by (induction es arbitrary: sv) (auto split: le_effect.splits)

lemma cleanup_effect:
  assumes "server_inv sv" and "set ks \<subseteq> sess_ids (cur sv) - {cid}"
  shows "server_inv (cleanup ks cid sv)" "cur (cleanup ks cid sv) = RemoveClient cid (cur sv)"
    "svStream (cleanup ks cid sv) = sm_RemoveClient cid (svStream sv)"
    "svClock (cleanup ks cid sv) = cs_RemoveClient cid (svClock sv)"
    "svLatency (cleanup ks cid sv) = fst (le_RemoveClient cid (svLatency sv))"
    "svOut (cleanup ks cid sv) = svOut sv"
    "svUi (cleanup ks cid sv) = svUi sv @ [UiLeave cid, UiUpdate]"
proof -
  obtain s where s: "mSession (svMgr sv) = Some s" "cur sv = s" "sm_inv (svStream sv)" "gm_wf (svClock sv)"
    "le_inv (svLatency sv)" "has_frameSetter (svLatency sv)" "has_broadcaster (svLatency sv)" "sess_inv s"
    using assms(1) by (rule server_invE)
  obtain le es where r: "le_RemoveClient cid (svLatency sv) = (le, es)" by force
  note ok = le_RemoveClient_ok [OF s(5), of cid, unfolded r fst_conv snd_conv]
  have inv_le: "le_inv le" using le_RemoveClient_inv [OF s(5), of cid] by (simp add: r)
  define sv1 where "sv1 = ((on_session (RemoveClient cid) sv)\<lparr>svStream := sm_RemoveClient cid (svStream sv)\<rparr>)
    \<lparr>svClock := cs_RemoveClient cid (svClock sv)\<rparr>\<lparr>svLatency := le\<rparr>"
  have c: "cleanup ks cid sv =
      (apply_effects ks es sv1)\<lparr>svUi := svUi sv @ [UiLeave cid, UiUpdate]\<rparr>"
    by (simp add: cleanup_def Let_def sv1_def r)
  have inv1: "server_inv sv1"
    unfolding sv1_def using assms(1) s inv_le ok
    by (intro server_inv_latency server_inv_clock server_inv_stream server_inv_RemoveClient sm_inv_ops)
      (simp_all add: cs_RemoveClient_def)
  have m1: "mSession (svMgr sv1) = Some (RemoveClient cid s)" using s(1) by (simp add: sv1_def)
  note b = broadcasts_frame [OF ok(5), of ks sv1]
  have "set ks \<subseteq> sess_ids (cur sv1)"
    using assms(2) s(2,8) cur_Some [OF m1] by (simp add: sr.ids_remove)
  then show "server_inv (cleanup ks cid sv)" using inv1 ok(1) by (simp add: c server_inv_effects)
  show "cur (cleanup ks cid sv) = RemoveClient cid (cur sv)" using b m1 s(2) by (simp add: c cur_def)
  show "svStream (cleanup ks cid sv) = sm_RemoveClient cid (svStream sv)" using b by (simp add: c) (simp add: sv1_def)
  show "svClock (cleanup ks cid sv) = cs_RemoveClient cid (svClock sv)"
    "svLatency (cleanup ks cid sv) = fst (le_RemoveClient cid (svLatency sv))"
    "svOut (cleanup ks cid sv) = svOut sv" "svUi (cleanup ks cid sv) = svUi sv @ [UiLeave cid, UiUpdate]"
    by (simp_all add: c sv1_def r)
qed

lemma sync_tick_effect:
  assumes "server_inv sv"
  shows "server_inv (sync_tick now w cn cid sv)" "quiet cn sv (sync_tick now w cn cid sv)"
    "svMgr (sync_tick now w cn cid sv) = svMgr sv" "svStream (sync_tick now w cn cid sv) = svStream sv"
    "svClock (sync_tick now w cn cid sv) = svClock sv" "svUi (sync_tick now w cn cid sv) = svUi sv"
proof -
  obtain err sent where p: "SendPeriodicProbe cid now w (svClock sv) = (err, sent)" by force
  have "list_all msg_ok sent" using p by (auto simp: SendPeriodicProbe_def split: option.splits)
  then show "server_inv (sync_tick now w cn cid sv)"
    using assms server_inv_out by (simp add: sync_tick_def p)
  show "quiet cn sv (sync_tick now w cn cid sv)" by (auto simp: sync_tick_def p quiet_def)
qed (simp_all add: sync_tick_def split_beta)

lemma run_pending_inv [inv_intros]:
  assumes "server_inv sv" shows "server_inv (run_pending i w sv)"
proof (cases "i < length (svPending sv)")
  case True
  have sub: "set (remove_nth i (svPending sv)) \<subseteq> set (svPending sv)"
    by (auto simp: remove_nth_def dest: in_set_takeD in_set_dropD)
  obtain r m where rm: "svPending sv ! i = (r, m)" by force
  have "server_inv (sv\<lparr>svPending := remove_nth i (svPending sv)\<rparr>)"
    using assms sub unfolding server_inv_def list_all_iff by fastforce
  then show ?thesis
    using True rm by (auto simp: run_pending_def Let_def intro: server_inv_send split: option.split)
qed (simp add: run_pending_def assms)


section \<open>The read loop\<close>

text \<open>The handling of a list of messages, in order.\<close>

fun handle_all ::
  "(byte list \<Rightarrow> json option) \<Rightarrow> (nat \<Rightarrow> msg_env) \<Rightarrow> (nat \<Rightarrow> server \<Rightarrow> server) \<Rightarrow> nat \<Rightarrow>
   conn \<Rightarrow> ref \<Rightarrow> string \<Rightarrow> byte list list \<Rightarrow> server \<Rightarrow> server option" where
  "handle_all scan envs others i cn r cid [] sv = Some (others i sv)"
| "handle_all scan envs others i cn r cid (m # ms) sv =
     (case handle_message scan (envs i) cn r cid m (others i sv) of
        None \<Rightarrow> None
      | Some sv \<Rightarrow> handle_all scan envs others (Suc i) cn r cid ms sv)"

lemma readTCPMessage_frame:
  assumes "readTCPMessage c = (Inr m, c')" shows "stream c = EncodeTCPMessage m @ stream c' \<and> length m \<le> MaxMessage"
proof -
  let ?bs = "stream c"
  have r: "message_bytes ?bs (endErr c) = (Inr m, stream c')"
    using readTCPMessage_bytes [of c] assms by (simp add: prod_eq_iff)
  then have l: "4 \<le> length ?bs" "unat (DecodeTCPLength (take 4 ?bs)) \<le> length ?bs - 4"
    "unat (DecodeTCPLength (take 4 ?bs)) \<le> MaxMessage"
    "m = take (unat (DecodeTCPLength (take 4 ?bs))) (drop 4 ?bs)"
    "stream c' = drop (unat (DecodeTCPLength (take 4 ?bs))) (drop 4 ?bs)"
    by (auto simp: message_bytes_def read_bytes_def split: if_splits)
  have "of_nat (length m) = DecodeTCPLength (take 4 ?bs)" using l by (simp add: min_absorb2)
  then have "EncodeTCPMessage m = take 4 ?bs @ m" by (simp only: EncodeTCPMessage_eq be32_DecodeTCPLength [OF l(1)])
  moreover have "m @ stream c' = drop 4 ?bs" unfolding l(4,5) by (rule append_take_drop_id)
  ultimately have "EncodeTCPMessage m @ stream c' = take 4 ?bs @ drop 4 ?bs" by simp
  then have "?bs = EncodeTCPMessage m @ stream c'" by (simp only: append_take_drop_id)
  moreover have "length m \<le> MaxMessage" using l(3,4) by simp
  ultimately show ?thesis by blast
qed

lemma handle_message_total:
  assumes "has_frameSetter (svLatency sv)"
  shows "\<exists>sv'. handle_message scan env cn r cid msg sv = Some sv' \<and> has_frameSetter (svLatency sv')"
proof -
  have "\<exists>le es. ReportJitter cid q (meNow env) (svLatency sv) = Some (le, es) \<and> has_frameSetter le" for q
  proof -
    obtain le es where r: "ReportJitter cid q (meNow env) (svLatency sv) = Some (le, es)"
      using ReportJitter_total [OF assms] by blast
    then have "has_frameSetter le" using assms by (cases rule: ReportJitter_cases) (simp_all add: frame_simps)
    with r show ?thesis by blast
  qed
  note report = this
  show ?thesis
  proof (cases "decode_bytes scan dec_tcp_message msg")
    case (Inl e)
    then show ?thesis using assms by (simp add: handle_message_def)
  next
    case (Inr envelope)
    note hm = handle_message_def [of scan env cn r cid msg sv, unfolded Inr sum.case Let_def]
    show ?thesis
    proof (cases "tmType envelope = MsgJitterReport")
      case True
      show ?thesis
      proof (cases "decode_bytes scan dec_jitter_report_msg msg")
        case (Inl e)
        then show ?thesis using True assms by (simp add: hm msg_type_defs)
      next
        case (Inr m)
        obtain le es where "ReportJitter cid (jiP95Ms m) (meNow env) (svLatency sv) = Some (le, es)" "has_frameSetter le"
          using report by blast
        then show ?thesis using True Inr by (simp add: hm msg_type_defs)
      qed
    next
      case False
      then show ?thesis using assms by (auto simp: hm split: sum.split prod.split)
    qed
  qed
qed

lemma clientReadLoop_runs:
  assumes keep: "\<And>i sv. has_frameSetter (svLatency sv) \<Longrightarrow> has_frameSetter (svLatency (others i sv))"
    and "has_frameSetter (svLatency sv)"
  shows "\<exists>e inp' sv' ms. clientReadLoop scan envs others i cn r cid inp sv = Some (e, inp', sv') \<and>
    handle_all scan envs others i cn r cid ms sv = Some sv' \<and>
    (\<exists>rest. stream inp = concat (map EncodeTCPMessage ms) @ rest \<and> fst (message_bytes rest (endErr inp)) = Inl e)"
  using assms(2)
proof (induction inp arbitrary: i sv rule: measure_induct_rule [where f = "\<lambda>inp. length (stream inp)"])
  case (less inp)
  have fs: "has_frameSetter (svLatency (others i sv))" using keep less.prems by blast
  obtain res inp1 where r: "readTCPMessage inp = (res, inp1)" by force
  show ?case
  proof (cases res)
    case (Inl e)
    have "fst (message_bytes (stream inp) (endErr inp)) = Inl e"
      using readTCPMessage_bytes [of inp] r Inl by simp
    then show ?thesis using r Inl
      by (intro exI [of _ e] exI [of _ inp1] exI [of _ "others i sv"] exI [of _ "[]"])
        (simp add: clientReadLoop.simps [of scan envs others i cn r cid inp sv])
  next
    case (Inr m)
    obtain sv1 where h: "handle_message scan (envs i) cn r cid m (others i sv) = Some sv1" "has_frameSetter (svLatency sv1)"
      using handle_message_total [OF fs] by blast
    note s = readTCPMessage_shrinks [OF r [unfolded Inr]] and f = readTCPMessage_frame [OF r [unfolded Inr]]
    obtain e inp' sv' ms rest where IH: "clientReadLoop scan envs others (Suc i) cn r cid inp1 sv1 = Some (e, inp', sv')"
      "handle_all scan envs others (Suc i) cn r cid ms sv1 = Some sv'"
      "stream inp1 = concat (map EncodeTCPMessage ms) @ rest" "fst (message_bytes rest (endErr inp1)) = Inl e"
      using less.IH [of inp1 sv1 "Suc i"] s h(2) by auto
    then show ?thesis using r Inr h s f
      by (intro exI [of _ e] exI [of _ inp'] exI [of _ sv'] exI [of _ "m # ms"])
        (auto simp: clientReadLoop.simps [of scan envs others i cn r cid inp sv])
  qed
qed


section \<open>Properties\<close>

lemma start_server_inv [inv_intros]:
  "sess_inv s \<Longrightarrow> list_all client_ok (store s) \<Longrightarrow> server_inv (start_server s lat port)"
  using NewLatencyEqualizer_inv sm_NewManager_inv
  by (simp add: server_inv_def start_server_def NewManager_def SetLoopbackCompensation_inv StartReceiver_def
      NewClockSync_def) (simp add: sm_inv_def held_def SetLoopbackCompensation_def NewLatencyEqualizer_def)

lemma cur_start [simp]: "cur (start_server s lat port) = s" "mSession (svMgr (start_server s lat port)) = Some s"
  by (simp_all add: start_server_def NewManager_def cur_def)

text \<open>
  C12: a connection that does not present the session's token gets nothing but a rejection. Whatever
  bytes it sends, the handler returns; no component changes, no client is registered, and at most one
  message is written, to this connection, saying that it was rejected.
\<close>

theorem unauthenticated_rejected:
  assumes s: "mSession (svMgr sv) = Some s"
    and bad: "\<forall>b req. fst (readTCPMessage inp) = Inr b \<longrightarrow> decode_bytes scan dec_join_request_msg b = Inr req \<longrightarrow>
      jrToken req \<noteq> sToken s"
  shows "\<exists>f inp' ms. handleConnection scan env envs others cn inp sv =
      Some (NotJoined f, inp', sv\<lparr>svOut := svOut sv @ map (Pair cn) ms\<rparr>) \<and>
    (case ms of [] \<Rightarrow> True | m # ms' \<Rightarrow> ms' = [] \<and> (\<exists>reason. m = reject_msg reason))"
proof -
  obtain msg inp1 where m: "readTCPMessage inp = (msg, inp1)" by force
  have no: ?thesis if "join_phase scan env cn inp sv = (Inl f, inp1, sv)" for f
    using that by (intro exI [of _ f] exI [of _ inp1] exI [of _ "[]"]) (simp add: handleConnection_def)
  show ?thesis
  proof (cases msg)
    case (Inl e)
    then show ?thesis using m by (intro no [of "BadRead e"]) (simp add: join_phase_def)
  next
    case (Inr b)
    show ?thesis
    proof (cases "decode_bytes scan dec_join_request_msg b")
      case (Inl e)
      then show ?thesis using m Inr by (intro no [of "BadJson e"]) (simp add: join_phase_def)
    next
      case req: (Inr req)
      have tok: "jrToken req \<noteq> sToken s" using bad m Inr req by simp
      show ?thesis
      proof (cases "jrType req = MsgJoinRequest")
        case False
        then show ?thesis using m Inr req by (intro no [of "BadType (jrType req)"]) (simp add: join_phase_def)
      next
        case True
        let ?m = "reject_msg (reject_reason env ErrInvalidToken)"
        have "join_phase scan env cn inp sv =
            (Inl (Rejected ErrInvalidToken), inp1, snd (sendTCPMessage cn (ceReplyErr env) ?m sv))"
          using m Inr req True tok s by (simp add: join_phase_def GetSession_def AddClient_def)
        then show ?thesis
          by (intro exI [of _ "Rejected ErrInvalidToken"] exI [of _ inp1]
              exI [of _ "if ceReplyErr env = None then [?m] else []"])
            (auto simp: handleConnection_def sendTCPMessage_ok split: option.split)
      qed
    qed
  qed
qed

definition wit_req :: join_request_msg where
  "wit_req = \<lparr>jrType = MsgJoinRequest, jrToken = ''t'', jrDeviceName = ''tv'', jrPlatform = ''test'', jrUDPPort = 5004\<rparr>"

text \<open>A parser of three texts: byte 8 is a join request with the session's token, 9 one with another.\<close>

definition wit_text :: "byte list \<Rightarrow> json option" where
  "wit_text b =
     (if hd b = 8 then Some (enc_join_request_msg wit_req)
      else if hd b = 9 then Some (enc_join_request_msg (wit_req\<lparr>jrToken := ''u''\<rparr>))
      else Some (enc_clock_sync_reply_msg (wit_answer (unat (hd b)))))"

lemma dec_wit_req: "dec_join_request_msg (enc_join_request_msg req) = Inr req"
  by (simp add: enc_defs dec_defs decode_simps enc_int64_def)

definition wit_cenv :: conn_env where
  "wit_cenv =
     \<lparr>ceRand = Some [7], ceRandErr = '''', ceNow = 5, ceIP = [10, 0, 0, 1], ceReplyErr = None, ceHs = wit_env,
      ceLatencyErr = None, ceListErr = None, ceOrder = [''cli_07'', ''a''], ceLeaveOrder = [''a'']\<rparr>"

definition wit_sv :: server where
  "wit_sv = start_server sess1 (Fin 5) 8082"

lemma wit_sv_inv: "server_inv wit_sv"
  unfolding wit_sv_def
  by (rule start_server_inv [OF sess1_inv]) (simp add: sess1_def client_ok_def new_client_def)

lemma wit_sv_cur: "cur wit_sv = sess1" "mSession (svMgr wit_sv) = Some sess1"
  by (simp_all add: wit_sv_def)

theorem unauthenticated_rejected_witness:
  "\<exists>f inp' ms. handleConnection wit_text wit_cenv (\<lambda>_. undefined) (\<lambda>_ s. s) 3
      \<lparr>segments = [EncodeTCPMessage [9]], endErr = EOF\<rparr> wit_sv =
      Some (NotJoined f, inp', wit_sv\<lparr>svOut := svOut wit_sv @ map (Pair 3) ms\<rparr>) \<and>
    (case ms of [] \<Rightarrow> True | m # ms' \<Rightarrow> ms' = [] \<and> (\<exists>reason. m = reject_msg reason))"
proof (rule unauthenticated_rejected [OF wit_sv_cur(2)])
  obtain c' where c: "readTCPMessage \<lparr>segments = [EncodeTCPMessage [9]], endErr = EOF\<rparr> = (Inr [9], c')"
    using tcp.recv_frame [of "[9]" "\<lparr>segments = [EncodeTCPMessage [9]], endErr = EOF\<rparr>" "[]"]
    by (auto simp: stream_def MaxMessage_def)
  show "\<forall>b req. fst (readTCPMessage \<lparr>segments = [EncodeTCPMessage [9]], endErr = EOF\<rparr>) = Inr b \<longrightarrow>
      decode_bytes wit_text dec_join_request_msg b = Inr req \<longrightarrow> jrToken req \<noteq> sToken sess1"
    by (auto simp: c decode_bytes_def wit_text_def dec_wit_req wit_req_def sess1_def)
qed


text \<open>The three phases of a successful join, one by one.\<close>

lemma join_accepts:
  assumes inv: "server_inv sv" and s: "mSession (svMgr sv) = Some s"
    and req: "length b \<le> MaxMessage" "decode_bytes scan dec_join_request_msg b = Inr req"
      "jrType req = MsgJoinRequest" "jrToken req = sToken s"
    and rand: "generateClientID (ceRand env) = Some cid" and w: "ceReplyErr env = None"
    and input: "stream inp = EncodeTCPMessage b @ left"
    and c: "c = new_client cid (jrDeviceName req) (jrPlatform req) cn (ceNow env)"
  obtains inp1 s1 where "join_phase scan env cn inp sv = (Inr (length (store s), jrUDPPort req), inp1,
      (with_session s1 sv)\<lparr>svOut := svOut sv @ [(cn, accept_msg cid (sID s) (svUdpPort sv))]\<rparr>)"
    "stream inp1 = left" "store s1 = store s @ [c]" "sClients s1 = gm_put cid (length (store s)) (sClients s)"
    "sess_inv s1" "sess_ids s1 = insert cid (sess_ids s)"
proof -
  have si: "sess_inv s" using inv s by (auto simp: server_inv_def)
  have cid: "cID c = cid" by (simp add: c new_client_def)
  obtain s1 where s1: "AddClient (jrToken req) (jrDeviceName req) (jrPlatform req) cn (ceRand env) (ceNow env) s =
      (Inr (length (store s)), s1)" "store s1 = store s @ [c]" "sClients s1 = gm_put cid (length (store s)) (sClients s)" "sID s1 = sID s"
    using req(4) rand by (auto simp: AddClient_def Let_def register_def c)
  obtain inp1 where i1: "readTCPMessage inp = (Inr b, inp1)" "stream inp1 = left"
    using tcp.recv_frame [OF req(1) input] by auto
  have "join_phase scan env cn inp sv = (Inr (length (store s), jrUDPPort req), inp1,
      (with_session s1 sv)\<lparr>svOut := svOut sv @ [(cn, accept_msg cid (sID s) (svUdpPort sv))]\<rparr>)"
    using i1(1) req(2,3) s s1 cid w
    by (simp add: join_phase_def GetSession_def Let_def sendTCPMessage_ok with_session_def)
  moreover have "sess_inv s1" using si s1 cid sess_inv_register [OF si cid] by (simp add: sess_inv_def)
  moreover have "sess_ids s1 = insert cid (sess_ids s)" by (simp add: sess_ids_def s1)
  ultimately show ?thesis using i1(2) s1(2,3) that by blast
qed

lemma client_list_ids:
  assumes "sess_inv s" and "set order = sess_ids s"
  shows "map ciID (ClientList order s) = order"
proof -
  have "cID (store s ! the (gm_get (sClients s) k)) = k" if "k \<in> set order" for k
    using that assms by (auto simp: sess_ids_iff sess_inv_def)
  then show ?thesis by (simp add: ClientList_def visit_def Info_def map_idI)
qed

text \<open>The registrations and the messages of a client that is synchronised.\<close>

lemma enter_registers:
  assumes s: "mSession (svMgr sv) = Some s" and si: "sess_inv s" "list_all client_ok (store s)" "delay_ok (globalDelay (svLatency sv))"
    and r: "store s ! r = c" "cID c = cid" "cChannelAssign c = ChannelStereoMix" "r < length (store s)"
    and order: "set (ceOrder env) = sess_ids s" and w: "ceLatencyErr env = None" "ceListErr env = None"
  shows "enter_phase env cn r port sv = on_session (SetWriteFunc r cn) (sv\<lparr>
      svStream := sm_AddClient cid (\<lparr>IP = ceIP env, Port = sint port\<rparr>, ChannelStereoMix) (svStream sv),
      svOut := svOut sv @ [(cn, latency_msg (globalDelay (svLatency sv))),
        (cn, ClientListM \<lparr>clType = MsgClientList, clClients = ClientList (ceOrder env) s\<rparr>)],
      svUi := svUi sv @ [UiJoin cid, UiUpdate]\<rparr>)"
proof -
  have "msg_ok (ClientListM \<lparr>clType = MsgClientList, clClients = ClientList (ceOrder env) s\<rparr>)"
    using si(1,2) order by (intro msg_ok_list) simp_all
  then show ?thesis
    unfolding enter_phase_def s option.case Let_def
    using r si(3) w by (simp add: sendTCPMessage_ok msg_ok_delay GlobalDelay_def)
qed

text \<open>Joining and synchronising: what is sent so far, and the session and the clock table after it.\<close>

lemma join_then_sync:
  assumes inv: "server_inv sv" and s: "mSession (svMgr sv) = Some s"
    and req: "length b \<le> MaxMessage" "decode_bytes scan dec_join_request_msg b = Inr req"
      "jrType req = MsgJoinRequest" "jrToken req = sToken s"
    and rand: "generateClientID (ceRand env) = Some cid"
    and ans: "answers (decode_bytes scan dec_clock_sync_reply_msg) body ans [0..<InitialProbeRounds]"
    and writes: "ceReplyErr env = None" "\<forall>k \<le> InitialProbeRounds. writeErr (ceHs env) k = None"
    and input: "stream inp = EncodeTCPMessage b @ concat (map (\<lambda>k. EncodeTCPMessage (body k)) [0..<InitialProbeRounds]) @ rest"
    and c: "c = new_client cid (jrDeviceName req) (jrPlatform req) cn (ceNow env)"
  obtains inp1 s1 inp2 o' sv1 sv2 where
    "sv1 = (with_session s1 sv)\<lparr>svOut := svOut sv @ [(cn, accept_msg cid (sID s) (svUdpPort sv))]\<rparr>"
    "sv2 = sv1\<lparr>svClock := store_clock cid \<lparr>ccID = cid, OffsetUs = offset o', RTTUS = rtt o', LastSyncTime = endTime (ceHs env)\<rparr> (svClock sv),
      svOut := svOut sv1 @ map (Pair cn) (map (\<lambda>k. probe_msg (sendTs (ceHs env) k)) [0..<InitialProbeRounds] @ [offset_msg (offset o')])\<rparr>"
    "join_phase scan env cn inp sv = (Inr (length (store s), jrUDPPort req), inp1, sv1)"
    "handshake_phase scan env cn cid inp1 sv1 = (None, inp2, sv2)" "stream inp2 = rest"
    "store s1 = store s @ [c]" "sClients s1 = gm_put cid (length (store s)) (sClients s)"
    "sess_inv s1" "sess_ids s1 = insert cid (sess_ids s)"
proof -
  obtain inp1 s1 where j: "join_phase scan env cn inp sv = (Inr (length (store s), jrUDPPort req), inp1,
      (with_session s1 sv)\<lparr>svOut := svOut sv @ [(cn, accept_msg cid (sID s) (svUdpPort sv))]\<rparr>)"
    "stream inp1 = concat (map (\<lambda>k. EncodeTCPMessage (body k)) [0..<InitialProbeRounds]) @ rest"
    "store s1 = store s @ [c]" "sClients s1 = gm_put cid (length (store s)) (sClients s)"
    "sess_inv s1" "sess_ids s1 = insert cid (sess_ids s)"
    using inv s req rand writes(1) input c by (rule join_accepts)
  obtain inp2 o' where h: "InitialHandshake (decode_bytes scan dec_clock_sync_reply_msg) (ceHs env) cid inp1 (svClock sv) =
      (None, store_clock cid \<lparr>ccID = cid, OffsetUs = offset o', RTTUS = rtt o', LastSyncTime = endTime (ceHs env)\<rparr> (svClock sv),
       inp2, map (\<lambda>k. probe_msg (sendTs (ceHs env) k)) [0..<InitialProbeRounds] @ [offset_msg (offset o')])" "stream inp2 = rest"
    using handshake_run [OF ans writes(2) j(2), of cid "svClock sv"] by blast
  show ?thesis by (rule that [OF refl refl j(1) _ h(2) j(3-6)]) (simp add: handshake_phase_def h(1))
qed

text \<open>
  C11: the protocol of a successful join. A client that presents the token and answers the eight clock
  probes is sent, in this order and nothing else: the acceptance with its identifier and the UDP port,
  eight probes, its clock offset, the current global delay, and the list of all clients, itself
  included. It is then registered under that identifier in the session, with the clock component under
  the offset it was told, and with the stream manager at its own address and the port it asked for, for
  the stereo mix; every byte of its input so far has been consumed.
\<close>

theorem join_protocol:
  assumes inv: "server_inv sv" and s: "mSession (svMgr sv) = Some s"
    and req: "length b \<le> MaxMessage" "decode_bytes scan dec_join_request_msg b = Inr req"
      "jrType req = MsgJoinRequest" "jrToken req = sToken s"
    and rand: "generateClientID (ceRand env) = Some cid"
    and ans: "answers (decode_bytes scan dec_clock_sync_reply_msg) body ans [0..<InitialProbeRounds]"
    and writes: "ceReplyErr env = None" "\<forall>k \<le> InitialProbeRounds. writeErr (ceHs env) k = None"
      "ceLatencyErr env = None" "ceListErr env = None"
    and input: "stream inp = EncodeTCPMessage b @ concat (map (\<lambda>k. EncodeTCPMessage (body k)) [0..<InitialProbeRounds]) @ rest"
    and order: "set (ceOrder env) = insert cid (sess_ids s)"
  shows "\<exists>inp1 sv1 inp2 sv2 o'. join_phase scan env cn inp sv = (Inr (length (store s), jrUDPPort req), inp1, sv1) \<and>
    handshake_phase scan env cn cid inp1 sv1 = (None, inp2, sv2) \<and> stream inp2 = rest \<and>
    (let sv' = enter_phase env cn (length (store s)) (jrUDPPort req) sv2 in
      svOut sv' = svOut sv @ map (Pair cn)
        ([accept_msg cid (sID s) (svUdpPort sv)] @ map (\<lambda>k. probe_msg (sendTs (ceHs env) k)) [0..<InitialProbeRounds] @
         [offset_msg o', latency_msg (globalDelay (svLatency sv)),
          ClientListM \<lparr>clType = MsgClientList, clClients = ClientList (ceOrder env) (cur sv1)\<rparr>]) \<and>
      set (map ciID (ClientList (ceOrder env) (cur sv1))) = insert cid (sess_ids s) \<and>
      GetClient cid (cur sv') = Some (length (store s)) \<and> GetClientOffset cid (svClock sv') = Inr o' \<and>
      gm_get (smClients (svStream sv')) cid =
        Some (new_stream cid \<lparr>IP = ceIP env, Port = sint (jrUDPPort req)\<rparr> ChannelStereoMix) \<and>
      Send (length (store s)) (cur sv') = Some cn)"
proof -
  have si: "list_all client_ok (store s)" "delay_ok (globalDelay (svLatency sv))"
    using inv s by (auto simp: server_inv_def le_inv_def)
  define c where "c = new_client cid (jrDeviceName req) (jrPlatform req) cn (ceNow env)"
  have c: "cID c = cid" "cChannelAssign c = ChannelStereoMix" "client_ok c" by (simp_all add: c_def new_client_def client_ok_def)
  obtain inp1 s1 inp2 o' sv1 sv2 where sv1_def: "sv1 = (with_session s1 sv)\<lparr>svOut := svOut sv @ [(cn, accept_msg cid (sID s) (svUdpPort sv))]\<rparr>"
    and sv2_def: "sv2 = sv1\<lparr>svClock := store_clock cid \<lparr>ccID = cid, OffsetUs = offset o', RTTUS = rtt o', LastSyncTime = endTime (ceHs env)\<rparr> (svClock sv),
      svOut := svOut sv1 @ map (Pair cn) (map (\<lambda>k. probe_msg (sendTs (ceHs env) k)) [0..<InitialProbeRounds] @ [offset_msg (offset o')])\<rparr>"
    and j: "join_phase scan env cn inp sv = (Inr (length (store s), jrUDPPort req), inp1, sv1)"
      "handshake_phase scan env cn cid inp1 sv1 = (None, inp2, sv2)" "stream inp2 = rest"
      "store s1 = store s @ [c]" "sClients s1 = gm_put cid (length (store s)) (sClients s)"
      "sess_inv s1" "sess_ids s1 = insert cid (sess_ids s)"
    using inv s req rand ans writes(1,2) input c_def by (rule join_then_sync)
  have cur2: "mSession (svMgr sv2) = Some s1" "cur sv1 = s1" by (simp_all add: sv2_def sv1_def cur_def)
  note e = enter_registers [OF cur2(1) j(6), of "length (store s)" c cid env cn "jrUDPPort req"]
  define sv' where "sv' = enter_phase env cn (length (store s)) (jrUDPPort req) sv2"
  have e: "sv' = on_session (SetWriteFunc (length (store s)) cn) (sv2\<lparr>
      svStream := sm_AddClient cid (\<lparr>IP = ceIP env, Port = sint (jrUDPPort req)\<rparr>, ChannelStereoMix) (svStream sv2),
      svOut := svOut sv2 @ [(cn, latency_msg (globalDelay (svLatency sv2))),
        (cn, ClientListM \<lparr>clType = MsgClientList, clClients = ClientList (ceOrder env) s1\<rparr>)],
      svUi := svUi sv2 @ [UiJoin cid, UiUpdate]\<rparr>)"
    unfolding sv'_def using si c order writes(3,4) j(4,7) by (intro e) (simp_all add: sv2_def sv1_def)
  have cur': "cur sv' = SetWriteFunc (length (store s)) cn s1" using cur2(1) by (simp add: e cur_def)
  show ?thesis
  proof (rule exI [of _ inp1], rule exI [of _ sv1], rule exI [of _ inp2], rule exI [of _ sv2], rule exI [of _ "offset o'"],
      unfold Let_def sv'_def [symmetric], intro conjI)
    show "svOut sv' = svOut sv @ map (Pair cn)
        ([accept_msg cid (sID s) (svUdpPort sv)] @ map (\<lambda>k. probe_msg (sendTs (ceHs env) k)) [0..<InitialProbeRounds] @
         [offset_msg (offset o'), latency_msg (globalDelay (svLatency sv)),
          ClientListM \<lparr>clType = MsgClientList, clClients = ClientList (ceOrder env) (cur sv1)\<rparr>])"
      by (simp add: e sv2_def sv1_def cur_def with_session_def)
    show "set (map ciID (ClientList (ceOrder env) (cur sv1))) = insert cid (sess_ids s)"
      using client_list_ids [OF j(6), of "ceOrder env"] order j(7) cur2(2) by simp
    show "GetClient cid (cur sv') = Some (length (store s))"
      by (simp add: cur' SetWriteFunc_def GetClient_def j(5) gm_get_put)
    show "GetClientOffset cid (svClock sv') = Inr (offset o')"
      by (simp add: e sv2_def GetClientOffset_def store_clock_def gm_get_put)
    show "gm_get (smClients (svStream sv')) cid =
        Some (new_stream cid \<lparr>IP = ceIP env, Port = sint (jrUDPPort req)\<rparr> ChannelStereoMix)"
      by (simp add: e sm_AddClient_def gm_get_put)
    show "Send (length (store s)) (cur sv') = Some cn"
      by (simp add: cur' SetWriteFunc_def Send_def upd_client_def j(4))
  qed (fact j)+
qed

definition wit_join_conn :: "byte list \<Rightarrow> inconn" where
  "wit_join_conn rest =
     \<lparr>segments = [EncodeTCPMessage [8]] @ map (\<lambda>k. EncodeTCPMessage [of_nat k]) [0..<8] @ [rest], endErr = EOF\<rparr>"

lemma wit_text_answers: "answers (decode_bytes wit_text dec_clock_sync_reply_msg) (\<lambda>k. [of_nat k]) wit_answer [0..<InitialProbeRounds]"
proof -
  have "k < 8 \<Longrightarrow> (of_nat k :: byte) \<noteq> 8 \<and> (of_nat k :: byte) \<noteq> 9" for k
    using wit_byte(1) [of k] by auto
  then show ?thesis
    by (simp add: answers_def InitialProbeRounds_def MaxMessage_def decode_bytes_def wit_text_def wit_byte)
qed

theorem join_protocol_witness:
  "\<exists>inp1 sv1 inp2 sv2 o'. join_phase wit_text wit_cenv 3 (wit_join_conn []) wit_sv = (Inr (1, 5004), inp1, sv1) \<and>
    handshake_phase wit_text wit_cenv 3 ''cli_07'' inp1 sv1 = (None, inp2, sv2) \<and> stream inp2 = [] \<and>
    (let sv' = enter_phase wit_cenv 3 1 5004 sv2 in
      svOut sv' = map (Pair 3)
        ([accept_msg ''cli_07'' ''ABCDEF'' 8082] @ map (\<lambda>k. probe_msg (sendTs wit_env k)) [0..<InitialProbeRounds] @
         [offset_msg o', latency_msg (Fin 20),
          ClientListM \<lparr>clType = MsgClientList, clClients = ClientList [''cli_07'', ''a''] (cur sv1)\<rparr>]) \<and>
      set (map ciID (ClientList [''cli_07'', ''a''] (cur sv1))) = {''cli_07'', ''a''} \<and>
      GetClient ''cli_07'' (cur sv') = Some 1 \<and> GetClientOffset ''cli_07'' (svClock sv') = Inr o' \<and>
      gm_get (smClients (svStream sv')) ''cli_07'' =
        Some (new_stream ''cli_07'' \<lparr>IP = [10, 0, 0, 1], Port = 5004\<rparr> ChannelStereoMix) \<and>
      Send 1 (cur sv') = Some 3)"
proof -
  have conv: "sID sess1 = ''ABCDEF''" "length (store sess1) = 1" "jrUDPPort wit_req = 5004" "ceHs wit_cenv = wit_env"
    "ceOrder wit_cenv = [''cli_07'', ''a'']" "ceIP wit_cenv = [10, 0, 0, 1]" "sess_ids sess1 = {''a''}"
    "svOut wit_sv = []" "svUdpPort wit_sv = 8082" "globalDelay (svLatency wit_sv) = Fin 20" "sint (5004 :: i64) = 5004"
    by (simp_all add: sess1_def wit_req_def wit_cenv_def sess_ids_def gm_keys_def wit_sv_def start_server_def
        SetLoopbackCompensation_def NewLatencyEqualizer_def MinGlobalDelayMs_def)
  show ?thesis
    by (rule join_protocol [OF wit_sv_inv wit_sv_cur(2) _ _ _ _ _ wit_text_answers, where b = "[8]" and req = wit_req
        and cid = "''cli_07''" and env = wit_cenv and inp = "wit_join_conn []" and rest = "[]" and cn = 3,
        unfolded conv append_Nil])
      (simp_all add: conv MaxMessage_def decode_bytes_def wit_text_def dec_wit_req,
       simp_all add: wit_req_def sess1_def wit_cenv_def wit_env_def generateClientID_def hex_byte_def hextable_def
         wit_join_conn_def stream_def InitialProbeRounds_def)
qed



definition wit_menv :: msg_env where
  "wit_menv = \<lparr>meNow = 7, meRecvTs = 9, meWriteErr = None, meOrder = [''a'']\<rparr>"

lemma wit_sv_ids: "sess_ids (cur wit_sv) = {''a''}" "GetClient ''a'' (cur wit_sv) = Some 0"
  by (simp_all add: wit_sv_cur sess_ids_def gm_keys_def sess1_def GetClient_def gm_get_def)


text \<open>
  C33: the read loop returns on every input, however it is segmented and whatever the other goroutines do
  to the server between two messages (as long as they leave the callback installed): it has then handled
  the framed messages of the stream once each, in their order, up to the first point at which no message
  can be read, and it returns that error.
\<close>

theorem read_loop_terminates:
  assumes "\<forall>i sv. has_frameSetter (svLatency sv) \<longrightarrow> has_frameSetter (svLatency (others i sv))"
    and "has_frameSetter (svLatency sv)"
  shows "\<exists>e inp' sv' ms. clientReadLoop scan envs others 0 cn r cid inp sv = Some (e, inp', sv') \<and>
    handle_all scan envs others 0 cn r cid ms sv = Some sv' \<and>
    (\<exists>rest. stream inp = concat (map EncodeTCPMessage ms) @ rest \<and> fst (message_bytes rest (endErr inp)) = Inl e)"
  by (rule clientReadLoop_runs) (use assms in blast)+

theorem read_loop_terminates_witness:
  "\<exists>e inp' sv' ms. clientReadLoop wit_text (\<lambda>_. wit_menv) (\<lambda>i. on_session (RemoveClient ''a'')) 0 4 0 ''a''
      \<lparr>segments = [[0, 0, 0], [1, 1]], endErr = EOF\<rparr> wit_sv = Some (e, inp', sv') \<and>
    handle_all wit_text (\<lambda>_. wit_menv) (\<lambda>i. on_session (RemoveClient ''a'')) 0 4 0 ''a'' ms wit_sv = Some sv' \<and>
    (\<exists>rest. stream \<lparr>segments = [[0, 0, 0], [1, 1]], endErr = EOF\<rparr> = concat (map EncodeTCPMessage ms) @ rest \<and>
      fst (message_bytes rest (endErr \<lparr>segments = [[0, 0, 0], [1, 1]], endErr = EOF\<rparr>)) = Inl e)"
  by (rule read_loop_terminates) (simp_all add: wit_sv_def start_server_def SetLoopbackCompensation_def NewLatencyEqualizer_def)

lemma handle_all_alone:
  assumes "server_inv sv" and "GetClient cid (cur sv) \<in> {None, Some r}"
    and "\<And>i. set (meOrder (envs i)) \<subseteq> sess_ids (cur sv)"
    and "handle_all scan envs (\<lambda>_ s. s) i cn r cid ms sv = Some sv'"
  shows "server_inv sv' \<and> only_client r cid sv sv'"
  using assms
proof (induction ms arbitrary: i sv)
  case (Cons m ms)
  obtain sv1 ms1 where h: "handle_message scan (envs i) cn r cid m sv = Some sv1" "server_inv sv1" "only_client r cid sv sv1"
    using handle_message_effect [OF Cons.prems(1-3)] by blast
  have c: "sClients (cur sv1) = sClients (cur sv)" using h(3) by (simp add: only_client_def)
  have "server_inv sv' \<and> only_client r cid sv1 sv'"
    using Cons.IH [of sv1 "Suc i"] Cons.prems h c by (simp add: GetClient_def sess_ids_def)
  then show ?case using h(3) by (blast intro: only_client_trans)
qed simp

text \<open>The loop and the cleanup after it, with no interference: the client is gone from every component.\<close>

lemma serve_effect:
  assumes inv: "server_inv sv" and own: "GetClient cid (cur sv) \<in> {None, Some r}"
    and order: "\<And>i. set (meOrder (envs i)) \<subseteq> sess_ids (cur sv)" "set ks \<subseteq> sess_ids (cur sv) - {cid}"
  shows "\<exists>e inp' sv1. clientReadLoop scan envs (\<lambda>_ s. s) 0 cn r cid inp sv = Some (e, inp', sv1) \<and>
    (let sv' = cleanup ks cid sv1 in server_inv sv' \<and>
      gm_get (sClients (cur sv')) = (gm_get (sClients (cur sv)))(cid := None) \<and>
      sm_ids (svStream sv') = sm_ids (svStream sv) - {cid} \<and> cs_ids (svClock sv') = cs_ids (svClock sv) - {cid} \<and>
      le_ids (svLatency sv') = le_ids (svLatency sv) - {cid})"
proof -
  have "has_frameSetter (svLatency sv)" using inv by (simp add: server_inv_def)
  then obtain e inp' sv1 ms where L: "clientReadLoop scan envs (\<lambda>_ s. s) 0 cn r cid inp sv = Some (e, inp', sv1)"
    "handle_all scan envs (\<lambda>_ s. s) 0 cn r cid ms sv = Some sv1"
    using clientReadLoop_runs [of "\<lambda>_ s. s" sv scan envs 0 cn r cid inp] by blast
  have A: "server_inv sv1" "only_client r cid sv sv1"
    using handle_all_alone [OF inv own order(1) L(2)] by blast+
  have c1: "sClients (cur sv1) = sClients (cur sv)" "cs_ids (svClock sv1) = cs_ids (svClock sv)"
    using A(2) by (simp_all add: only_client_def)
  have "set ks \<subseteq> sess_ids (cur sv1) - {cid}" using order(2) by (simp add: sess_ids_def c1)
  note C = cleanup_effect [OF A(1) this]
  have "k \<in> le_ids (svLatency sv1) \<longleftrightarrow> k \<in> le_ids (svLatency sv)" if "k \<noteq> cid" for k
  proof -
    have "gm_get (reports (svLatency sv1)) k = gm_get (reports (svLatency sv)) k"
      using A(2) that by (simp add: only_client_def)
    then show ?thesis by (metis le_ids_def gm_get_None_iff)
  qed
  moreover have "le_inv (svLatency sv1)" using A(1) by (simp add: server_inv_def)
  ultimately have "le_ids (svLatency (cleanup ks cid sv1)) = le_ids (svLatency sv) - {cid}"
    by (auto simp: C(5) le_ids_def le_RemoveClient_ok(2))
  moreover have "sm_ids (svStream (cleanup ks cid sv1)) = sm_ids (svStream sv) - {cid}"
    using only_client_sm_ids [OF A(2)] by (simp add: C(3) sm_ids_def sm_RemoveClient_def)
  moreover have "cs_ids (svClock (cleanup ks cid sv1)) = cs_ids (svClock sv) - {cid}"
    using c1(2) by (simp add: C(4) cs_ids_def cs_RemoveClient_def)
  moreover have "gm_get (sClients (cur (cleanup ks cid sv1))) = (gm_get (sClients (cur sv)))(cid := None)"
    by (simp add: C(2) c1 gm_get_del)
  ultimately show ?thesis using L(1) C(1) by (simp add: Let_def)
qed

text \<open>What is left of a client when its connection has ended with the verdict \<open>e\<close>.\<close>

definition left_as_found :: "string \<Rightarrow> server \<Rightarrow> conn_end \<Rightarrow> server \<Rightarrow> bool" where
  "left_as_found cid sv e sv' \<longleftrightarrow> server_inv sv' \<and>
     gm_get (sClients (cur sv')) = gm_get (sClients (cur sv)) \<and>
     sm_ids (svStream sv') = sm_ids (svStream sv) \<and> le_ids (svLatency sv') = le_ids (svLatency sv) \<and>
     cs_ids (svClock sv') = cs_ids (svClock sv) \<union> (case e of NotSynced (SendOffset x) \<Rightarrow> {cid} | _ \<Rightarrow> {})"

lemma rejected_left_as_found:
  assumes inv: "server_inv sv" and cid: "generateClientID (ceRand env) = Some cid" and fresh: "cid \<notin> sess_ids (cur sv)"
    and j: "join_phase scan env cn inp sv = (Inl f, inp1, sv1)"
  shows "left_as_found cid sv (NotJoined f) sv1"
proof -
  note J = join_phase_Inl [OF inv j]
  have "gm_get (sClients (cur sv)) cid = None" using fresh by (simp add: sess_ids_iff)
  then have "gm_get (sClients (cur sv1)) = gm_get (sClients (cur sv))"
    using J(6) cid by (auto simp: cur_def fun_upd_idem)
  then show ?thesis using J by (simp add: left_as_found_def quiet_def)
qed

text \<open>The state after a join, and from there the two ways on.\<close>

definition joined :: "string \<Rightarrow> nat \<Rightarrow> server \<Rightarrow> server \<Rightarrow> bool" where
  "joined cid r sv sv1 \<longleftrightarrow> server_inv sv1 \<and> svLatency sv1 = svLatency sv \<and> svStream sv1 = svStream sv \<and>
     svClock sv1 = svClock sv \<and> sClients (cur sv1) = gm_put cid r (sClients (cur sv)) \<and> client_id r sv1 = cid \<and>
     cid \<notin> sess_ids (cur sv)"

lemma join_phase_joined:
  assumes "server_inv sv" and "generateClientID (ceRand env) = Some cid" and "cid \<notin> sess_ids (cur sv)"
    and j: "join_phase scan env cn inp sv = (Inr (r, port), inp1, sv1)"
  shows "joined cid r sv sv1"
proof -
  obtain cid' c where "server_inv sv1" "quiet cn sv sv1" "svStream sv1 = svStream sv" "svClock sv1 = svClock sv"
    "generateClientID (ceRand env) = Some cid'" "r = length (store (cur sv))"
    "store (cur sv1) = store (cur sv) @ [c]" "sClients (cur sv1) = gm_put cid' r (sClients (cur sv))" "client_id r sv1 = cid'"
    using assms(1) j by (rule join_phase_Inr)
  then show ?thesis using assms(2,3) by (simp add: joined_def quiet_def)
qed

lemma unsynced_left_as_found:
  assumes J: "joined cid r sv sv1" and h: "handshake_phase scan env cn cid inp1 sv1 = (Some e, inp2, sv2)"
  shows "left_as_found cid sv (NotSynced e) sv2"
proof -
  have j: "server_inv sv1" "svClock sv1 = svClock sv" "sClients (cur sv1) = gm_put cid r (sClients (cur sv))"
    using J by (simp_all add: joined_def)
  note H = handshake_phase_effect [OF j(1) h]
  have none: "gm_get (sClients (cur sv)) cid = None" using J by (simp add: joined_def sess_ids_iff)
  have "cs_ids (svClock sv2) = cs_ids (svClock sv) \<union> (case e of SendOffset x \<Rightarrow> {cid} | _ \<Rightarrow> {})"
    using H(6) j(2) by (cases e) (auto simp: cs_ids_def store_clock_def)
  moreover have "gm_get (sClients (cur sv2)) = gm_get (sClients (cur sv))"
    using H(5) none by (simp add: j(3) gm_get_del gm_get_put fun_upd_idem)
  ultimately show ?thesis using H(1,2,3) J by (simp add: left_as_found_def joined_def quiet_def)
qed

lemma served_left_as_found:
  assumes J: "joined cid r sv sv1" and h: "handshake_phase scan env cn cid inp1 sv1 = (None, inp2, sv2)"
    and fresh: "cid \<notin> sm_ids (svStream sv)" "cid \<notin> cs_ids (svClock sv)" "cid \<notin> le_ids (svLatency sv)"
    and order: "set (ceOrder env) \<subseteq> insert cid (sess_ids (cur sv))" "set (ceLeaveOrder env) \<subseteq> sess_ids (cur sv)"
      "\<forall>i. set (meOrder (envs i)) \<subseteq> insert cid (sess_ids (cur sv))"
  shows "\<exists>e inp4 sv4. clientReadLoop scan envs (\<lambda>_ s. s) 0 cn r cid inp2 (enter_phase env cn r port sv2) = Some (e, inp4, sv4) \<and>
    left_as_found cid sv (Disconnected e) (cleanup (ceLeaveOrder env) cid sv4)"
proof -
  have j: "server_inv sv1" "svLatency sv1 = svLatency sv" "svStream sv1 = svStream sv" "svClock sv1 = svClock sv"
    "sClients (cur sv1) = gm_put cid r (sClients (cur sv))" "client_id r sv1 = cid" "cid \<notin> sess_ids (cur sv)"
    using J by (simp_all add: joined_def)
  note H = handshake_phase_effect [OF j(1) h]
  have none: "gm_get (sClients (cur sv)) cid = None" using j(7) by (simp add: sess_ids_iff)
  have cur2: "cur sv2 = cur sv1" using H(5) by simp
  have ids: "sess_ids (cur sv2) = insert cid (sess_ids (cur sv))" by (simp add: cur2 sess_ids_def j(5))
  define sv3 where "sv3 = enter_phase env cn r port sv2"
  have "set (ceOrder env) \<subseteq> sess_ids (cur sv2)" using order(1) ids by simp
  note E = enter_phase_effect [OF H(1) this, of cn r port, folded sv3_def]
  have c3: "sClients (cur sv3) = gm_put cid r (sClients (cur sv))" by (simp add: E(3) SetWriteFunc_def cur2 j(5))
  obtain e inp4 sv4 where L: "clientReadLoop scan envs (\<lambda>_ s. s) 0 cn r cid inp2 sv3 = Some (e, inp4, sv4)"
    and C: "let sv' = cleanup (ceLeaveOrder env) cid sv4 in server_inv sv' \<and>
      gm_get (sClients (cur sv')) = (gm_get (sClients (cur sv3)))(cid := None) \<and>
      sm_ids (svStream sv') = sm_ids (svStream sv3) - {cid} \<and> cs_ids (svClock sv') = cs_ids (svClock sv3) - {cid} \<and>
      le_ids (svLatency sv') = le_ids (svLatency sv3) - {cid}"
    using serve_effect [OF E(1), of cid r envs "ceLeaveOrder env" scan cn inp2] order(2,3) j(7)
    by (auto simp: GetClient_def c3 gm_get_put sess_ids_def)
  have "gm_get (sClients (cur sv3)) = (gm_get (sClients (cur sv)))(cid \<mapsto> r)" by (simp add: c3 gm_get_put)
  moreover have "sm_ids (svStream sv3) = insert cid (sm_ids (svStream sv))"
    using j(6) cur2 by (simp add: E(4) H(3) j(3) sm_ids_def sm_AddClient_def client_id_def)
  moreover have "svLatency sv3 = svLatency sv" using E(2) H(2) j(2) by (simp add: quiet_def)
  moreover have "cs_ids (svClock sv3) = insert cid (cs_ids (svClock sv))"
    using E(5) H(6) j(4) by (auto simp: cs_ids_def store_clock_def)
  ultimately have "left_as_found cid sv (Disconnected e) (cleanup (ceLeaveOrder env) cid sv4)"
    using C fresh none by (simp add: left_as_found_def Let_def fun_upd_idem)
  then show ?thesis using L by (auto simp: sv3_def)
qed



end
