(* ===== verification/Broadcast.thy ===== *)
theory Broadcast
  imports Control
begin

text \<open>
  The delivery of broadcasts (\<^verbatim>\<open>BroadcastToAll\<close> of \<^verbatim>\<open>internal/server/tcp.go\<close>): one goroutine per client and
  broadcast. A broadcast reaches every client in its read loop; two broadcasts may reach a client in either
  order.
\<close>

section \<open>Delivery\<close>

text \<open>All waiting goroutines run, the oldest first, and every write succeeds.\<close>

fun drain :: "nat \<Rightarrow> server \<Rightarrow> server" where
  "drain 0 sv = sv"
| "drain (Suc n) sv = drain n (run_pending 0 None sv)"

text \<open>What the goroutines of \<open>ps\<close> write: nothing for a client that is not in its read loop yet.\<close>

definition delivered :: "session \<Rightarrow> (ref \<times> server_msg) list \<Rightarrow> (conn \<times> server_msg) list" where
  "delivered s ps = concat (map (\<lambda>(r, m). case Send r s of None \<Rightarrow> [] | Some cn \<Rightarrow> [(cn, m)]) ps)"

lemma delivered_Cons:
  "delivered s ((r, m) # ps) = (case Send r s of None \<Rightarrow> [] | Some cn \<Rightarrow> [(cn, m)]) @ delivered s ps"
  by (simp add: delivered_def)

lemma run_pending_head:
  assumes "mSession (svMgr sv) = Some s" and "svPending sv = (r, m) # ps" and "msg_ok m"
  shows "run_pending 0 None sv = sv\<lparr>svPending := ps,
    svOut := svOut sv @ (case Send r s of None \<Rightarrow> [] | Some cn \<Rightarrow> [(cn, m)])\<rparr>"
  using assms by (simp add: run_pending_def remove_nth_def sendTCPMessage_ok split: option.split)

lemma drain_all:
  assumes "mSession (svMgr sv) = Some s" and "svPending sv = ps" and "list_all (\<lambda>(r, m). msg_ok m) ps"
  shows "drain (length ps) sv = sv\<lparr>svPending := [], svOut := svOut sv @ delivered s ps\<rparr>"
  using assms
proof (induction ps arbitrary: sv)
  case Nil
  then show ?case by (simp add: delivered_def)
next
  case (Cons p ps)
  obtain r m where p: "p = (r, m)" by force
  note run = run_pending_head [OF Cons.prems(1) Cons.prems(2) [unfolded p]]
  show ?case using Cons.prems(3) by (simp add: p run Cons.IH Cons.prems(1) delivered_Cons)
qed

text \<open>The connections of the clients in their read loop, in the order of the visit.\<close>

definition listeners :: "string list \<Rightarrow> session \<Rightarrow> conn list" where
  "listeners ks s = List.map_filter (\<lambda>k. case GetClient k s of None \<Rightarrow> None | Some r \<Rightarrow> Send r s) ks"

lemma delivered_visit:
  assumes "\<And>k. k \<in> set ks \<Longrightarrow> GetClient k s \<noteq> None"
  shows "delivered s (map (\<lambda>r. (r, m)) (visit ks s)) = map (\<lambda>cn. (cn, m)) (listeners ks s)"
  using assms
proof (induction ks)
  case (Cons k ks)
  have "GetClient k s \<noteq> None" using Cons.prems by simp
  then obtain r where "GetClient k s = Some r" by blast
  then show ?case using Cons
    by (auto simp: visit_def listeners_def delivered_Cons GetClient_def List.map_filter_simps split: option.split)
qed (simp add: visit_def listeners_def delivered_def List.map_filter_simps)

section \<open>Properties\<close>

text \<open>
  C34: a broadcast reaches every client. Whatever order the map of clients is visited in, when the
  goroutines it starts have run, the message has been written once to the connection of every registered
  client that is in its read loop, to no other connection, and nothing waits.
\<close>

theorem broadcast_reaches_all:
  assumes inv: "server_inv sv" and none: "svPending sv = []" and order: "range_order (sClients (cur sv)) ks"
    and m: "enc_server_msg (exact_decimal F64) m = Inr j"
  shows "(let sv' = BroadcastToAll ks m sv; sv'' = drain (length (svPending sv')) sv' in
      length (svPending sv') = ClientCount (cur sv) \<and> svPending sv'' = [] \<and>
      svOut sv'' = svOut sv @ map (\<lambda>cn. (cn, m)) (listeners ks (cur sv))) \<and>
    set (listeners ks (cur sv)) =
      {cn. \<exists>k r. GetClient k (cur sv) = Some r \<and> Send r (cur sv) = Some cn}"
proof -
  obtain s where s: "mSession (svMgr sv) = Some s" "cur sv = s" "sess_inv s" using inv by (rule server_invE)
  have ok: "msg_ok m" by (simp add: msg_ok_def m)
  have mem: "k \<in> set ks \<longleftrightarrow> GetClient k s \<noteq> None" for k
    using order s(2) by (simp add: range_order_def GetClient_def gm_get_None_iff)
  have pend: "svPending (BroadcastToAll ks m sv) = map (\<lambda>r. (r, m)) (visit ks s)"
    by (simp add: BroadcastToAll_pending [OF s(1)] none)
  have "list_all (\<lambda>(r, m). msg_ok m) (map (\<lambda>r. (r, m)) (visit ks s))" using ok by (simp add: list_all_iff)
  with drain_all [of "BroadcastToAll ks m sv", OF _ pend] s(1)
  have d: "drain (length (svPending (BroadcastToAll ks m sv))) (BroadcastToAll ks m sv) =
      (BroadcastToAll ks m sv)\<lparr>svPending := [],
        svOut := svOut sv @ map (\<lambda>cn. (cn, m)) (listeners ks s)\<rparr>"
    using delivered_visit [of ks s m] mem by (simp add: pend)
  have "length ks = ClientCount s"
    using range_order_length [OF sess_inv_gm_wf [OF s(3)]] order s(2) by (simp add: ClientCount_def)
  then have "length (svPending (BroadcastToAll ks m sv)) = ClientCount s" by (simp add: pend visit_def)
  moreover have "set (listeners ks s) = {cn. \<exists>k r. GetClient k s = Some r \<and> Send r s = Some cn}"
    using mem by (force simp: listeners_def List.map_filter_def split: option.splits)
  ultimately show ?thesis using d s(2) by (simp add: Let_def)
qed

text \<open>The client of \<open>wit_sv\<close> in its read loop.\<close>

definition wit_listening :: server where
  "wit_listening = on_session (SetWriteFunc 0 4) wit_sv"

lemma wit_listening_ok:
  "server_inv wit_listening" "svPending wit_listening = []" "cur wit_listening = SetWriteFunc 0 4 sess1"
  "mSession (svMgr wit_listening) = Some (SetWriteFunc 0 4 sess1)"
  using server_inv_methods [OF wit_sv_inv] wit_sv_cur by (simp_all add: wit_listening_def) (simp add: wit_sv_def start_server_def)

theorem broadcast_reaches_all_witness:
  "let sv' = BroadcastToAll [''a''] (latency_msg (Fin 40)) wit_listening; sv'' = drain (length (svPending sv')) sv' in
      length (svPending sv') = ClientCount (cur wit_listening) \<and> svPending sv'' = [] \<and>
      svOut sv'' = svOut wit_listening @ map (\<lambda>cn. (cn, latency_msg (Fin 40))) (listeners [''a''] (cur wit_listening))"
proof -
  obtain j where "enc_server_msg (exact_decimal F64) (latency_msg (Fin 40)) = Inr j"
    using msg_ok_latency [of 40] by (auto simp: msg_ok_def split: sum.splits)
  from broadcast_reaches_all [OF wit_listening_ok(1,2) _ this, of "[''a'']"] show ?thesis
    by (simp add: wit_listening_ok(3) range_order_def SetWriteFunc_def sess1_def gm_keys_def)
qed

text \<open>Reports of 100 ms and of 20 ms.\<close>

definition wit_reports :: "byte list \<Rightarrow> json option" where
  "wit_reports b = Some (JObj [(''type'', JStr MsgJitterReport), (''p95_ms'', JNum (IntLit (if b = [1] then 100 else 20)))])"

text \<open>
  Two broadcasts of the global delay can overtake each other. A client reports a jitter of 100 ms and
  then of 20 ms: the delay becomes 120 ms and then 118 ms, and each change starts a goroutine that writes
  it to the client. If the second runs first, the client is told 118 ms and then 120 ms, nothing waits any
  more, and the client keeps a delay that is not the server's.
\<close>

theorem broadcasts_overtake:
  "\<exists>sv1 sv2. handle_message wit_reports wit_menv 4 0 ''a'' [1] wit_listening = Some sv1 \<and>
    handle_message wit_reports wit_menv 4 0 ''a'' [2] sv1 = Some sv2 \<and>
    (let sv3 = run_pending 0 None (run_pending 1 None sv2) in
      GlobalDelay (svLatency sv3) = Fin 118 \<and> svPending sv3 = [] \<and>
      svOut sv3 = svOut wit_listening @ [(4, latency_msg (Fin 118)), (4, latency_msg (Fin 120))])"
proof -
  have dec: "decode_bytes wit_reports dec_tcp_message b = Inr \<lparr>tmType = MsgJitterReport\<rparr>"
    "decode_bytes wit_reports dec_jitter_report_msg b = Inr \<lparr>jiType = MsgJitterReport, jiP95Ms = Fin (if b = [1] then 100 else 20)\<rparr>" for b
    by (simp_all add: decode_bytes_def wit_reports_def dec_defs decode_simps to_fl_numeral num_val_def)
  define le1 where "le1 = (svLatency wit_listening)\<lparr>reports := [(''a'', \<lparr>P95Ms = Fin 100, UpdatedAt = 7\<rparr>)], globalDelay := Fin 120\<rparr>"
  define le2 where "le2 = (svLatency wit_listening)\<lparr>reports := [(''a'', \<lparr>P95Ms = Fin 20, UpdatedAt = 7\<rparr>)], globalDelay := Fin 118\<rparr>"
  have r1: "ReportJitter ''a'' (Fin 100) 7 (svLatency wit_listening) = Some (le1, [Broadcast (Fin 120), FrameSize ''a'' 40])"
    by (simp add: le_eval le1_def wit_listening_def wit_sv_def start_server_def SetLoopbackCompensation_def)
  have r2: "ReportJitter ''a'' (Fin 20) 7 le1 = Some (le2, [Broadcast (Fin 118), FrameSize ''a'' 10])"
    by (simp add: le_eval le1_def le2_def wit_listening_def wit_sv_def start_server_def SetLoopbackCompensation_def
        to_fl_neg_numeral fle_def)
  have jitter: "handle_message wit_reports wit_menv 4 0 ''a'' b sv = Some (apply_effects [''a''] es
      ((on_session (SetJitter 0 (Fin p)) sv)\<lparr>svLatency := le\<rparr>))"
    if "ReportJitter ''a'' (Fin p) 7 (svLatency sv) = Some (le, es)" "p = (if b = [1] then 100 else 20)" for b sv le es p
    using that by (simp add: handle_message_def dec wit_menv_def msg_type_defs Let_def)
  define sv1 where "sv1 = apply_effects [''a''] [Broadcast (Fin 120), FrameSize ''a'' 40]
      ((on_session (SetJitter 0 (Fin 100)) wit_listening)\<lparr>svLatency := le1\<rparr>)"
  define sv2 where "sv2 = apply_effects [''a''] [Broadcast (Fin 118), FrameSize ''a'' 10]
      ((on_session (SetJitter 0 (Fin 20)) sv1)\<lparr>svLatency := le2\<rparr>)"
  have h: "handle_message wit_reports wit_menv 4 0 ''a'' [1] wit_listening = Some sv1"
    "handle_message wit_reports wit_menv 4 0 ''a'' [2] sv1 = Some sv2"
    using jitter [OF r1] jitter [where sv = sv1 and le = le2 and b = "[2]" and p = 20] r2
    by (simp_all add: sv1_def sv2_def)
  have get: "GetClient ''a'' (upd_client r f s) = GetClient ''a'' s" for r f s by (simp add: GetClient_def upd_client_def)
  have a: "GetClient ''a'' sess1 = Some 0" "visit [''a''] (upd_client r f s) = visit [''a''] s" "visit [''a''] sess1 = [0]" for r f s
    by (simp_all add: GetClient_def visit_def upd_client_def sess1_def gm_get_def)
  define s1 where "s1 = cl_SetFrameSize 0 40 (SetJitter 0 (Fin 100) (SetWriteFunc 0 4 sess1))"
  have sv1: "mSession (svMgr sv1) = Some s1" "svPending sv1 = [(0, latency_msg (Fin 120))]"
    using wit_listening_ok(2,4)
    by (simp_all add: sv1_def s1_def setFrameSize_def BroadcastToAll_pending client_methods get a)
  define s2 where "s2 = cl_SetFrameSize 0 10 (SetJitter 0 (Fin 20) s1)"
  have s: "mSession (svMgr sv2) = Some s2"
    and p: "svPending sv2 = [(0, latency_msg (Fin 120)), (0, latency_msg (Fin 118))]"
    using sv1 by (simp_all add: sv2_def s2_def setFrameSize_def BroadcastToAll_pending client_methods get a) (simp_all add: s1_def client_methods get a)
  have send: "Send 0 s2 = Some 4" by (simp add: s2_def s1_def client_methods Send_def upd_client_def sess1_def)
  have o: "svOut sv2 = svOut wit_listening" "svLatency sv2 = le2" by (simp_all add: sv2_def sv1_def)
  show ?thesis
    using h s p send o by (intro exI [of _ sv1] exI [of _ sv2])
      (simp add: run_pending_def remove_nth_def sendTCPMessage_ok GlobalDelay_def le2_def)
qed

end
