(* ===== verification/Http.thy ===== *)
theory Http
  imports Control
begin

text \<open>
  \<^verbatim>\<open>internal/server/http.go\<close> and the pairing payload of \<^verbatim>\<open>internal/discovery/qrcode.go\<close>: the routes, the
  handlers, the hub of user-interface connections and the update that \<^verbatim>\<open>main.go\<close> sends to it. The QR
  encoder (a third-party library), the detection of the local address, the rendering of times, the
  parser of JSON text, the digits written for a number, the static files and the order of \<^verbatim>\<open>range\<close> are
  inputs.
\<close>

section \<open>The hub\<close>

text \<open>A connection of the hub: the messages waiting in its channel, and the channel's capacity.\<close>

record ws_conn =
  wsSend :: "json list"
  wsCap :: nat

definition newWebSocketHub :: "ws_conn list" where
  "newWebSocketHub = []"

definition ws_offer :: "json \<Rightarrow> ws_conn \<Rightarrow> ws_conn" where
  "ws_offer data c = (if length (wsSend c) < wsCap c then c\<lparr>wsSend := wsSend c @ [data]\<rparr> else c)"

definition Broadcast_hub :: "json_error + json \<Rightarrow> ws_conn list \<Rightarrow> ws_conn list" where
  "Broadcast_hub msg hub = (case msg of Inl _ \<Rightarrow> hub | Inr data \<Rightarrow> map (ws_offer data) hub)"

section \<open>The server\<close>

record http_server =
  htPort :: int
  htUDPPort :: int
  htHub :: "ws_conn list"

definition NewHTTPServer :: "int \<Rightarrow> int \<Rightarrow> http_server" where
  "NewHTTPServer port udpPort = \<lparr>htPort = port, htUDPPort = udpPort, htHub = newWebSocketHub\<rparr>"

datatype handler = HStatic | HQR | HSession | HStats | HChannel | HKick | HApple | HAndroid

text \<open>
  The patterns of the router. A \<^verbatim>\<open>GET\<close> pattern serves \<^verbatim>\<open>HEAD\<close> too, and \<^verbatim>\<open>GET /\<close> serves every path no
  other pattern serves; a path without a pattern for the method is not allowed.
\<close>

definition get_route :: "string \<Rightarrow> handler" where
  "get_route path =
     (if path = ''/api/qr'' then HQR
      else if path = ''/api/session'' then HSession
      else if path = ''/api/stats'' then HStats
      else if path = ''/hotspot-detect.html'' then HApple
      else if path = ''/generate_204'' then HAndroid
      else if path = ''/gen_204'' then HAndroid
      else if path = ''/connectivitycheck.gstatic.com/generate_204'' then HAndroid
      else HStatic)"

definition route :: "string \<Rightarrow> string \<Rightarrow> handler option" where
  "route meth path =
     (if meth = ''GET'' \<or> meth = ''HEAD'' then Some (get_route path)
      else if meth = ''POST'' \<and> path = ''/api/channel'' then Some HChannel
      else if meth = ''POST'' \<and> path = ''/api/kick'' then Some HKick
      else None)"

text \<open>A response: its status, and what the handler writes. \<^verbatim>\<open>http.Error\<close> writes a line of text.\<close>

datatype resp_body = NoBody | TextBody string | HtmlBody string | PngBody "byte list" | JsonBody "json option" | FileBody

type_synonym response = "nat \<times> resp_body"

definition writeJSON :: "nat \<Rightarrow> json_error + json \<Rightarrow> response" where
  "writeJSON status data = (status, JsonBody (case data of Inl _ \<Rightarrow> None | Inr j \<Rightarrow> Some j))"

text \<open>An object with one value that may not be representable.\<close>

definition obj_with :: "(json \<Rightarrow> (string \<times> json) list) \<Rightarrow> json_error + json \<Rightarrow> json_error + json" where
  "obj_with f r = (case r of Inl e \<Rightarrow> Inl e | Inr j \<Rightarrow> Inr (JObj (f j)))"

record http_env =
  heScan :: "byte list \<Rightarrow> json option"
  heLocalIP :: "string option"
  heQr :: "json \<Rightarrow> byte list option"
  heTime :: "go_time \<Rightarrow> string"
  heNum :: "rat \<Rightarrow> jnum"
  heFiles :: "string \<Rightarrow> response"
  heOrder :: "string list"

text \<open>The clients of a session as JSON.\<close>

definition clients_json :: "http_env \<Rightarrow> session \<Rightarrow> json_error + json" where
  "clients_json env s =
     (case enc_all (enc_client_info (heNum env)) (ClientList (heOrder env) s) of
        Inl e \<Rightarrow> Inl e
      | Inr js \<Rightarrow> Inr (JArr js))"

definition delay_json :: "http_env \<Rightarrow> server \<Rightarrow> json_error + json" where
  "delay_json env sv = enc_float64 (heNum env) (GlobalDelay (svLatency sv))"

definition nat_json :: "nat \<Rightarrow> json" where
  "nat_json n = JNum (IntLit (int n))"

text \<open>Maps are written with their keys in order.\<close>

definition update_json :: "http_env \<Rightarrow> session \<Rightarrow> server \<Rightarrow> json_error + json" where
  "update_json env s sv =
     (case delay_json env sv of
        Inl e \<Rightarrow> Inl e
      | Inr d \<Rightarrow> obj_with (\<lambda>cs.
          [(''client_count'', nat_json (ClientCount s)), (''clients'', cs), (''global_delay'', d),
           (''session_id'', JStr (sID s)), (''type'', JStr ''STATE_UPDATE'')]) (clients_json env s))"

definition BroadcastUpdate :: "http_env \<Rightarrow> server \<Rightarrow> http_server \<Rightarrow> http_server" where
  "BroadcastUpdate env sv h =
     (case GetSession (svMgr sv) of
        None \<Rightarrow> h
      | Some s \<Rightarrow> h\<lparr>htHub := Broadcast_hub (update_json env s sv) (htHub h)\<rparr>)"

section \<open>Pairing\<close>

record payload =
  plIP :: string
  plTCPPort :: i64
  plUDPPort :: i64
  plToken :: string
  plSession :: string

definition enc_payload :: "payload \<Rightarrow> json" where
  "enc_payload p =
     JObj
     [(''ip'', JStr (plIP p)), (''tcp_port'', enc_int64 (plTCPPort p)), (''udp_port'', enc_int64 (plUDPPort p)),
      (''token'', JStr (plToken p)), (''session'', JStr (plSession p))]"

definition dec_payload :: "json \<Rightarrow> json_error + payload" where
  "dec_payload =
     decode_struct
     [(''ip'', set_string (\<lambda>x s. s\<lparr>plIP := x\<rparr>)),
      (''tcp_port'', set_int64 (\<lambda>x s. s\<lparr>plTCPPort := x\<rparr>)),
      (''udp_port'', set_int64 (\<lambda>x s. s\<lparr>plUDPPort := x\<rparr>)),
      (''token'', set_string (\<lambda>x s. s\<lparr>plToken := x\<rparr>)),
      (''session'', set_string (\<lambda>x s. s\<lparr>plSession := x\<rparr>))]
     \<lparr>plIP = '''', plTCPPort = 0, plUDPPort = 0, plToken = '''', plSession = ''''\<rparr>"

text \<open>\<^verbatim>\<open>GeneratePNG\<close>: marshalling a payload cannot fail, the encoder can.\<close>

definition GeneratePNG :: "(json \<Rightarrow> byte list option) \<Rightarrow> payload \<Rightarrow> byte list option" where
  "GeneratePNG qr p = qr (enc_payload p)"

definition handleQR :: "http_env \<Rightarrow> http_server \<Rightarrow> server \<Rightarrow> response" where
  "handleQR env h sv =
     (case GetSession (svMgr sv) of
        None \<Rightarrow> (503, TextBody ''no active session'')
      | Some s \<Rightarrow>
          (case heLocalIP env of
             None \<Rightarrow> (500, TextBody ''failed to detect local IP'')
           | Some localIP \<Rightarrow>
               (case GeneratePNG (heQr env)
                    \<lparr>plIP = localIP, plTCPPort = word_of_int (htPort h) + 1, plUDPPort = word_of_int (htUDPPort h),
                     plToken = sToken s, plSession = sID s\<rparr> of
                  None \<Rightarrow> (500, TextBody ''failed to generate QR code'')
                | Some png \<Rightarrow> (200, PngBody png))))"

section \<open>The other handlers\<close>

definition handleSession :: "http_env \<Rightarrow> server \<Rightarrow> response" where
  "handleSession env sv =
     (case GetSession (svMgr sv) of
        None \<Rightarrow> writeJSON 200 (Inr (JObj [(''active'', JBool False)]))
      | Some s \<Rightarrow>
          (let (packets, bytes) = sm_Stats (svStream sv)
           in writeJSON 200
             (case delay_json env sv of
                Inl e \<Rightarrow> Inl e
              | Inr d \<Rightarrow> obj_with (\<lambda>cs.
                  [(''active'', JBool True), (''bytes_sent'', enc_int64 bytes), (''client_count'', nat_json (ClientCount s)),
                   (''clients'', cs), (''created_at'', JStr (heTime env (sCreatedAt s))), (''global_delay'', d),
                   (''packets_sent'', enc_int64 packets), (''session_id'', JStr (sID s))])
                  (clients_json env s))))"

definition handleStats :: "http_env \<Rightarrow> server \<Rightarrow> response" where
  "handleStats env sv =
     (let (packets, bytes) = sm_Stats (svStream sv)
      in writeJSON 200
        (obj_with (\<lambda>d.
           [(''bytes_sent'', enc_int64 bytes), (''global_delay'', d), (''packets_sent'', enc_int64 packets),
            (''stream_clients'', nat_json (sm_ClientCount (svStream sv)))]) (delay_json env sv)))"

definition set_uint8 :: "(byte \<Rightarrow> 's \<Rightarrow> 's) \<Rightarrow> json \<Rightarrow> 's \<Rightarrow> 's \<times> bool" where
  "set_uint8 upd v s =
     (case v of
        JNum (IntLit n) \<Rightarrow> (if 0 \<le> n \<and> n < 256 then (upd (word_of_int n) s, False) else (s, True))
      | JNull \<Rightarrow> (s, False)
      | _ \<Rightarrow> (s, True))"

record channel_req =
  cqClientID :: string
  cqChannel :: byte

definition dec_channel_req :: "json \<Rightarrow> json_error + channel_req" where
  "dec_channel_req =
     decode_struct
     [(''client_id'', set_string (\<lambda>x s. s\<lparr>cqClientID := x\<rparr>)),
      (''channel'', set_uint8 (\<lambda>x s. s\<lparr>cqChannel := x\<rparr>))]
     \<lparr>cqClientID = '''', cqChannel = 0\<rparr>"

record kick_req =
  kqClientID :: string

definition dec_kick_req :: "json \<Rightarrow> json_error + kick_req" where
  "dec_kick_req = decode_struct [(''client_id'', set_string (\<lambda>x s. s\<lparr>kqClientID := x\<rparr>))] \<lparr>kqClientID = ''''\<rparr>"

definition status_ok :: response where
  "status_ok = writeJSON 200 (Inr (JObj [(''status'', JStr ''ok'')]))"

definition handleChannelAssign ::
  "http_env \<Rightarrow> byte list \<Rightarrow> http_server \<Rightarrow> server \<Rightarrow> response \<times> http_server \<times> server" where
  "handleChannelAssign env body h sv =
     (case decode_bytes (heScan env) dec_channel_req body of
        Inl _ \<Rightarrow> ((400, TextBody ''invalid request body''), h, sv)
      | Inr req \<Rightarrow>
          (case GetSession (svMgr sv) of
             None \<Rightarrow> ((503, TextBody ''no active session''), h, sv)
           | Some s \<Rightarrow>
               (case GetClient (cqClientID req) s of
                  None \<Rightarrow> ((404, TextBody ''client not found''), h, sv)
                | Some r \<Rightarrow>
                    (let sv = on_session (cl_SetChannel r (cqChannel req)) sv;
                         sv = sv\<lparr>svStream := sm_SetChannel (cqClientID req) (cqChannel req) (svStream sv)\<rparr>
                     in (status_ok, BroadcastUpdate env sv h, sv)))))"

definition handleKick ::
  "http_env \<Rightarrow> byte list \<Rightarrow> http_server \<Rightarrow> server \<Rightarrow> response \<times> http_server \<times> server" where
  "handleKick env body h sv =
     (case decode_bytes (heScan env) dec_kick_req body of
        Inl _ \<Rightarrow> ((400, TextBody ''invalid request body''), h, sv)
      | Inr req \<Rightarrow>
          (case GetSession (svMgr sv) of
             None \<Rightarrow> ((503, TextBody ''no active session''), h, sv)
           | Some s \<Rightarrow>
               (let sv = on_session (RemoveClient (kqClientID req)) sv;
                    sv = sv\<lparr>svStream := sm_RemoveClient (kqClientID req) (svStream sv)\<rparr>
                in (status_ok, BroadcastUpdate env sv h, sv))))"

definition handleAppleCaptivePortal :: response where
  "handleAppleCaptivePortal =
     (200, HtmlBody ''<HTML><HEAD><TITLE>Success</TITLE></HEAD><BODY>Success</BODY></HTML>'')"

definition handleAndroidCaptivePortal :: response where
  "handleAndroidCaptivePortal = (204, NoBody)"

definition serve ::
  "http_env \<Rightarrow> string \<Rightarrow> string \<Rightarrow> byte list \<Rightarrow> http_server \<Rightarrow> server \<Rightarrow> response \<times> http_server \<times> server" where
  "serve env meth path body h sv =
     (case route meth path of
        None \<Rightarrow> ((405, TextBody ''Method Not Allowed''), h, sv)
      | Some HStatic \<Rightarrow> (heFiles env path, h, sv)
      | Some HQR \<Rightarrow> (handleQR env h sv, h, sv)
      | Some HSession \<Rightarrow> (handleSession env sv, h, sv)
      | Some HStats \<Rightarrow> (handleStats env sv, h, sv)
      | Some HChannel \<Rightarrow> handleChannelAssign env body h sv
      | Some HKick \<Rightarrow> handleKick env body h sv
      | Some HApple \<Rightarrow> (handleAppleCaptivePortal, h, sv)
      | Some HAndroid \<Rightarrow> (handleAndroidCaptivePortal, h, sv))"

text \<open>The callbacks \<^verbatim>\<open>main\<close> gives the TCP server all send an update to the hub.\<close>

definition ui_callback :: "http_env \<Rightarrow> ui_event \<Rightarrow> server \<Rightarrow> http_server \<Rightarrow> http_server" where
  "ui_callback env e sv h =
     (case e of UiJoin cid \<Rightarrow> BroadcastUpdate env sv h | UiLeave cid \<Rightarrow> BroadcastUpdate env sv h
      | UiUpdate \<Rightarrow> BroadcastUpdate env sv h)"


section \<open>Lemmas\<close>

lemma BroadcastUpdate_frame [simp]:
  "htPort (BroadcastUpdate env sv h) = htPort h" "htUDPPort (BroadcastUpdate env sv h) = htUDPPort h"
  by (simp_all add: BroadcastUpdate_def split: option.split)

lemma BroadcastUpdate_hub [simp]: "htHub h = [] \<Longrightarrow> htHub (BroadcastUpdate env sv h) = []"
  by (simp add: BroadcastUpdate_def Broadcast_hub_def split: option.split sum.split)

text \<open>The data of the assigned client changes in both components, and nothing else.\<close>

lemma handleChannelAssign_effect:
  assumes inv: "server_inv sv" and req: "decode_bytes (heScan env) dec_channel_req body = Inr req"
    and r: "GetClient (cqClientID req) (cur sv) = Some r"
  shows "\<exists>sv'. handleChannelAssign env body h sv = (status_ok, BroadcastUpdate env sv' h, sv') \<and> server_inv sv' \<and>
    cur sv' = cl_SetChannel r (cqChannel req) (cur sv) \<and>
    svStream sv' = sm_SetChannel (cqClientID req) (cqChannel req) (svStream sv) \<and>
    svClock sv' = svClock sv \<and> svLatency sv' = svLatency sv \<and> svOut sv' = svOut sv \<and> svPending sv' = svPending sv"
proof -
  obtain s where s: "mSession (svMgr sv) = Some s" "cur sv = s" "sm_inv (svStream sv)" using inv by (rule server_invE)
  define sv1 where "sv1 = on_session (cl_SetChannel r (cqChannel req)) sv"
  define sv' where "sv' = sv1\<lparr>svStream := sm_SetChannel (cqClientID req) (cqChannel req) (svStream sv)\<rparr>"
  have "server_inv sv1" unfolding sv1_def using inv by (rule server_inv_methods)
  then have "server_inv sv'" unfolding sv'_def using s(3) by (intro server_inv_stream sm_inv_ops)
  moreover have "mSession (svMgr sv') = Some (cl_SetChannel r (cqChannel req) s)" using s by (simp add: sv'_def sv1_def)
  moreover have "handleChannelAssign env body h sv = (status_ok, BroadcastUpdate env sv' h, sv')"
    using req r s by (simp add: handleChannelAssign_def GetSession_def Let_def sv'_def sv1_def)
  ultimately show ?thesis using s(1,2) by (intro exI [of _ sv']) (simp add: sv'_def sv1_def cur_def)
qed

lemma handleKick_effect:
  assumes inv: "server_inv sv" and req: "decode_bytes (heScan env) dec_kick_req body = Inr req"
  shows "\<exists>sv'. handleKick env body h sv = (status_ok, BroadcastUpdate env sv' h, sv') \<and> server_inv sv' \<and>
    cur sv' = RemoveClient (kqClientID req) (cur sv) \<and>
    svStream sv' = sm_RemoveClient (kqClientID req) (svStream sv) \<and>
    svClock sv' = svClock sv \<and> svLatency sv' = svLatency sv \<and> svOut sv' = svOut sv \<and> svPending sv' = svPending sv"
proof -
  obtain s where s: "mSession (svMgr sv) = Some s" "cur sv = s" "sm_inv (svStream sv)" using inv by (rule server_invE)
  define sv1 where "sv1 = on_session (RemoveClient (kqClientID req)) sv"
  define sv' where "sv' = sv1\<lparr>svStream := sm_RemoveClient (kqClientID req) (svStream sv)\<rparr>"
  have "server_inv sv1" unfolding sv1_def using inv by (rule server_inv_RemoveClient)
  then have "server_inv sv'" unfolding sv'_def using s(3) by (intro server_inv_stream sm_inv_ops)
  moreover have "mSession (svMgr sv') = Some (RemoveClient (kqClientID req) s)" using s by (simp add: sv'_def sv1_def)
  moreover have "handleKick env body h sv = (status_ok, BroadcastUpdate env sv' h, sv')"
    using req s by (simp add: handleKick_def GetSession_def Let_def sv'_def sv1_def)
  ultimately show ?thesis using s(1,2) by (intro exI [of _ sv']) (simp add: sv'_def sv1_def cur_def)
qed

section \<open>Properties\<close>

text \<open>
  \<^verbatim>\<open>POST /api/channel\<close> on every branch. A well-formed request for a registered client sets the channel
  of its session object and of its stream entry, if it has one, and changes no other client, so from
  then on the distribution gives it exactly the frames of that channel and of the mix; any other request
  is answered with 400, 404 or 503 and changes nothing.
\<close>

theorem channel_assignment:
  assumes inv: "server_inv sv"
  shows "case handleChannelAssign env body h sv of (resp, h', sv') \<Rightarrow> server_inv sv' \<and>
    (case decode_bytes (heScan env) dec_channel_req body of
       Inl e \<Rightarrow> resp = (400, TextBody ''invalid request body'') \<and> h' = h \<and> sv' = sv
     | Inr req \<Rightarrow>
         (case GetClient (cqClientID req) (cur sv) of
            None \<Rightarrow> resp = (404, TextBody ''client not found'') \<and> h' = h \<and> sv' = sv
          | Some r \<Rightarrow> fst resp = 200 \<and> sess_ids (cur sv') = sess_ids (cur sv) \<and>
              (\<forall>r'. r' < length (store (cur sv)) \<longrightarrow> store (cur sv') ! r' =
                 (if r' = r then (store (cur sv) ! r)\<lparr>cChannelAssign := cqChannel req\<rparr> else store (cur sv) ! r')) \<and>
              (\<forall>k. gm_get (smClients (svStream sv')) k =
                 (if k = cqClientID req then map_option (\<lambda>cs. cs\<lparr>csChannelAssign := cqChannel req\<rparr>)
                    (gm_get (smClients (svStream sv)) k) else gm_get (smClients (svStream sv)) k)) \<and>
              (\<forall>cs ch. gm_get (smClients (svStream sv')) (cqClientID req) = Some cs \<longrightarrow>
                 wants ch cs = (csActive cs \<and>
                   (ch = ChannelStereoMix \<or> cqChannel req = ChannelStereoMix \<or> cqChannel req = ch)))))"
proof -
  obtain s where s: "mSession (svMgr sv) = Some s" "cur sv = s" using inv by (rule server_invE)
  show ?thesis
  proof (cases "decode_bytes (heScan env) dec_channel_req body")
    case (Inl e)
    then show ?thesis using inv by (simp add: handleChannelAssign_def)
  next
    case (Inr req)
    show ?thesis
    proof (cases "GetClient (cqClientID req) (cur sv)")
      case None
      then show ?thesis using Inr inv s by (simp add: handleChannelAssign_def GetSession_def)
    next
      case (Some r)
      obtain sv' where e: "handleChannelAssign env body h sv = (status_ok, BroadcastUpdate env sv' h, sv')" "server_inv sv'"
        "cur sv' = cl_SetChannel r (cqChannel req) (cur sv)"
        "svStream sv' = sm_SetChannel (cqClientID req) (cqChannel req) (svStream sv)"
        using handleChannelAssign_effect [OF inv Inr Some] by blast
      show ?thesis
        unfolding e(1) using e(2) Inr Some
        by (auto simp: e(3,4) status_ok_def writeJSON_def cl_SetChannel_def sess_ids_def store_upd_client
            sm_SetChannel_def gm_get_upd wants_iff)
    qed
  qed
qed

text \<open>Request bodies of one byte: 1 is a request for client \<open>a\<close>, anything else is not JSON.\<close>

definition wit_http :: http_env where
  "wit_http =
     \<lparr>heScan = (\<lambda>b. if b = [1] then Some (JObj [(''client_id'', JStr ''a''), (''channel'', JNum (IntLit 1))]) else None),
      heLocalIP = Some ''10.0.0.2'', heQr = (\<lambda>j. Some [1, 2]), heTime = (\<lambda>t. ''2024''), heNum = exact_decimal F64,
      heFiles = (\<lambda>p. (404, TextBody ''404 page not found'')), heOrder = [''a'']\<rparr>"

theorem channel_assignment_witness:
  "case handleChannelAssign wit_http [1] (NewHTTPServer 8080 8082) wit_sv of (resp, h', sv') \<Rightarrow> server_inv sv' \<and>
    (case decode_bytes (heScan wit_http) dec_channel_req [1] of
       Inl e \<Rightarrow> resp = (400, TextBody ''invalid request body'') \<and> h' = NewHTTPServer 8080 8082 \<and> sv' = wit_sv
     | Inr req \<Rightarrow>
         (case GetClient (cqClientID req) (cur wit_sv) of
            None \<Rightarrow> resp = (404, TextBody ''client not found'') \<and> h' = NewHTTPServer 8080 8082 \<and> sv' = wit_sv
          | Some r \<Rightarrow> fst resp = 200 \<and> sess_ids (cur sv') = sess_ids (cur wit_sv) \<and>
              (\<forall>r'. r' < length (store (cur wit_sv)) \<longrightarrow> store (cur sv') ! r' =
                 (if r' = r then (store (cur wit_sv) ! r)\<lparr>cChannelAssign := cqChannel req\<rparr> else store (cur wit_sv) ! r')) \<and>
              (\<forall>k. gm_get (smClients (svStream sv')) k =
                 (if k = cqClientID req then map_option (\<lambda>cs. cs\<lparr>csChannelAssign := cqChannel req\<rparr>)
                    (gm_get (smClients (svStream wit_sv)) k) else gm_get (smClients (svStream wit_sv)) k)) \<and>
              (\<forall>cs ch. gm_get (smClients (svStream sv')) (cqClientID req) = Some cs \<longrightarrow>
                 wants ch cs = (csActive cs \<and>
                   (ch = ChannelStereoMix \<or> cqChannel req = ChannelStereoMix \<or> cqChannel req = ch)))))"
  by (rule channel_assignment [OF wit_sv_inv])

text \<open>
  \<^verbatim>\<open>POST /api/kick\<close> removes exactly the named client from the session, where its connection is closed,
  and from the stream manager, so no frame is sent to it any more; all other clients stay as they are,
  and so do all clock entries and jitter reports, which go when the connection's handler sees the close.
\<close>

theorem kick_removes_client:
  assumes inv: "server_inv sv" and req: "decode_bytes (heScan env) dec_kick_req body = Inr req"
  shows "case handleKick env body h sv of (resp, h', sv') \<Rightarrow> fst resp = 200 \<and> server_inv sv' \<and>
    sess_ids (cur sv') = sess_ids (cur sv) - {kqClientID req} \<and>
    sm_ids (svStream sv') = sm_ids (svStream sv) - {kqClientID req} \<and>
    (\<forall>ks ch. kqClientID req \<notin> set (active_clients ks ch (svStream sv'))) \<and>
    (\<forall>k. k \<noteq> kqClientID req \<longrightarrow> GetClient k (cur sv') = GetClient k (cur sv) \<and>
       gm_get (smClients (svStream sv')) k = gm_get (smClients (svStream sv)) k) \<and>
    store (cur sv') = store (cur sv) \<and> svClock sv' = svClock sv \<and> svLatency sv' = svLatency sv \<and>
    (case GetClient (kqClientID req) (cur sv) of None \<Rightarrow> True
     | Some r \<Rightarrow> (case cTCPConn (store (cur sv) ! r) of None \<Rightarrow> True
       | Some c \<Rightarrow> ConnClosed c \<in> set (trace (cur sv'))))"
proof -
  have si: "sess_inv (cur sv)" using inv by (auto elim: server_invE)
  obtain sv' where e: "handleKick env body h sv = (status_ok, BroadcastUpdate env sv' h, sv')" "server_inv sv'"
    "cur sv' = RemoveClient (kqClientID req) (cur sv)"
    "svStream sv' = sm_RemoveClient (kqClientID req) (svStream sv)" "svClock sv' = svClock sv" "svLatency sv' = svLatency sv"
    using handleKick_effect [OF inv req] by blast
  have "case GetClient (kqClientID req) (cur sv) of None \<Rightarrow> True
     | Some r \<Rightarrow> (case cTCPConn (store (cur sv) ! r) of None \<Rightarrow> True
       | Some c \<Rightarrow> ConnClosed c \<in> set (trace (cur sv')))"
    by (auto simp: e(3) RemoveClient_def GetClient_def Let_def split: option.split)
  then show ?thesis
    unfolding e(1) using e(2,5,6) sr.ids_remove [OF si]
    by (auto simp: e(3,4) status_ok_def writeJSON_def sm_ids_def sm_RemoveClient_def active_clients_def
        GetClient_def gm_get_del)
qed

theorem kick_removes_client_witness:
  "case handleKick wit_http [1] (NewHTTPServer 8080 8082) wit_sv of (resp, h', sv') \<Rightarrow> fst resp = 200 \<and> server_inv sv' \<and>
    sess_ids (cur sv') = sess_ids (cur wit_sv) - {''a''} \<and>
    sm_ids (svStream sv') = sm_ids (svStream wit_sv) - {''a''} \<and>
    (\<forall>ks ch. ''a'' \<notin> set (active_clients ks ch (svStream sv'))) \<and>
    (\<forall>k. k \<noteq> ''a'' \<longrightarrow> GetClient k (cur sv') = GetClient k (cur wit_sv) \<and>
       gm_get (smClients (svStream sv')) k = gm_get (smClients (svStream wit_sv)) k) \<and>
    store (cur sv') = store (cur wit_sv) \<and> svClock sv' = svClock wit_sv \<and> svLatency sv' = svLatency wit_sv \<and>
    (case GetClient ''a'' (cur wit_sv) of None \<Rightarrow> True
     | Some r \<Rightarrow> (case cTCPConn (store (cur wit_sv) ! r) of None \<Rightarrow> True
       | Some c \<Rightarrow> ConnClosed c \<in> set (trace (cur sv'))))"
proof -
  have "decode_bytes (heScan wit_http) dec_kick_req [1] = Inr \<lparr>kqClientID = ''a''\<rparr>"
    by (simp add: wit_http_def decode_bytes_def dec_kick_req_def decode_simps upper_char_def)
  then show ?thesis
    using kick_removes_client [OF wit_sv_inv, of wit_http "[1]" "\<lparr>kqClientID = ''a''\<rparr>" "NewHTTPServer 8080 8082"] by simp
qed


text \<open>The object of one client in the list.\<close>

definition row_of :: "session \<Rightarrow> string \<Rightarrow> json \<Rightarrow> bool" where
  "row_of s k j \<longleftrightarrow> (\<exists>r kvs. GetClient k s = Some r \<and> j = JObj ((''id'', JStr k) # kvs) \<and>
     map_of kvs ''channel'' = Some (JNum (IntLit (uint (cChannelAssign (store s ! r))))))"

lemma enc_clients:
  assumes inv: "sess_inv s" "list_all client_ok (store s)" and "set ks \<subseteq> sess_ids s"
  shows "\<exists>cs. enc_all (enc_client_info num) (map (\<lambda>r. Info (store s ! r)) (visit ks s)) = Inr cs \<and>
    list_all2 (row_of s) ks cs"
  using assms(3)
proof (induction ks)
  case (Cons k ks)
  then obtain cs where IH: "enc_all (enc_client_info num) (map (\<lambda>r. Info (store s ! r)) (visit ks s)) = Inr cs"
    "list_all2 (row_of s) ks cs" by auto
  have "k \<in> sess_ids s" using Cons.prems by simp
  then obtain r where r: "gm_get (sClients s) k = Some r" by (auto simp: sess_ids_iff)
  then have "r < length (store s)" "cID (store s ! r) = k" using inv(1) by (simp_all add: sess_inv_def)
  moreover have "client_ok (store s ! r)" using inv(2) \<open>r < length (store s)\<close> by (simp add: list_all_length)
  ultimately obtain j where "enc_client_info num (Info (store s ! r)) = Inr j" "row_of s k j"
    using r by (auto simp: enc_client_info_def Info_def client_ok_def enc_float64_def row_of_def GetClient_def)
  then show ?case using IH r by (intro exI [of _ "j # cs"]) (simp add: visit_def)
qed (simp add: visit_def)

text \<open>
  The snapshot of \<^verbatim>\<open>GET /api/session\<close> can always be written and is consistent: with the numbers the
  server accepts, JSON marshalling cannot fail; the array of clients has one object per registered
  client, with its identifier and channel, and the count beside it is the length of that array.
\<close>

theorem session_snapshot:
  assumes inv: "server_inv sv" and order: "range_order (sClients (cur sv)) (heOrder env)"
  shows "\<exists>d cs. handleSession env sv = (200, JsonBody (Some (JObj
      [(''active'', JBool True), (''bytes_sent'', enc_int64 (smBytesSent (svStream sv))),
       (''client_count'', nat_json (length cs)), (''clients'', JArr cs),
       (''created_at'', JStr (heTime env (sCreatedAt (cur sv)))), (''global_delay'', JNum (heNum env d)),
       (''packets_sent'', enc_int64 (smPacketsSent (svStream sv))), (''session_id'', JStr (sID (cur sv)))]))) \<and>
    globalDelay (svLatency sv) = Fin d \<and> 20 \<le> d \<and> d \<le> 500 \<and>
    length cs = card (sess_ids (cur sv)) \<and>
    list_all2 (row_of (cur sv)) (heOrder env) cs"
proof -
  obtain s where s: "mSession (svMgr sv) = Some s" "cur sv = s" "sess_inv s" "list_all client_ok (store s)"
    "le_inv (svLatency sv)" using inv by (rule server_invE)
  obtain d where d: "globalDelay (svLatency sv) = Fin d" "20 \<le> d" "d \<le> 500"
    using s(5) unfolding le_inv_def delay_ok_def by blast
  have sub: "set (heOrder env) \<subseteq> sess_ids s" "length (heOrder env) = card (sess_ids s)"
    using order s(2) distinct_card [of "heOrder env"] by (auto simp: range_order_def sess_ids_def)
  obtain cs where cs: "enc_all (enc_client_info (heNum env)) (ClientList (heOrder env) s) = Inr cs"
    "list_all2 (row_of s) (heOrder env) cs"
    using enc_clients [OF s(3,4) sub(1), of "heNum env"] unfolding ClientList_def by blast
  have len: "length cs = card (sess_ids s)" using cs(2) sub(2) by (simp add: list_all2_lengthD)
  have "ClientCount s = card (sess_ids s)"
    using s(3) gm_len_card [of "sClients s"] by (simp add: ClientCount_def sess_ids_def sess_inv_def gm_dom)
  then show ?thesis using s d cs len
    by (intro exI [of _ d] exI [of _ cs])
      (simp add: handleSession_def GetSession_def sm_Stats_def writeJSON_def delay_json_def GlobalDelay_def
        enc_float64_def clients_json_def obj_with_def)
qed

theorem session_snapshot_witness:
  "\<exists>d cs. handleSession wit_http wit_sv = (200, JsonBody (Some (JObj
      [(''active'', JBool True), (''bytes_sent'', enc_int64 (smBytesSent (svStream wit_sv))),
       (''client_count'', nat_json (length cs)), (''clients'', JArr cs),
       (''created_at'', JStr (heTime wit_http (sCreatedAt (cur wit_sv)))), (''global_delay'', JNum (heNum wit_http d)),
       (''packets_sent'', enc_int64 (smPacketsSent (svStream wit_sv))), (''session_id'', JStr (sID (cur wit_sv)))]))) \<and>
    globalDelay (svLatency wit_sv) = Fin d \<and> 20 \<le> d \<and> d \<le> 500 \<and>
    length cs = card (sess_ids (cur wit_sv)) \<and>
    list_all2 (row_of (cur wit_sv)) (heOrder wit_http) cs"
  by (rule session_snapshot [OF wit_sv_inv]) (simp add: wit_sv_cur wit_http_def sess1_order)

text \<open>
  Pairing. What \<^verbatim>\<open>GET /api/qr\<close> hands to the QR encoder is an object that decodes to the address, the
  TCP port the control server listens on, the UDP port, and the token, and with that token a join is
  admitted.
\<close>

theorem qr_pairing:
  assumes s: "mSession (svMgr sv) = Some s" and ip: "heLocalIP env = Some ip"
    and ports: "0 \<le> htPort h \<and> htPort h < 2 ^ 16" "0 \<le> htUDPPort h \<and> htUDPPort h < 2 ^ 16"
    and rd: "generateClientID rd = Some cid"
  shows "\<exists>j p. handleQR env h sv =
      (case heQr env j of None \<Rightarrow> (500, TextBody ''failed to generate QR code'') | Some png \<Rightarrow> (200, PngBody png)) \<and>
    dec_payload j = Inr p \<and> plIP p = ip \<and> sint (plTCPPort p) = htPort h + 1 \<and> sint (plUDPPort p) = htUDPPort h \<and>
    plSession p = sID s \<and> (\<exists>r s'. AddClient (plToken p) name platform cn rd now s = (Inr r, s') \<and> GetClient cid s' = Some r)"
proof -
  define p where "p = \<lparr>plIP = ip, plTCPPort = word_of_int (htPort h) + 1, plUDPPort = word_of_int (htUDPPort h),
    plToken = sToken s, plSession = sID s\<rparr>"
  have "dec_payload (enc_payload p) = Inr p"
    by (simp add: enc_payload_def dec_payload_def decode_simps enc_int64_def p_def)
  moreover have "sint (plTCPPort p) = htPort h + 1" "sint (plUDPPort p) = htUDPPort h"
  proof -
    have "plTCPPort p = word_of_int (htPort h + 1)" by (simp add: p_def)
    then show "sint (plTCPPort p) = htPort h + 1" using ports by (simp only:) (rule sint_of_int_id; simp)
    show "sint (plUDPPort p) = htUDPPort h" unfolding p_def payload.select_convs
      by (rule sint_of_int_id) (use ports in simp_all)
  qed
  moreover have "\<exists>r s'. AddClient (plToken p) name platform cn rd now s = (Inr r, s') \<and> GetClient cid s' = Some r"
    using rd by (auto simp: p_def AddClient_def Let_def register_def GetClient_def gm_get_put)
  moreover have "handleQR env h sv =
      (case heQr env (enc_payload p) of None \<Rightarrow> (500, TextBody ''failed to generate QR code'') | Some png \<Rightarrow> (200, PngBody png))"
    using s ip by (simp add: handleQR_def GetSession_def GeneratePNG_def p_def)
  ultimately show ?thesis by (intro exI [of _ "enc_payload p"] exI [of _ p]) (simp add: p_def)
qed

theorem qr_pairing_witness:
  "\<exists>j p. handleQR wit_http (NewHTTPServer 8080 8082) wit_sv =
      (case heQr wit_http j of None \<Rightarrow> (500, TextBody ''failed to generate QR code'') | Some png \<Rightarrow> (200, PngBody png)) \<and>
    dec_payload j = Inr p \<and> plIP p = ''10.0.0.2'' \<and> sint (plTCPPort p) = htPort (NewHTTPServer 8080 8082) + 1 \<and>
    sint (plUDPPort p) = htUDPPort (NewHTTPServer 8080 8082) \<and> plSession p = sID sess1 \<and>
    (\<exists>r s'. AddClient (plToken p) ''tv'' ''test'' 3 (Some [7]) 0 sess1 = (Inr r, s') \<and> GetClient (''cli_'' @ hex_encode [7]) s' = Some r)"
  by (rule qr_pairing [OF wit_sv_cur(2)]) (simp_all add: wit_http_def NewHTTPServer_def generateClientID_def)

text \<open>What the HTTP server is asked to do: a request, or a callback of the TCP server.\<close>

datatype http_op = Request http_env string string "byte list" | Callback http_env ui_event

fun http_run :: "(http_op \<times> server) list \<Rightarrow> http_server \<Rightarrow> http_server" where
  "http_run [] h = h"
| "http_run ((Request env meth path body, sv) # ops) h = http_run ops (fst (snd (serve env meth path body h sv)))"
| "http_run ((Callback env e, sv) # ops) h = http_run ops (ui_callback env e sv h)"

text \<open>
  The live updates never reach anybody. The documented endpoint \<^verbatim>\<open>GET /api/ws\<close> is not routed to a
  handler of its own but to the static files, and no request and no callback ever adds a connection to the
  hub, so every update is sent to nobody.
\<close>

theorem live_updates_unreachable:
  "route ''GET'' ''/api/ws'' = Some HStatic \<and> htHub (http_run ops (NewHTTPServer port udpPort)) = []"
proof -
  have serve: "htHub (fst (snd (serve env meth path body h sv))) = []" if "htHub h = []" for env meth path body h sv
    using that by (auto simp: serve_def handleChannelAssign_def handleKick_def Let_def
        split: option.split handler.split sum.split)
  have "htHub h = [] \<Longrightarrow> htHub (http_run ops h) = []" for h
    by (induction ops h rule: http_run.induct) (auto simp: serve ui_callback_def split: ui_event.split)
  then show ?thesis by (simp add: route_def get_route_def NewHTTPServer_def newWebSocketHub_def)
qed

end
