(* ===== verification/System.thy ===== *)
theory System
  imports Http
begin

text \<open>
  The running server: any number of connections, each at some phase of \<^verbatim>\<open>handleConnection\<close>, interleaved with
  the eviction monitor, the HTTP handlers, the delivery of pending broadcasts, the sender of audio frames
  and the UDP receiver, in any order and with any inputs. The steps are the operations of the component
  theories; the invariant relates the four registries of clients to the phases of the connections.
\<close>

section \<open>States\<close>

text \<open>
  Where the goroutine of a connection is: before the join; between the acceptance and the end of the
  clock handshake; before the registration for audio; in the read loop; returned.
\<close>

datatype phase = PNew | PJoined ref i64 | PSynced ref i64 | PLoop ref | PDone

fun phase_ref :: "phase \<Rightarrow> ref option" where
  "phase_ref (PJoined r port) = Some r"
| "phase_ref (PSynced r port) = Some r"
| "phase_ref (PLoop r) = Some r"
| "phase_ref p = None"

fun phase_level :: "phase \<Rightarrow> nat" where
  "phase_level (PJoined r port) = 1"
| "phase_level (PSynced r port) = 2"
| "phase_level (PLoop r) = 3"
| "phase_level p = 0"

text \<open>\<open>yLeaked\<close> records the identifiers whose offset could not be written; no step reads it.\<close>

record sys =
  yServer :: server
  yHttp :: http_server
  yPhase :: "conn \<Rightarrow> phase"
  yLeaked :: "string set"

definition start_sys :: "session \<Rightarrow> fl \<Rightarrow> i64 \<Rightarrow> int \<Rightarrow> sys" where
  "start_sys s captureLatencyMs udpPort httpPort =
     \<lparr>yServer = start_server s captureLatencyMs udpPort, yHttp = NewHTTPServer httpPort (sint udpPort),
      yPhase = \<lambda>_. PNew, yLeaked = {}\<rparr>"

definition registered :: "sys \<Rightarrow> (string, ref) gomap" where
  "registered y = sClients (cur (yServer y))"

text \<open>
  Identifiers are 64 random bits and \<^verbatim>\<open>AddClient\<close> does not test whether one is taken: that a new one was
  never drawn before is an assumption on the random generator.
\<close>

definition fresh_id :: "conn_env \<Rightarrow> sys \<Rightarrow> bool" where
  "fresh_id env y \<longleftrightarrow>
     (case generateClientID (ceRand env) of None \<Rightarrow> True
      | Some cid \<Rightarrow> cid \<notin> set (map cID (store (cur (yServer y)))))"

definition on_stream :: "stream_mgr \<Rightarrow> sys \<Rightarrow> sys" where
  "on_stream m y = y\<lparr>yServer := (yServer y)\<lparr>svStream := m\<rparr>\<rparr>"

definition move :: "conn \<Rightarrow> phase \<Rightarrow> server \<Rightarrow> sys \<Rightarrow> sys" where
  "move cn p sv y = y\<lparr>yServer := sv, yPhase := (yPhase y)(cn := p)\<rparr>"

section \<open>Steps\<close>

inductive sys_step :: "(byte list \<Rightarrow> json option) \<Rightarrow> sys \<Rightarrow> sys \<Rightarrow> bool" for scan where
  join: "yPhase y cn = PNew \<Longrightarrow> fresh_id env y \<Longrightarrow>
    join_phase scan env cn inp (yServer y) = (Inr (r, port), inp', sv') \<Longrightarrow>
    sys_step scan y (move cn (PJoined r port) sv' y)"
| join_fails: "yPhase y cn = PNew \<Longrightarrow> fresh_id env y \<Longrightarrow>
    join_phase scan env cn inp (yServer y) = (Inl f, inp', sv') \<Longrightarrow>
    sys_step scan y (move cn PDone sv' y)"
| synced: "yPhase y cn = PJoined r port \<Longrightarrow>
    handshake_phase scan env cn (client_id r (yServer y)) inp (yServer y) = (None, inp', sv') \<Longrightarrow>
    sys_step scan y (move cn (PSynced r port) sv' y)"
| sync_fails: "yPhase y cn = PJoined r port \<Longrightarrow> cid = client_id r (yServer y) \<Longrightarrow>
    handshake_phase scan env cn cid inp (yServer y) = (Some e, inp', sv') \<Longrightarrow>
    sys_step scan y ((move cn PDone sv' y)\<lparr>yLeaked :=
      (case e of SendOffset x \<Rightarrow> insert cid (yLeaked y) | _ \<Rightarrow> yLeaked y)\<rparr>)"
| enter: "yPhase y cn = PSynced r port \<Longrightarrow> range_order (registered y) (ceOrder env) \<Longrightarrow>
    sys_step scan y (move cn (PLoop r) (enter_phase env cn r port (yServer y)) y)"
| message: "yPhase y cn = PLoop r \<Longrightarrow> range_order (registered y) (meOrder env) \<Longrightarrow>
    handle_message scan env cn r (client_id r (yServer y)) msg (yServer y) = Some sv' \<Longrightarrow>
    sys_step scan y (move cn (PLoop r) sv' y)"
| tick: "yPhase y cn = PLoop r \<Longrightarrow>
    sys_step scan y (move cn (PLoop r) (sync_tick now w cn (client_id r (yServer y)) (yServer y)) y)"
| leave: "yPhase y cn = PLoop r \<Longrightarrow> cid = client_id r (yServer y) \<Longrightarrow>
    range_order (gm_del cid (registered y)) ks \<Longrightarrow>
    sys_step scan y (move cn PDone (cleanup ks cid (yServer y)) y)"
| deliver: "sys_step scan y (y\<lparr>yServer := run_pending i w (yServer y)\<rparr>)"
| evict: "range_order (registered y) ks \<Longrightarrow> monitor_tick now ks (svMgr (yServer y)) = (evicted, m) \<Longrightarrow>
    sys_step scan y (y\<lparr>yServer := (yServer y)\<lparr>svMgr := m\<rparr>\<rparr>)"
| request: "serve env meth path body (yHttp y) (yServer y) = (resp, h', sv') \<Longrightarrow>
    sys_step scan y (y\<lparr>yHttp := h', yServer := sv'\<rparr>)"
| audio: "SendAudio choice data channel ts codec (svStream (yServer y)) = Some m \<Longrightarrow>
    sys_step scan y (on_stream m y)"
| take_frame: "loop_recv quit (svStream (yServer y)) = Some m \<Longrightarrow> sys_step scan y (on_stream m y)"
| send_frame: "range_order (smClients (svStream (yServer y))) ks \<Longrightarrow>
    loop_send werr ks (svStream (yServer y)) = (ds, m) \<Longrightarrow> sys_step scan y (on_stream m y)"
| datagram: "sys_step scan y (on_stream (receive d a (svStream (yServer y))) y)"

inductive sys_reach :: "(byte list \<Rightarrow> json option) \<Rightarrow> sys \<Rightarrow> sys \<Rightarrow> bool" for scan y0 where
  start: "sys_reach scan y0 y0"
| step: "sys_reach scan y0 y \<Longrightarrow> sys_step scan y y' \<Longrightarrow> sys_reach scan y0 y'"

section \<open>The invariant\<close>

text \<open>The identifiers of the connections that are at least at phase \<open>n\<close>.\<close>

definition ids_at :: "nat \<Rightarrow> sys \<Rightarrow> string set" where
  "ids_at n y = {client_id r (yServer y) | cn r. phase_ref (yPhase y cn) = Some r \<and> n \<le> phase_level (yPhase y cn)}"

text \<open>A client's stream entry, if there is one, has the channel of its object.\<close>

definition channels_agree :: "server \<Rightarrow> bool" where
  "channels_agree sv \<longleftrightarrow>
     (\<forall>r cs. r < length (store (cur sv)) \<longrightarrow> gm_get (smClients (svStream sv)) (client_id r sv) = Some cs \<longrightarrow>
        csChannelAssign cs = cChannelAssign (store (cur sv) ! r))"

definition live_refs :: "sys \<Rightarrow> bool" where
  "live_refs y \<longleftrightarrow> (\<forall>cn r. phase_ref (yPhase y cn) = Some r \<longrightarrow> r < length (store (cur (yServer y))))"

definition sys_inv :: "sys \<Rightarrow> bool" where
  "sys_inv y \<longleftrightarrow>
     server_inv (yServer y) \<and> distinct (map cID (store (cur (yServer y)))) \<and>
     live_refs y \<and>
     sess_ids (cur (yServer y)) \<subseteq> ids_at 1 y \<and> sm_ids (svStream (yServer y)) \<subseteq> ids_at 3 y \<and>
     le_ids (svLatency (yServer y)) \<subseteq> ids_at 3 y \<and> cs_ids (svClock (yServer y)) \<subseteq> ids_at 2 y \<union> yLeaked y \<and>
     channels_agree (yServer y)"

text \<open>Objects are only added, and keep their identifiers.\<close>

definition extends :: "server \<Rightarrow> server \<Rightarrow> bool" where
  "extends sv sv' \<longleftrightarrow> length (store (cur sv)) \<le> length (store (cur sv')) \<and>
     (\<forall>r < length (store (cur sv)). client_id r sv' = client_id r sv)"

lemma ids_atE:
  assumes "k \<in> ids_at n y"
  obtains cn r where "k = client_id r (yServer y)" "phase_ref (yPhase y cn) = Some r" "n \<le> phase_level (yPhase y cn)"
  using assms by (auto simp: ids_at_def)

lemma ids_atI:
  "phase_ref (yPhase y cn) = Some r \<Longrightarrow> n \<le> phase_level (yPhase y cn) \<Longrightarrow> k = client_id r (yServer y) \<Longrightarrow> k \<in> ids_at n y"
  by (auto simp: ids_at_def)

lemma move_simps [simp]:
  "yServer (move cn p sv' y) = sv'" "yPhase (move cn p sv' y) = (yPhase y)(cn := p)"
  "yLeaked (move cn p sv' y) = yLeaked y" "yHttp (move cn p sv' y) = yHttp y"
  by (simp_all add: move_def)

text \<open>An update of a field leaves the other fields of the list alone.\<close>

lemma map_field_update: "(\<And>x. g (f x) = g x) \<Longrightarrow> map g (xs[i := f (xs ! i)]) = map g xs"
proof (rule nth_equalityI)
  assume eq: "\<And>x. g (f x) = g x"
  fix j assume "j < length (map g (xs[i := f (xs ! i)]))"
  then show "map g (xs[i := f (xs ! i)]) ! j = map g xs ! j" using eq by (cases "j = i") simp_all
qed simp

text \<open>How a step of a connection changes the sets: it adds its own identifier, or takes it away.\<close>

lemma extends_id: "extends (yServer y) sv' \<Longrightarrow> live_refs y \<Longrightarrow> phase_ref (yPhase y cn) = Some r \<Longrightarrow>
   client_id r sv' = client_id r (yServer y)"
  by (simp add: extends_def live_refs_def)

lemma ids_at_other:
  assumes "extends (yServer y) sv'" and "live_refs y" and "k \<in> ids_at n y"
    and "phase_level (yPhase y cn) < n \<or> (\<forall>r. phase_ref (yPhase y cn) = Some r \<longrightarrow> k \<noteq> client_id r (yServer y))"
  shows "k \<in> ids_at n (move cn p sv' y)"
proof -
  obtain cn' r where c: "k = client_id r (yServer y)" "phase_ref (yPhase y cn') = Some r" "n \<le> phase_level (yPhase y cn')"
    using assms(3) by (rule ids_atE)
  then have "cn' \<noteq> cn" using assms(4) by auto
  then show ?thesis using c extends_id [OF assms(1,2) c(2)] by (intro ids_atI [of _ cn' r]) simp_all
qed

lemma ids_at_raise:
  assumes "extends (yServer y) sv'" and "live_refs y" and "k \<in> ids_at n y"
    and "phase_ref (yPhase y cn) \<in> {None, phase_ref p}" and "phase_level (yPhase y cn) \<le> phase_level p"
  shows "k \<in> ids_at n (move cn p sv' y)"
proof -
  obtain cn' r where c: "k = client_id r (yServer y)" "phase_ref (yPhase y cn') = Some r" "n \<le> phase_level (yPhase y cn')"
    using assms(3) by (rule ids_atE)
  show ?thesis
  proof (cases "cn' = cn")
    case True
    then show ?thesis using c assms(4,5) extends_id [OF assms(1,2) c(2)] by (intro ids_atI [of _ cn r]) auto
  next
    case False
    then show ?thesis using c extends_id [OF assms(1,2) c(2)] by (intro ids_atI [of _ cn' r]) simp_all
  qed
qed

lemma ids_at_own: "phase_ref p = Some r \<Longrightarrow> n \<le> phase_level p \<Longrightarrow> client_id r sv' \<in> ids_at n (move cn p sv' y)"
  by (rule ids_atI [of _ cn r]) simp_all

lemma ids_at_same:
  assumes "extends (yServer y) (yServer y')" and "yPhase y' = yPhase y" and "live_refs y"
  shows "ids_at n y' = ids_at n y"
proof -
  have "client_id r (yServer y') = client_id r (yServer y)" if "phase_ref (yPhase y cn) = Some r" for cn r
    using that assms by (simp add: extends_def live_refs_def)
  then show ?thesis using assms(2) by (intro equalityI subsetI; elim ids_atE) (auto intro: ids_atI)
qed

text \<open>Three shapes of steps: those of no connection, those that advance one, those that end one.\<close>

lemma sys_inv_same:
  assumes inv: "sys_inv y" and "server_inv (yServer y')" and ph: "yPhase y' = yPhase y" "yLeaked y' = yLeaked y"
    and st: "map cID (store (cur (yServer y'))) = map cID (store (cur (yServer y)))"
    and reg: "sess_ids (cur (yServer y')) \<subseteq> sess_ids (cur (yServer y))"
      "sm_ids (svStream (yServer y')) \<subseteq> sm_ids (svStream (yServer y))"
      "le_ids (svLatency (yServer y')) \<subseteq> le_ids (svLatency (yServer y))"
      "cs_ids (svClock (yServer y')) \<subseteq> cs_ids (svClock (yServer y))"
    and "channels_agree (yServer y')"
  shows "sys_inv y'"
proof -
  have len: "length (store (cur (yServer y'))) = length (store (cur (yServer y)))" using st by (rule map_eq_imp_length_eq)
  have "client_id r (yServer y') = client_id r (yServer y)" if "r < length (store (cur (yServer y)))" for r
    using that st len by (metis client_id_def nth_map)
  then have ext: "extends (yServer y) (yServer y')" using len by (simp add: extends_def)
  have lr: "live_refs y" using inv by (simp add: sys_inv_def)
  have "ids_at n y' = ids_at n y" for n using ext ph(1) lr by (rule ids_at_same)
  moreover have "live_refs y'" using lr ph(1) len by (simp add: live_refs_def)
  ultimately show ?thesis
    using assms unfolding sys_inv_def by (auto simp: st)
qed

definition own :: "nat \<Rightarrow> phase \<Rightarrow> server \<Rightarrow> string set" where
  "own n p sv = (case phase_ref p of None \<Rightarrow> {} | Some r \<Rightarrow> if n \<le> phase_level p then {client_id r sv} else {})"

lemma own_ids: "own n p sv' \<subseteq> ids_at n (move cn p sv' y)"
  by (auto simp: own_def ids_at_own split: option.splits if_splits)

lemma sys_inv_advance:
  assumes inv: "sys_inv y" and "server_inv sv'" and ext: "extends (yServer y) sv'"
    and "distinct (map cID (store (cur sv')))"
    and p: "phase_ref (yPhase y cn) \<in> {None, phase_ref p}" "phase_level (yPhase y cn) \<le> phase_level p"
      "\<And>r. phase_ref p = Some r \<Longrightarrow> r < length (store (cur sv'))"
    and reg: "sess_ids (cur sv') \<subseteq> sess_ids (cur (yServer y)) \<union> own 1 p sv'"
      "sm_ids (svStream sv') \<subseteq> sm_ids (svStream (yServer y)) \<union> own 3 p sv'"
      "le_ids (svLatency sv') \<subseteq> le_ids (svLatency (yServer y)) \<union> own 3 p sv'"
      "cs_ids (svClock sv') \<subseteq> cs_ids (svClock (yServer y)) \<union> own 2 p sv'"
    and "channels_agree sv'"
  shows "sys_inv (move cn p sv' y)"
proof -
  have lr: "live_refs y" using inv by (simp add: sys_inv_def)
  have "ids_at n y \<union> own n p sv' \<subseteq> ids_at n (move cn p sv' y)" for n
    using ids_at_raise [OF ext lr _ p(1,2)] own_ids by blast
  note sub = this [of 1] this [of 2] this [of 3]
  have "live_refs (move cn p sv' y)"
    using lr ext p(3) by (auto simp: live_refs_def extends_def intro: less_le_trans)
  then show ?thesis
    using assms(2,4) reg inv sub \<open>channels_agree sv'\<close> unfolding sys_inv_def move_simps by blast
qed

lemma sys_inv_end:
  assumes inv: "sys_inv y" and "server_inv sv'" and ext: "extends (yServer y) sv'"
    and "distinct (map cID (store (cur sv')))"
    and gone: "\<And>n k. phase_level (yPhase y cn) \<ge> n \<Longrightarrow> phase_ref (yPhase y cn) = Some r \<Longrightarrow> k = client_id r (yServer y) \<Longrightarrow>
      (1 \<le> n \<longrightarrow> k \<notin> sess_ids (cur sv')) \<and> (3 \<le> n \<longrightarrow> k \<notin> sm_ids (svStream sv') \<and> k \<notin> le_ids (svLatency sv')) \<and>
      (2 \<le> n \<longrightarrow> k \<notin> cs_ids (svClock sv'))"
    and r: "phase_ref (yPhase y cn) \<in> {None, Some r}"
    and reg: "sess_ids (cur sv') \<subseteq> sess_ids (cur (yServer y))" "sm_ids (svStream sv') \<subseteq> sm_ids (svStream (yServer y))"
      "le_ids (svLatency sv') \<subseteq> le_ids (svLatency (yServer y))"
      "cs_ids (svClock sv') \<subseteq> cs_ids (svClock (yServer y)) \<union> L"
    and "channels_agree sv'"
  shows "sys_inv ((move cn PDone sv' y)\<lparr>yLeaked := yLeaked y \<union> L\<rparr>)"
proof -
  let ?y = "(move cn PDone sv' y)\<lparr>yLeaked := yLeaked y \<union> L\<rparr>"
  have lr: "live_refs y" using inv by (simp add: sys_inv_def)
  have keep: "k \<in> ids_at n ?y" if "k \<in> ids_at n y"
    "\<not> (n \<le> phase_level (yPhase y cn) \<and> phase_ref (yPhase y cn) = Some r \<and> k = client_id r (yServer y))" for k n
  proof -
    have "k \<in> ids_at n (move cn PDone sv' y)"
      using that(2) r by (intro ids_at_other [OF ext lr that(1)]) auto
    then show ?thesis by (simp add: ids_at_def)
  qed
  have old: "sess_ids (cur (yServer y)) \<subseteq> ids_at 1 y" "sm_ids (svStream (yServer y)) \<subseteq> ids_at 3 y"
    "le_ids (svLatency (yServer y)) \<subseteq> ids_at 3 y" "cs_ids (svClock (yServer y)) \<subseteq> ids_at 2 y \<union> yLeaked y"
    using inv by (simp_all add: sys_inv_def)
  have "sess_ids (cur sv') \<subseteq> ids_at 1 ?y"
  proof
    fix k assume "k \<in> sess_ids (cur sv')"
    then show "k \<in> ids_at 1 ?y" using reg(1) old(1) gone [of 1 k] by (intro keep) auto
  qed
  moreover have "sm_ids (svStream sv') \<subseteq> ids_at 3 ?y"
  proof
    fix k assume "k \<in> sm_ids (svStream sv')"
    then show "k \<in> ids_at 3 ?y" using reg(2) old(2) gone [of 3 k] by (intro keep) auto
  qed
  moreover have "le_ids (svLatency sv') \<subseteq> ids_at 3 ?y"
  proof
    fix k assume "k \<in> le_ids (svLatency sv')"
    then show "k \<in> ids_at 3 ?y" using reg(3) old(3) gone [of 3 k] by (intro keep) auto
  qed
  moreover have "cs_ids (svClock sv') \<subseteq> ids_at 2 ?y \<union> (yLeaked y \<union> L)"
  proof
    fix k assume k: "k \<in> cs_ids (svClock sv')"
    show "k \<in> ids_at 2 ?y \<union> (yLeaked y \<union> L)"
    proof (cases "k \<in> yLeaked y \<union> L")
      case False
      then have "k \<in> ids_at 2 y" using k reg(4) old(4) by blast
      then show ?thesis using k gone [of 2 k] by (intro UnI1 keep) auto
    qed simp
  qed
  moreover have "live_refs ?y"
    using lr ext by (auto simp: live_refs_def extends_def intro: less_le_trans split: if_splits)
  ultimately show ?thesis using assms(2,4) \<open>channels_agree sv'\<close> by (simp add: sys_inv_def)
qed


section \<open>Every step preserves the invariant\<close>

lemma sys_invE:
  assumes "sys_inv y"
  obtains s where "server_inv (yServer y)" "mSession (svMgr (yServer y)) = Some s" "cur (yServer y) = s" "sess_inv s"
    "distinct (map cID (store s))" "live_refs y" "channels_agree (yServer y)" "sm_inv (svStream (yServer y))"
    "le_inv (svLatency (yServer y))" "gm_wf (svClock (yServer y))"
proof -
  have "server_inv (yServer y)" using assms by (simp add: sys_inv_def)
  then show thesis using assms that by (elim server_invE) (auto simp: sys_inv_def)
qed

lemma only_client_ids: "only_client r cid sv sv' \<Longrightarrow> map cID (store (cur sv')) = map cID (store (cur sv))"
  by (rule nth_equalityI) (auto simp: only_client_def)

lemma extends_ids: "map cID (store (cur sv')) = map cID (store (cur sv)) @ ks \<Longrightarrow> extends sv sv'"
proof -
  assume e: "map cID (store (cur sv')) = map cID (store (cur sv)) @ ks"
  then have l: "length (store (cur sv')) = length (store (cur sv)) + length ks"
    by (metis length_append length_map)
  have "client_id r sv' = client_id r sv" if "r < length (store (cur sv))" for r
    using that l e by (metis client_id_def length_map nth_append nth_map trans_less_add1)
  then show ?thesis using l by (simp add: extends_def)
qed

lemma extends_same_ids: "map cID (store (cur sv')) = map cID (store (cur sv)) \<Longrightarrow> extends sv sv'"
  by (rule extends_ids [where ks = "[]"]) simp

text \<open>The objects keep their channels, and the stream entries theirs.\<close>

lemma channels_agree_same:
  assumes "channels_agree sv"
    and "\<And>r. r < length (store (cur sv')) \<Longrightarrow> r < length (store (cur sv)) \<and> client_id r sv' = client_id r sv \<and>
      cChannelAssign (store (cur sv') ! r) = cChannelAssign (store (cur sv) ! r)"
    and "\<And>k cs. gm_get (smClients (svStream sv')) k = Some cs \<Longrightarrow>
      \<exists>cs0. gm_get (smClients (svStream sv)) k = Some cs0 \<and> csChannelAssign cs0 = csChannelAssign cs"
  shows "channels_agree sv'"
  unfolding channels_agree_def
proof (intro allI impI)
  fix r cs assume r: "r < length (store (cur sv'))" and cs: "gm_get (smClients (svStream sv')) (client_id r sv') = Some cs"
  obtain cs0 where "gm_get (smClients (svStream sv)) (client_id r sv') = Some cs0" "csChannelAssign cs0 = csChannelAssign cs"
    using assms(3) [OF cs] by blast
  then show "csChannelAssign cs = cChannelAssign (store (cur sv') ! r)"
    using assms(1) assms(2) [OF r] by (auto simp: channels_agree_def)
qed

lemma channels_agree_only:
  assumes "only_client r cid sv sv'" and "channels_agree sv" shows "channels_agree sv'"
proof (rule channels_agree_same [OF assms(2)])
  fix k cs assume "gm_get (smClients (svStream sv')) k = Some cs"
  moreover have "map_option csChannelAssign (gm_get (smClients (svStream sv')) k) =
      map_option csChannelAssign (gm_get (smClients (svStream sv)) k)"
    using assms(1) unfolding only_client_def by blast
  ultimately show "\<exists>cs0. gm_get (smClients (svStream sv)) k = Some cs0 \<and> csChannelAssign cs0 = csChannelAssign cs"
    by (cases "gm_get (smClients (svStream sv)) k") auto
qed (use assms(1) in \<open>simp add: only_client_def client_id_def\<close>)

lemma known_ids:
  assumes "live_refs y" shows "ids_at n y \<subseteq> set (map cID (store (cur (yServer y))))"
proof
  fix k assume "k \<in> ids_at n y"
  then obtain cn r where "k = client_id r (yServer y)" "phase_ref (yPhase y cn) = Some r" by (rule ids_atE)
  then show "k \<in> set (map cID (store (cur (yServer y))))" using assms by (auto simp: live_refs_def client_id_def)
qed

lemma channels_agree_new:
  assumes "channels_agree sv" and "store (cur sv') = store (cur sv) @ [c]" and "svStream sv' = svStream sv"
    and "cID c \<notin> sm_ids (svStream sv)"
  shows "channels_agree sv'"
  unfolding channels_agree_def
proof (intro allI impI)
  fix r cs assume r: "r < length (store (cur sv'))" "gm_get (smClients (svStream sv')) (client_id r sv') = Some cs"
  have "r \<noteq> length (store (cur sv))"
    using r assms(2,3,4) by (auto simp: client_id_def sm_ids_def gm_get_None_iff [symmetric])
  then have "r < length (store (cur sv))" using r(1) assms(2) by simp
  then show "csChannelAssign cs = cChannelAssign (store (cur sv') ! r)"
    using assms r(2) by (simp add: channels_agree_def client_id_def nth_append)
qed

lemma fresh_unknown:
  assumes "sys_inv y" and "fresh_id env y" and "generateClientID (ceRand env) = Some cid"
  shows "cid \<notin> set (map cID (store (cur (yServer y))))" "cid \<notin> sm_ids (svStream (yServer y))"
    "cid \<notin> sess_ids (cur (yServer y))"
  using assms known_ids [of y 1] known_ids [of y 3] by (auto simp: fresh_id_def sys_inv_def)

lemma own_client:
  assumes "sys_inv y" and "phase_ref (yPhase y cn) = Some r"
  shows "GetClient (client_id r (yServer y)) (cur (yServer y)) \<in> {None, Some r}"
proof -
  obtain s where s: "cur (yServer y) = s" "sess_inv s" "distinct (map cID (store s))" "live_refs y"
    using assms(1) by (rule sys_invE)
  have r: "r < length (store s)" using s(1,4) assms(2) by (auto simp: live_refs_def)
  have "r' = r" if "gm_get (sClients s) (cID (store s ! r)) = Some r'" for r'
  proof -
    have "r' < length (store s)" "cID (store s ! r') = cID (store s ! r)" using that s(2) by (auto simp: sess_inv_def)
    then show ?thesis using s(3) r nth_eq_iff_index_eq [of "map cID (store s)" r' r] by simp
  qed
  then show ?thesis
    using s(1) by (cases "gm_get (sClients s) (cID (store s ! r))") (auto simp: GetClient_def client_id_def)
qed

lemma order_subset: "range_order (registered y) ks \<Longrightarrow> set ks \<subseteq> sess_ids (cur (yServer y))"
  by (simp add: range_order_def registered_def sess_ids_def)

lemma step_join:
  assumes inv: "sys_inv y" and p: "yPhase y cn = PNew" and f: "fresh_id env y"
    and j: "join_phase scan env cn inp (yServer y) = (Inr (r, port), inp', sv')"
  shows "sys_inv (move cn (PJoined r port) sv' y)"
proof -
  obtain s where s: "server_inv (yServer y)" "cur (yServer y) = s" "distinct (map cID (store s))" "channels_agree (yServer y)"
    using inv by (rule sys_invE)
  obtain cid c where J: "server_inv sv'" "quiet cn (yServer y) sv'" "svStream sv' = svStream (yServer y)"
    "svClock sv' = svClock (yServer y)" "svUi sv' = svUi (yServer y)" "generateClientID (ceRand env) = Some cid"
    "cID c = cid" "r = length (store (cur (yServer y)))" "store (cur sv') = store (cur (yServer y)) @ [c]"
    "sClients (cur sv') = gm_put cid r (sClients (cur (yServer y)))" "client_id r sv' = cid"
    using s(1) j by (rule join_phase_Inr)
  note fresh = fresh_unknown [OF inv f J(6)]
  have lat: "svLatency sv' = svLatency (yServer y)" using J(2) by (simp add: quiet_def)
  show ?thesis
  proof (rule sys_inv_advance [OF inv J(1)])
    show "extends (yServer y) sv'" by (rule extends_ids [where ks = "[cid]"]) (simp add: J(7,9))
    show "distinct (map cID (store (cur sv')))" using s(2,3) fresh(1) unfolding J(9) by (simp add: J(7))
    show "channels_agree sv'" by (rule channels_agree_new [OF s(4) J(9,3)]) (simp add: J(7) fresh(2))
    show "sess_ids (cur sv') \<subseteq> sess_ids (cur (yServer y)) \<union> own 1 (PJoined r port) sv'"
      unfolding sess_ids_def J(10) own_def by (simp add: J(11))
    show "r' < length (store (cur sv'))" if "phase_ref (PJoined r port) = Some r'" for r'
      using that unfolding J(9) by (simp add: J(8))
    show "phase_ref (yPhase y cn) \<in> {None, phase_ref (PJoined r port)}"
      "phase_level (yPhase y cn) \<le> phase_level (PJoined r port)" by (simp_all add: p)
  qed (simp_all only: J(3,4) lat Un_upper1)
qed


lemma step_join_fails:
  assumes inv: "sys_inv y" and p: "yPhase y cn = PNew" and f: "fresh_id env y"
    and j: "join_phase scan env cn inp (yServer y) = (Inl e, inp', sv')"
  shows "sys_inv (move cn PDone sv' y)"
proof -
  obtain s where s: "server_inv (yServer y)" "cur (yServer y) = s" "distinct (map cID (store s))" "channels_agree (yServer y)"
    using inv by (rule sys_invE)
  note J = join_phase_Inl [OF s(1) j]
  have lat: "svLatency sv' = svLatency (yServer y)" using J(2) by (simp add: quiet_def)
  have st: "extends (yServer y) sv' \<and> distinct (map cID (store (cur sv'))) \<and> channels_agree sv' \<and>
      sess_ids (cur sv') \<subseteq> sess_ids (cur (yServer y))"
    using J(6)
  proof
    assume "svMgr sv' = svMgr (yServer y)"
    then have "cur sv' = cur (yServer y)" by (simp add: cur_def)
    then show ?thesis using s(2-4) J(3) by (simp add: extends_def client_id_def channels_agree_def)
  next
    assume "\<exists>cid c. generateClientID (ceRand env) = Some cid \<and> cID c = cid \<and>
       store (cur sv') = store (cur (yServer y)) @ [c] \<and>
       gm_get (sClients (cur sv')) = (gm_get (sClients (cur (yServer y))))(cid := None)"
    then obtain cid c where c: "generateClientID (ceRand env) = Some cid" "cID c = cid"
       "store (cur sv') = store (cur (yServer y)) @ [c]"
       "gm_get (sClients (cur sv')) = (gm_get (sClients (cur (yServer y))))(cid := None)" by blast
    note fresh = fresh_unknown [OF inv f c(1)]
    have "sess_ids (cur sv') \<subseteq> sess_ids (cur (yServer y))" by (auto simp: sess_ids_iff c(4) split: if_splits)
    moreover have "extends (yServer y) sv'" by (rule extends_ids [where ks = "[cid]"]) (simp add: c)
    ultimately show ?thesis using s fresh c(2,3) channels_agree_new [OF s(4) c(3) J(3)] by simp
  qed
  have "sys_inv ((move cn PDone sv' y)\<lparr>yLeaked := yLeaked y \<union> {}\<rparr>)"
    by (rule sys_inv_end [OF inv J(1), where r = undefined]) (use st in \<open>auto simp: p J(3,4) lat\<close>)
  then show ?thesis by (simp add: move_def)
qed


lemma step_synced:
  assumes inv: "sys_inv y" and p: "yPhase y cn = PJoined r port"
    and h: "handshake_phase scan env cn (client_id r (yServer y)) inp (yServer y) = (None, inp', sv')"
  shows "sys_inv (move cn (PSynced r port) sv' y)"
proof -
  obtain s where s: "server_inv (yServer y)" "cur (yServer y) = s" "distinct (map cID (store s))" "live_refs y"
    "channels_agree (yServer y)" using inv by (rule sys_invE)
  note H = handshake_phase_effect [OF s(1) h]
  have c: "cur sv' = cur (yServer y)" using H(5) by simp
  have lat: "svLatency sv' = svLatency (yServer y)" using H(2) by (simp add: quiet_def)
  have id: "client_id r sv' = client_id r (yServer y)" by (simp add: client_id_def c)
  show ?thesis
  proof (rule sys_inv_advance [OF inv H(1)])
    show "extends (yServer y) sv'" by (rule extends_same_ids) (simp add: c)
    show "distinct (map cID (store (cur sv')))" using s(2,3) by (simp add: c)
    show "channels_agree sv'" using s(5) by (simp add: channels_agree_def client_id_def c H(3))
    show "cs_ids (svClock sv') \<subseteq> cs_ids (svClock (yServer y)) \<union> own 2 (PSynced r port) sv'"
      using H(6) by (auto simp: own_def id cs_ids_def store_clock_def)
    show "r' < length (store (cur sv'))" if "phase_ref (PSynced r port) = Some r'" for r'
      using that s(4) p unfolding c live_refs_def by (metis phase_ref.simps(1,2))
  qed (simp_all add: p c H(3) lat)
qed

lemma step_sync_fails:
  assumes inv: "sys_inv y" and p: "yPhase y cn = PJoined r port" and cid: "cid = client_id r (yServer y)"
    and h: "handshake_phase scan env cn cid inp (yServer y) = (Some e, inp', sv')"
  shows "sys_inv ((move cn PDone sv' y)\<lparr>yLeaked :=
      (case e of SendOffset x \<Rightarrow> insert cid (yLeaked y) | _ \<Rightarrow> yLeaked y)\<rparr>)"
proof -
  obtain s where s: "server_inv (yServer y)" "cur (yServer y) = s" "sess_inv s" "distinct (map cID (store s))"
    "channels_agree (yServer y)" using inv by (rule sys_invE)
  note H = handshake_phase_effect [OF s(1) h]
  have c: "cur sv' = RemoveClient cid (cur (yServer y))" using H(5) by simp
  have lat: "svLatency sv' = svLatency (yServer y)" using H(2) by (simp add: quiet_def)
  define L where "L = (case e of SendOffset x \<Rightarrow> {cid} | _ \<Rightarrow> {})"
  have L: "(case e of SendOffset x \<Rightarrow> insert cid (yLeaked y) | _ \<Rightarrow> yLeaked y) = yLeaked y \<union> L"
    by (auto simp: L_def split: hs_error.split)
  have ids: "sess_ids (cur sv') = sess_ids (cur (yServer y)) - {cid}" using s(2,3) by (simp add: c sr.ids_remove)
  show ?thesis
    unfolding L
  proof (rule sys_inv_end [OF inv H(1), where r = r])
    show "extends (yServer y) sv'" by (rule extends_same_ids) (simp add: c)
    show "distinct (map cID (store (cur sv')))" using s(2,4) by (simp add: c)
    show "channels_agree sv'" using s(5) by (simp add: channels_agree_def client_id_def c H(3))
    show "cs_ids (svClock sv') \<subseteq> cs_ids (svClock (yServer y)) \<union> L"
      using H(6) by (auto simp: L_def cs_ids_def store_clock_def)
  qed (auto simp: p H(3) lat ids cid)
qed

text \<open>A client that enters the stream gets there the channel of its object.\<close>

lemma channels_agree_enter:
  assumes "channels_agree sv" and "distinct (map cID (store (cur sv)))" and "r < length (store (cur sv))"
    and "store (cur sv') = (store (cur sv))[r := (store (cur sv) ! r)\<lparr>cWriteFunc := w\<rparr>]"
    and "svStream sv' = sm_AddClient (client_id r sv) (addr, cChannelAssign (store (cur sv) ! r)) (svStream sv)"
    and "extends sv sv'"
  shows "channels_agree sv'"
  unfolding channels_agree_def
proof (intro allI impI)
  fix r' cs assume r': "r' < length (store (cur sv'))" and cs: "gm_get (smClients (svStream sv')) (client_id r' sv') = Some cs"
  have r'': "r' < length (store (cur sv))" using r' assms(4) by simp
  have id: "client_id r' sv' = client_id r' sv" using assms(6) r'' by (simp add: extends_def)
  have ch: "cChannelAssign (store (cur sv') ! r') = cChannelAssign (store (cur sv) ! r')"
    using r'' by (cases "r' = r") (simp_all add: assms(4))
  show "csChannelAssign cs = cChannelAssign (store (cur sv') ! r')"
  proof (cases "r' = r")
    case True
    then have "csChannelAssign cs = cChannelAssign (store (cur sv) ! r)"
      using cs id by (auto simp: assms(5) sm_AddClient_def gm_get_put new_stream_def)
    then show ?thesis using ch True by simp
  next
    case False
    then have "client_id r' sv \<noteq> client_id r sv"
      using assms(2,3) r'' nth_eq_iff_index_eq [of "map cID (store (cur sv))" r' r] by (simp add: client_id_def)
    then show ?thesis using cs r'' assms(1) by (simp add: ch assms(5) id sm_AddClient_def gm_get_put channels_agree_def)
  qed
qed

lemma step_enter:
  assumes inv: "sys_inv y" and p: "yPhase y cn = PSynced r port" and o': "range_order (registered y) (ceOrder env)"
  shows "sys_inv (move cn (PLoop r) (enter_phase env cn r port (yServer y)) y)"
proof -
  obtain s where s: "server_inv (yServer y)" "cur (yServer y) = s" "distinct (map cID (store s))" "live_refs y"
    "channels_agree (yServer y)" using inv by (rule sys_invE)
  define sv' where "sv' = enter_phase env cn r port (yServer y)"
  note E = enter_phase_effect [OF s(1) order_subset [OF o'], of cn r port, folded sv'_def]
  have r: "r < length (store (cur (yServer y)))" using s(4) p unfolding live_refs_def by (metis phase_ref.simps(2))
  have st: "store (cur sv') = (store s)[r := (store s ! r)\<lparr>cWriteFunc := Some cn\<rparr>]"
    using s(2) by (simp add: E(3) SetWriteFunc_def upd_client_def)
  have ids: "map cID (store (cur sv')) = map cID (store (cur (yServer y)))"
    using s(2) r by (simp add: st map_update list_update_id) (metis list_update_id nth_map)
  then have ext: "extends (yServer y) sv'" by (rule extends_same_ids)
  have id: "client_id r' sv' = client_id r' (yServer y)" if "r' < length (store s)" for r'
    using ext that s(2) by (simp add: extends_def)
  have lat: "svLatency sv' = svLatency (yServer y)" using E(2) by (simp add: quiet_def)
  have agree: "channels_agree sv'"
    using s(5) _ r _ E(4) ext by (rule channels_agree_enter) (use s(2,3) st in simp_all)
  have "sys_inv (move cn (PLoop r) sv' y)"
  proof (rule sys_inv_advance [OF inv E(1) ext])
    show "distinct (map cID (store (cur sv')))" using s(2,3) by (simp add: ids)
    show "sess_ids (cur sv') \<subseteq> sess_ids (cur (yServer y)) \<union> own 1 (PLoop r) sv'"
      by (simp add: E(3) SetWriteFunc_def sess_ids_def)
    show "sm_ids (svStream sv') \<subseteq> sm_ids (svStream (yServer y)) \<union> own 3 (PLoop r) sv'"
      using id r s(2) by (simp add: E(4) sm_ids_def sm_AddClient_def own_def)
    show "r' < length (store (cur sv'))" if "phase_ref (PLoop r) = Some r'" for r'
      using that r s(2) by (simp add: st)
  qed (simp_all add: p lat E(5) agree)
  then show ?thesis by (simp add: sv'_def)
qed

lemma step_only:
  assumes inv: "sys_inv y" and p: "yPhase y cn = PLoop r" and i: "server_inv sv'"
    and oc: "only_client r (client_id r (yServer y)) (yServer y) sv'"
  shows "sys_inv (move cn (PLoop r) sv' y)"
proof -
  obtain s where s: "cur (yServer y) = s" "distinct (map cID (store s))" "live_refs y" "channels_agree (yServer y)"
    using inv by (rule sys_invE)
  note ids = only_client_ids [OF oc]
  have r: "r < length (store (cur (yServer y)))" using s(3) p unfolding live_refs_def by (metis phase_ref.simps(3))
  have ext: "extends (yServer y) sv'" using ids by (rule extends_same_ids)
  then have id: "client_id r sv' = client_id r (yServer y)" using r by (simp add: extends_def)
  show ?thesis
  proof (rule sys_inv_advance [OF inv i ext])
    show "distinct (map cID (store (cur sv')))" using s(1,2) by (simp add: ids)
    show "channels_agree sv'" using oc s(4) by (rule channels_agree_only)
    show "le_ids (svLatency sv') \<subseteq> le_ids (svLatency (yServer y)) \<union> own 3 (PLoop r) sv'"
      using oc id by (auto simp: only_client_def own_def)
    show "r' < length (store (cur sv'))" if "phase_ref (PLoop r) = Some r'" for r'
      using that r oc by (simp add: only_client_def)
    show "sess_ids (cur sv') \<subseteq> sess_ids (cur (yServer y)) \<union> own 1 (PLoop r) sv'"
      using oc by (simp add: only_client_def sess_ids_def)
    show "cs_ids (svClock sv') \<subseteq> cs_ids (svClock (yServer y)) \<union> own 2 (PLoop r) sv'"
      using oc by (simp add: only_client_def)
  qed (simp_all add: p only_client_sm_ids [OF oc])
qed

lemma step_message:
  assumes inv: "sys_inv y" and p: "yPhase y cn = PLoop r" and o': "range_order (registered y) (meOrder env)"
    and h: "handle_message scan env cn r (client_id r (yServer y)) msg (yServer y) = Some sv'"
  shows "sys_inv (move cn (PLoop r) sv' y)"
proof -
  have "server_inv (yServer y)" using inv by (simp add: sys_inv_def)
  then show ?thesis
    using handle_message_effect [OF _ own_client [OF inv, of cn r] order_subset [OF o'], of scan cn msg] h p
    by (intro step_only [OF inv p]) auto
qed

lemma step_tick:
  assumes inv: "sys_inv y" and p: "yPhase y cn = PLoop r"
  shows "sys_inv (move cn (PLoop r) (sync_tick now w cn (client_id r (yServer y)) (yServer y)) y)"
proof -
  have i: "server_inv (yServer y)" using inv by (simp add: sys_inv_def)
  note T = sync_tick_effect [OF i, where now = now and w = w and cn = cn and cid = "client_id r (yServer y)"]
  have "only_client r (client_id r (yServer y)) (yServer y) (sync_tick now w cn (client_id r (yServer y)) (yServer y))"
    using T(2-5) by (auto simp: only_client_def cur_def quiet_def)
  then show ?thesis using T(1) by (intro step_only [OF inv p])
qed

lemma step_leave:
  assumes inv: "sys_inv y" and p: "yPhase y cn = PLoop r" and cid: "cid = client_id r (yServer y)"
    and o': "range_order (gm_del cid (registered y)) ks"
  shows "sys_inv (move cn PDone (cleanup ks cid (yServer y)) y)"
proof -
  obtain s where s: "server_inv (yServer y)" "cur (yServer y) = s" "sess_inv s" "distinct (map cID (store s))"
    "channels_agree (yServer y)" "le_inv (svLatency (yServer y))" using inv by (rule sys_invE)
  have "set ks \<subseteq> sess_ids (cur (yServer y)) - {cid}" using o' by (auto simp: range_order_def registered_def sess_ids_def)
  note C = cleanup_effect [OF s(1) this]
  let ?sv = "cleanup ks cid (yServer y)"
  have ids: "sess_ids (cur ?sv) = sess_ids (cur (yServer y)) - {cid}" using s(2,3) by (simp add: C(2) sr.ids_remove)
  have sm: "sm_ids (svStream ?sv) = sm_ids (svStream (yServer y)) - {cid}" by (simp add: C(3) sm_ids_def sm_RemoveClient_def)
  have cs: "cs_ids (svClock ?sv) = cs_ids (svClock (yServer y)) - {cid}" by (simp add: C(4) cs_ids_def cs_RemoveClient_def)
  have le: "le_ids (svLatency ?sv) = le_ids (svLatency (yServer y)) - {cid}"
    by (simp add: C(5) le_ids_def le_RemoveClient_ok(2) [OF s(6)])
  have "channels_agree ?sv"
    by (rule channels_agree_same [OF s(5)])
      (auto simp: C(2,3) client_id_def sm_RemoveClient_def gm_get_del split: if_splits)
  moreover have "extends (yServer y) ?sv" by (rule extends_same_ids) (simp add: C(2))
  moreover have "distinct (map cID (store (cur ?sv)))" using s(2,4) by (simp add: C(2))
  ultimately have "sys_inv ((move cn PDone ?sv y)\<lparr>yLeaked := yLeaked y \<union> {}\<rparr>)"
    using C(1) by (intro sys_inv_end [OF inv, where r = r]) (auto simp: p ids sm cs le cid [symmetric])
  then show ?thesis by (simp add: move_def)
qed


text \<open>Steps that touch the stream manager only.\<close>

lemma step_stream:
  assumes inv: "sys_inv y" and m: "sm_inv m"
    and keep: "\<And>k. map_option csChannelAssign (gm_get (smClients m) k) =
      map_option csChannelAssign (gm_get (smClients (svStream (yServer y))) k)"
  shows "sys_inv (on_stream m y)"
proof -
  have i: "server_inv (yServer y)" "channels_agree (yServer y)" using inv by (simp_all add: sys_inv_def)
  let ?sv = "(yServer y)\<lparr>svStream := m\<rparr>"
  have cur: "cur ?sv = cur (yServer y)" by (simp add: cur_def)
  have "(gm_get (smClients m) k = None) = (gm_get (smClients (svStream (yServer y))) k = None)" for k
    using keep [of k] by (metis option.map_disc_iff)
  then have ids: "sm_ids m = sm_ids (svStream (yServer y))" by (auto simp: sm_ids_def gm_get_None_iff)
  have "channels_agree ?sv"
  proof (rule channels_agree_same [OF i(2)])
    show "\<exists>cs0. gm_get (smClients (svStream (yServer y))) k = Some cs0 \<and> csChannelAssign cs0 = csChannelAssign cs"
      if "gm_get (smClients (svStream ?sv)) k = Some cs" for k cs
      using that keep [of k] by (cases "gm_get (smClients (svStream (yServer y))) k") auto
  qed (simp add: client_id_def cur)
  then show ?thesis
    using server_inv_stream [OF i(1) m] by (intro sys_inv_same [OF inv]) (simp_all add: on_stream_def cur ids)
qed

lemma SendAudio_clients:
  "SendAudio choice data ch ts codec m = Some m' \<Longrightarrow> smClients m' = smClients m"
  by (auto simp: SendAudio_def pool_get_def pool_put_def Let_def split: option.splits if_splits)

lemma loop_recv_inv:
  assumes "sm_inv m" and "loop_recv quit m = Some m'" shows "sm_inv m' \<and> smClients m' = smClients m"
proof -
  consider "m' = m\<lparr>smLoopDone := True\<rparr>" | "smSending m = None" "\<And>p ps. smQueue m = p # ps \<Longrightarrow>
      m' = m\<lparr>smQueue := ps, smSending := Some p\<rparr>" "smQueue m \<noteq> []"
    using assms(2) by (auto simp: loop_recv_def split: if_splits list.splits option.splits)
  then show ?thesis
  proof cases
    case 1
    then show ?thesis using assms(1) by (simp add: sm_inv_def held_def)
  next
    case 2
    then obtain p ps where q: "smQueue m = p # ps" by (cases "smQueue m") auto
    show ?thesis using assms(1) 2(1) 2(2) [OF q] q by (auto simp: sm_inv_def held_def)
  qed
qed

lemma loop_send_clients:
  assumes "sm_inv m" and "range_order (smClients m) ks" and "loop_send werr ks m = (ds, m')"
  shows "sm_inv m' \<and> map_option csChannelAssign (gm_get (smClients m') k) = map_option csChannelAssign (gm_get (smClients m) k)"
proof (cases "smSending m")
  case None
  then show ?thesis using assms by (simp add: loop_send_def)
next
  case (Some p)
  let ?d = "take (bpLength p) (smBufs m ! bpRef p)"
  have "length ?d \<le> MaxPayloadSize" using assms(1) Some by (auto simp: sm_inv_def)
  then obtain m1 ds1 where m1: "doSendAudio werr ks ?d (bpChannel p) (bpTimestamp p) (bpCodec p) m = (ds1, m1)"
    "gm_get (smClients m1) =
      (\<lambda>k. map_option (\<lambda>cs. if wants (bpChannel p) cs then bump cs else cs) (gm_get (smClients m) k))"
    using doSendAudio_effect [OF assms(1,2)] by blast
  have "smClients m' = smClients m1" using assms(3) m1(1) Some by (auto simp: loop_send_def Let_def pool_put_def)
  then show ?thesis using loop_send_frames [OF assms(1) Some assms(2), of werr] assms(3) m1(2)
    by (auto simp: option.map_comp comp_def bump_def intro!: option.map_cong)
qed

lemma receive_clients:
  "map_option csChannelAssign (gm_get (smClients (receive d a m)) k) = map_option csChannelAssign (gm_get (smClients m) k)"
proof (cases "unmarshal (take MaxPacketSize d)")
  case (Inl e)
  then show ?thesis by (simp add: receive_def)
next
  case (Inr pkt)
  then show ?thesis
    by (cases "gm_get (smClients m) (bytes_string (Payload pkt))") (simp_all add: receive_def gm_get_put)
qed

lemma step_evict:
  assumes inv: "sys_inv y" and t: "monitor_tick now ks (svMgr (yServer y)) = (evicted, m)"
  shows "sys_inv (y\<lparr>yServer := (yServer y)\<lparr>svMgr := m\<rparr>\<rparr>)"
proof -
  obtain s where s: "server_inv (yServer y)" "mSession (svMgr (yServer y)) = Some s" "cur (yServer y) = s" "sess_inv s"
    "channels_agree (yServer y)" using inv by (rule sys_invE)
  show ?thesis
  proof (cases "mStopped (svMgr (yServer y))")
    case True
    then have "m = svMgr (yServer y)" using t by (simp add: monitor_tick_def)
    then show ?thesis using inv by simp
  next
    case False
    define s' where "s' = fold RemoveClient (stale_ids now ks s) s"
    have m: "m = (svMgr (yServer y))\<lparr>mSession := Some s'\<rparr>"
      using t False s(2) by (auto simp: monitor_tick_def GetSession_def EvictStaleClients_def Let_def s'_def)
    have s': "store s' = store s" "sess_inv s'" "sess_ids s' \<subseteq> sess_ids s"
      using s(4) by (auto simp: s'_def sess_inv_fold_RemoveClient sess_ids_iff gm_get_fold_del split: if_splits)
    let ?sv = "(yServer y)\<lparr>svMgr := m\<rparr>"
    have cur: "cur ?sv = s'" by (simp add: cur_def m)
    have "server_inv ?sv" using s(1,2) s'(1,2) by (simp add: server_inv_def m)
    moreover have "channels_agree ?sv"
      using s(3,5) by (simp add: channels_agree_def client_id_def cur s'(1))
    ultimately show ?thesis using s' s(3) cur by (intro sys_inv_same [OF inv]) simp_all
  qed
qed

lemma step_deliver: assumes inv: "sys_inv y" shows "sys_inv (y\<lparr>yServer := run_pending i w (yServer y)\<rparr>)"
proof -
  have i: "server_inv (yServer y)" "channels_agree (yServer y)" using inv by (simp_all add: sys_inv_def)
  have cur: "cur (run_pending i w (yServer y)) = cur (yServer y)" by (simp add: cur_def)
  have "channels_agree (run_pending i w (yServer y))" using i(2) by (simp add: channels_agree_def client_id_def cur)
  then show ?thesis using run_pending_inv [OF i(1)] by (intro sys_inv_same [OF inv]) (simp_all add: cur)
qed

lemma serve_cases:
  assumes "serve env meth path body h sv = (resp, h', sv')"
  obtains "sv' = sv" | "handleChannelAssign env body h sv = (resp, h', sv')" | "handleKick env body h sv = (resp, h', sv')"
  using assms by (auto simp: serve_def split: option.splits handler.splits)

text \<open>A channel set in the session and at the stream manager keeps the two in agreement.\<close>

lemma agree_set_channel:
  assumes agree: "channels_agree sv" and dist: "distinct (map cID (store (cur sv)))"
    and r: "r < length (store (cur sv))" "cID (store (cur sv) ! r) = cid"
    and st: "store (cur sv') = (store (cur sv))[r := (store (cur sv) ! r)\<lparr>cChannelAssign := ch\<rparr>]"
    and sm: "svStream sv' = sm_SetChannel cid ch (svStream sv)"
  shows "map cID (store (cur sv')) = map cID (store (cur sv)) \<and> channels_agree sv'"
proof -
  have ids: "map cID (store (cur sv')) = map cID (store (cur sv))"
    using r by (simp add: st map_update) (metis list_update_id nth_map)
  have "channels_agree sv'"
    unfolding channels_agree_def
  proof (intro allI impI)
    fix r' cs assume "r' < length (store (cur sv'))" and cs: "gm_get (smClients (svStream sv')) (client_id r' sv') = Some cs"
    then have r': "r' < length (store (cur sv))" using st by simp
    then have id: "client_id r' sv' = cID (store (cur sv) ! r')"
      using ids st by (metis client_id_def length_list_update nth_map)
    show "csChannelAssign cs = cChannelAssign (store (cur sv') ! r')"
    proof (cases "r' = r")
      case True
      then have "csChannelAssign cs = ch"
        using cs id r by (auto simp: sm sm_SetChannel_def gm_get_upd split: if_splits)
      then show ?thesis using True r by (simp add: st)
    next
      case False
      then have "cID (store (cur sv) ! r') \<noteq> cid"
        using dist r r' nth_eq_iff_index_eq [of "map cID (store (cur sv))" r' r] by simp
      then show ?thesis using cs r' False agree
        by (simp add: id sm st sm_SetChannel_def gm_get_upd channels_agree_def client_id_def)
    qed
  qed
  then show ?thesis using ids by simp
qed

lemma step_channel:
  assumes inv: "sys_inv y" and h: "handleChannelAssign env body (yHttp y) (yServer y) = (resp, h', sv')"
  shows "sv' = yServer y \<or> sys_inv (y\<lparr>yHttp := h', yServer := sv'\<rparr>)"
proof -
  obtain s where s: "server_inv (yServer y)" "mSession (svMgr (yServer y)) = Some s" "cur (yServer y) = s" "sess_inv s"
    "distinct (map cID (store s))" "channels_agree (yServer y)" using inv by (rule sys_invE)
  show ?thesis
  proof (cases "\<exists>req r. decode_bytes (heScan env) dec_channel_req body = Inr req \<and> GetClient (cqClientID req) s = Some r")
    case False
    then show ?thesis using h s(2) by (auto simp: handleChannelAssign_def GetSession_def split: sum.splits option.splits)
  next
    case True
    then obtain req r where q: "decode_bytes (heScan env) dec_channel_req body = Inr req" "GetClient (cqClientID req) s = Some r"
      by blast
    have e: "server_inv sv'" "cur sv' = cl_SetChannel r (cqChannel req) s"
      "svStream sv' = sm_SetChannel (cqClientID req) (cqChannel req) (svStream (yServer y))"
      "svClock sv' = svClock (yServer y)" "svLatency sv' = svLatency (yServer y)"
      using handleChannelAssign_effect [OF s(1) q(1) q(2) [folded s(3)], of "yHttp y"] h s(3) by auto
    have r: "r < length (store s)" "cID (store s ! r) = cqClientID req" using q(2) s(4) by (simp_all add: GetClient_def sess_inv_def)
    have "map cID (store (cur sv')) = map cID (store s) \<and> channels_agree sv'"
      using agree_set_channel [OF s(6), of r "cqClientID req" sv' "cqChannel req"] s(3,5) r e(2,3)
      by (simp add: cl_SetChannel_def upd_client_def)
    then show ?thesis
      using e s(3)
      by (intro disjI2 sys_inv_same [OF inv]) (simp_all add: sess_ids_def cl_SetChannel_def sm_ids_def sm_SetChannel_def)
  qed
qed

lemma step_kick:
  assumes inv: "sys_inv y" and h: "handleKick env body (yHttp y) (yServer y) = (resp, h', sv')"
  shows "sv' = yServer y \<or> sys_inv (y\<lparr>yHttp := h', yServer := sv'\<rparr>)"
proof -
  obtain s where s: "server_inv (yServer y)" "mSession (svMgr (yServer y)) = Some s" "cur (yServer y) = s" "sess_inv s"
    "distinct (map cID (store s))" "channels_agree (yServer y)" using inv by (rule sys_invE)
  show ?thesis
  proof (cases "decode_bytes (heScan env) dec_kick_req body")
    case (Inl e)
    then show ?thesis using h by (simp add: handleKick_def)
  next
    case (Inr req)
    have e: "server_inv sv'" "cur sv' = RemoveClient (kqClientID req) s"
      "svStream sv' = sm_RemoveClient (kqClientID req) (svStream (yServer y))"
      "svClock sv' = svClock (yServer y)" "svLatency sv' = svLatency (yServer y)"
      using handleKick_effect [OF s(1) Inr, of "yHttp y"] h s(3) by auto
    have "channels_agree sv'"
      by (rule channels_agree_same [OF s(6)])
        (auto simp: e(2,3) client_id_def s(3) sm_RemoveClient_def gm_get_del split: if_splits)
    moreover have "sess_ids (cur sv') \<subseteq> sess_ids s" using s(4) by (auto simp: e(2) sr.ids_remove)
    ultimately show ?thesis
      using e s(3) by (intro disjI2 sys_inv_same [OF inv]) (auto simp: sm_ids_def sm_RemoveClient_def)
  qed
qed

lemma step_request:
  assumes inv: "sys_inv y" and r: "serve env meth path body (yHttp y) (yServer y) = (resp, h', sv')"
  shows "sys_inv (y\<lparr>yHttp := h', yServer := sv'\<rparr>)"
proof -
  have same: "sys_inv (y\<lparr>yHttp := h', yServer := yServer y\<rparr>)"
    using inv unfolding sys_inv_def by (simp add: ids_at_def live_refs_def)
  from r show ?thesis
    by (cases rule: serve_cases) (use same step_channel [OF inv] step_kick [OF inv] in blast)+
qed

lemma sys_step_inv: "sys_step scan y y' \<Longrightarrow> sys_inv y \<Longrightarrow> sys_inv y'"
proof (induction rule: sys_step.induct)
  case (audio choice data channel ts codec y m)
  have "sm_inv (svStream (yServer y))" using audio(2) by (rule sys_invE)
  then show ?case using SendAudio_frames [where m = "svStream (yServer y)" and choice = choice and data = data
      and channel = channel and ts = ts and codec = codec] audio
    by (intro step_stream) (simp_all add: SendAudio_clients [OF audio(1)])
next
  case (take_frame quit y m)
  have "sm_inv (svStream (yServer y))" using take_frame(2) by (rule sys_invE)
  then show ?case using loop_recv_inv [of _ quit m] take_frame by (intro step_stream) simp_all
next
  case (send_frame y ks werr ds m)
  have "sm_inv (svStream (yServer y))" using send_frame(3) by (rule sys_invE)
  then show ?case using loop_send_clients [OF _ send_frame(1,2)] send_frame(3) by (intro step_stream) blast+
next
  case (datagram y d a)
  have "sm_inv (svStream (yServer y))" using datagram by (rule sys_invE)
  then show ?case using datagram by (intro step_stream sm_inv_receive) (simp_all add: receive_clients)
qed (fact step_join step_join_fails step_synced step_sync_fails step_enter step_message step_tick step_leave
    step_deliver step_evict step_request | blast intro: step_join step_join_fails step_synced step_sync_fails
    step_enter step_message step_tick step_leave step_deliver step_evict step_request)+

lemma start_sys_inv:
  assumes "sess_ids s = {}" and "store s = []" and "sess_inv s"
  shows "sys_inv (start_sys s lat udpPort httpPort)"
proof -
  have "server_inv (start_server s lat udpPort)" using assms by (intro start_server_inv) simp_all
  moreover have "cur (start_server s lat udpPort) = s" by simp
  ultimately show ?thesis using assms(1,2)
    by (simp add: sys_inv_def start_sys_def live_refs_def channels_agree_def)
      (simp add: start_server_def sm_ids_def StartReceiver_def sm_NewManager_def le_ids_def cs_ids_def
        SetLoopbackCompensation_def NewLatencyEqualizer_def NewClockSync_def)
qed

lemma sys_reach_inv: "sys_reach scan y0 y \<Longrightarrow> sys_inv y0 \<Longrightarrow> sys_inv y"
  by (induction rule: sys_reach.induct) (blast intro: sys_step_inv)+



section \<open>Properties\<close>

lemma reach_start_inv:
  assumes "sess_inv s" and "store s = []" and "sys_reach scan (start_sys s lat udpPort httpPort) y"
  shows "sys_inv y"
proof -
  have "sess_ids s = {}" using assms(1,2) by (auto simp: sess_inv_def sess_ids_iff)
  then show ?thesis using assms by (blast intro: sys_reach_inv start_sys_inv)
qed


lemma ids_at_ended: "\<forall>cn. phase_ref (yPhase y cn) = None \<Longrightarrow> ids_at n y = {}"
  by (auto simp: ids_at_def)


text \<open>
  C29: in every reachable state, every message that was written and every broadcast that waits marshals to
  JSON, the global delay is a finite number between 20 and 500 ms, and the handler of any message of any
  client in its read loop returns: the nil call of the frame-size callback cannot happen.
\<close>

theorem messages_well_formed:
  assumes "sess_inv s" and "store s = []" and "sys_reach scan (start_sys s lat udpPort httpPort) y"
  shows "list_all (\<lambda>(cn, m). \<exists>j. enc_server_msg (exact_decimal F64) m = Inr j) (svOut (yServer y)) \<and>
    list_all (\<lambda>(r, m). \<exists>j. enc_server_msg (exact_decimal F64) m = Inr j) (svPending (yServer y)) \<and>
    delay_ok (GlobalDelay (svLatency (yServer y))) \<and>
    handle_message scan env cn r cid msg (yServer y) \<noteq> None"
proof -
  have i: "server_inv (yServer y)" using reach_start_inv [OF assms] by (simp add: sys_inv_def)
  have ok: "(\<exists>j. enc_server_msg (exact_decimal F64) m = Inr j) \<longleftrightarrow> msg_ok m" for m
    by (simp add: msg_ok_def split: sum.split)
  have "list_all (\<lambda>(r, m). msg_ok m) (svPending (yServer y))"
    using i by (auto simp: server_inv_def list_all_iff)
  moreover have "has_frameSetter (svLatency (yServer y))" using i by (simp add: server_inv_def)
  ultimately show ?thesis
    using i handle_message_total [of "yServer y" scan env cn r cid msg]
    by (auto simp: ok server_inv_def le_inv_def GlobalDelay_def)
qed



text \<open>The identifier of a clock entry that belongs to no connection any more.\<close>

definition stranded :: "string \<Rightarrow> sys \<Rightarrow> bool" where
  "stranded k y \<longleftrightarrow>
     k \<in> cs_ids (svClock (yServer y)) \<and> k \<in> set (map cID (store (cur (yServer y)))) \<and>
     (\<forall>cn r. phase_ref (yPhase y cn) = Some r \<longrightarrow> client_id r (yServer y) \<noteq> k)"

lemma stranded_keep:
  assumes "stranded k y" and "live_refs y"
    and ids: "map cID (store (cur (yServer y'))) = map cID (store (cur (yServer y))) @ ks"
    and ph: "\<And>cn r. phase_ref (yPhase y' cn) = Some r \<Longrightarrow>
      (\<exists>cn'. phase_ref (yPhase y cn') = Some r) \<or> client_id r (yServer y') \<noteq> k"
    and "k \<in> cs_ids (svClock (yServer y'))"
  shows "stranded k y'"
proof -
  have ext: "extends (yServer y) (yServer y')" using ids by (rule extends_ids)
  have "client_id r (yServer y') \<noteq> k" if "phase_ref (yPhase y' cn) = Some r" for cn r
    using ph [OF that] extends_id [OF ext assms(2)] assms(1) by (auto simp: stranded_def)
  then show ?thesis using assms(1,5) ids by (simp add: stranded_def)
qed

lemma stranded_own: "stranded k y \<Longrightarrow> phase_ref (yPhase y cn) = Some r \<Longrightarrow> client_id r (yServer y) \<noteq> k"
  by (auto simp: stranded_def)

text \<open>The same for a step that moves one connection, and for one that moves none.\<close>

lemma stranded_move:
  assumes "stranded k y" and "live_refs y"
    and ids: "map cID (store (cur sv')) = map cID (store (cur (yServer y))) @ ks"
    and p: "\<And>r. phase_ref p = Some r \<Longrightarrow> phase_ref (yPhase y cn) = Some r \<or> client_id r sv' \<noteq> k"
    and "k \<in> cs_ids (svClock sv')"
  shows "stranded k (move cn p sv' y)"
proof (rule stranded_keep [OF assms(1,2)])
  fix cn' r assume "phase_ref (yPhase (move cn p sv' y) cn') = Some r"
  then show "(\<exists>cn'. phase_ref (yPhase y cn') = Some r) \<or> client_id r (yServer (move cn p sv' y)) \<noteq> k"
    using p [of r] by (cases "cn' = cn") auto
qed (use assms in simp_all)

lemma stranded_same:
  assumes "stranded k y" and "live_refs y" and "yPhase y' = yPhase y"
    and "map cID (store (cur (yServer y'))) = map cID (store (cur (yServer y)))"
    and "svClock (yServer y') = svClock (yServer y)"
  shows "stranded k y'"
  by (rule stranded_keep [OF assms(1,2), where ks = "[]"]) (use assms in \<open>auto simp: stranded_def\<close>)

lemma stranded_leaked [simp]: "stranded k (y\<lparr>yLeaked := L\<rparr>) = stranded k y"
  by (simp add: stranded_def)

lemma serve_ids:
  assumes inv: "sys_inv y" and r: "serve env meth path body (yHttp y) (yServer y) = (resp, h', sv')"
  shows "map cID (store (cur sv')) = map cID (store (cur (yServer y)))" "svClock sv' = svClock (yServer y)"
proof -
  obtain s where s: "mSession (svMgr (yServer y)) = Some s" "cur (yServer y) = s" "sess_inv s"
    using inv by (rule sys_invE)
  from r have "map cID (store (cur sv')) = map cID (store (cur (yServer y))) \<and> svClock sv' = svClock (yServer y)"
    by (cases rule: serve_cases)
      (auto simp: handleChannelAssign_def handleKick_def GetSession_def Let_def s cl_SetChannel_def upd_client_def
        map_field_update split: sum.splits option.splits)
  then show "map cID (store (cur sv')) = map cID (store (cur (yServer y)))" "svClock sv' = svClock (yServer y)" by simp_all
qed

lemma stranded_join:
  assumes inv: "sys_inv y" and k: "stranded k y" and f: "fresh_id env y"
    and j: "join_phase scan env cn inp (yServer y) = (Inr (r, port), inp', sv')"
  shows "stranded k (move cn (PJoined r port) sv' y)"
proof -
  obtain s where s: "server_inv (yServer y)" "live_refs y" using inv by (rule sys_invE)
  obtain cid c where J: "svClock sv' = svClock (yServer y)" "generateClientID (ceRand env) = Some cid" "cID c = cid"
    "store (cur sv') = store (cur (yServer y)) @ [c]" "client_id r sv' = cid"
    using s(1) j by (rule join_phase_Inr) blast
  have "cid \<noteq> k" using fresh_unknown(1) [OF inv f J(2)] k by (auto simp: stranded_def)
  then show ?thesis
    using k J by (intro stranded_move [OF k s(2), where ks = "[cid]"]) (auto simp: stranded_def)
qed

lemma stranded_join_fails:
  assumes inv: "sys_inv y" and k: "stranded k y"
    and j: "join_phase scan env cn inp (yServer y) = (Inl f, inp', sv')"
  shows "stranded k (move cn PDone sv' y)"
proof -
  obtain s where s: "server_inv (yServer y)" "live_refs y" using inv by (rule sys_invE)
  note J = join_phase_Inl [OF s(1) j]
  have "\<exists>ks. map cID (store (cur sv')) = map cID (store (cur (yServer y))) @ ks"
    using J(6)
  proof
    assume "svMgr sv' = svMgr (yServer y)"
    then show ?thesis by (simp add: cur_def)
  qed auto
  then obtain ks where "map cID (store (cur sv')) = map cID (store (cur (yServer y))) @ ks" by blast
  then show ?thesis
    using k by (intro stranded_move [OF k s(2), where ks = ks]) (simp_all add: J(4) stranded_def)
qed

lemma stranded_handshake:
  assumes inv: "sys_inv y" and k: "stranded k y"
    and h: "handshake_phase scan env cn cid inp (yServer y) = (err, inp', sv')"
    and p: "phase_ref p \<in> {None, phase_ref (yPhase y cn)}"
  shows "stranded k (move cn p sv' y)"
proof -
  obtain s where s: "server_inv (yServer y)" "live_refs y" using inv by (rule sys_invE)
  note H = handshake_phase_effect [OF s(1) h]
  have "map cID (store (cur sv')) = map cID (store (cur (yServer y))) @ []" by (simp add: H(5))
  moreover have "k \<in> cs_ids (svClock sv')"
    using H(6) k by (auto simp: stranded_def cs_ids_def store_clock_def)
  ultimately show ?thesis using p by (intro stranded_move [OF k s(2)]) auto
qed

lemma stranded_enter:
  assumes inv: "sys_inv y" and k: "stranded k y"
    and p: "yPhase y cn = PSynced r port" and o': "range_order (registered y) (ceOrder env)"
  shows "stranded k (move cn (PLoop r) (enter_phase env cn r port (yServer y)) y)"
proof -
  obtain s where s: "server_inv (yServer y)" "live_refs y" using inv by (rule sys_invE)
  note E = enter_phase_effect [OF s(1) order_subset [OF o'], of cn r port]
  show ?thesis
    using k p by (intro stranded_move [OF k s(2), where ks = "[]"])
      (simp_all add: E(3,5) SetWriteFunc_def upd_client_def map_field_update stranded_def)
qed

lemma stranded_only:
  assumes inv: "sys_inv y" and k: "stranded k y" and p: "yPhase y cn = PLoop r"
    and oc: "only_client r (client_id r (yServer y)) (yServer y) sv'"
  shows "stranded k (move cn (PLoop r) sv' y)"
proof -
  obtain s where s: "live_refs y" using inv by (rule sys_invE)
  have "cs_ids (svClock sv') = cs_ids (svClock (yServer y))" using oc by (simp add: only_client_def)
  then show ?thesis
    using k p by (intro stranded_move [OF k s, where ks = "[]"]) (simp_all add: only_client_ids [OF oc] stranded_def)
qed

lemma stranded_leave:
  assumes inv: "sys_inv y" and k: "stranded k y" and p: "yPhase y cn = PLoop r" and cid: "cid = client_id r (yServer y)"
    and o': "range_order (gm_del cid (registered y)) ks"
  shows "stranded k (move cn PDone (cleanup ks cid (yServer y)) y)"
proof -
  obtain s where s: "server_inv (yServer y)" "live_refs y" using inv by (rule sys_invE)
  have "set ks \<subseteq> sess_ids (cur (yServer y)) - {cid}"
    using o' by (auto simp: range_order_def registered_def sess_ids_def)
  note C = cleanup_effect [OF s(1) this]
  have "cid \<noteq> k" using stranded_own [OF k, of cn r] p cid by simp
  then have "k \<in> cs_ids (svClock (cleanup ks cid (yServer y)))"
    using k by (simp add: C(4) cs_ids_def cs_RemoveClient_def stranded_def)
  then show ?thesis by (intro stranded_move [OF k s(2), where ks = "[]"]) (simp_all add: C(2))
qed

lemma stranded_stream: "stranded k y \<Longrightarrow> stranded k (on_stream m y)"
  by (simp add: stranded_def on_stream_def client_id_def cur_def)

lemma stranded_message:
  assumes "sys_inv y" and "stranded k y" and "yPhase y cn = PLoop r" and "range_order (registered y) (meOrder env)"
    and "handle_message scan env cn r (client_id r (yServer y)) msg (yServer y) = Some sv'"
  shows "stranded k (move cn (PLoop r) sv' y)"
proof -
  have "server_inv (yServer y)" using assms(1) by (simp add: sys_inv_def)
  then have "only_client r (client_id r (yServer y)) (yServer y) sv'"
    using handle_message_effect [OF _ own_client [OF assms(1), of cn r] order_subset [OF assms(4)], of scan cn msg] assms(3,5)
    by auto
  then show ?thesis by (rule stranded_only [OF assms(1-3)])
qed

lemma stranded_tick:
  assumes "sys_inv y" and "stranded k y" and "yPhase y cn = PLoop r"
  shows "stranded k (move cn (PLoop r) (sync_tick now w cn (client_id r (yServer y)) (yServer y)) y)"
proof -
  have "server_inv (yServer y)" using assms(1) by (simp add: sys_inv_def)
  note T = sync_tick_effect [OF this, where now = now and w = w and cn = cn and cid = "client_id r (yServer y)"]
  have "only_client r (client_id r (yServer y)) (yServer y) (sync_tick now w cn (client_id r (yServer y)) (yServer y))"
    using T(2-5) by (auto simp: only_client_def cur_def quiet_def)
  then show ?thesis by (rule stranded_only [OF assms])
qed

lemma stranded_step:
  "sys_step scan y y' \<Longrightarrow> sys_inv y \<Longrightarrow> stranded k y \<Longrightarrow> stranded k y'"
proof (induction rule: sys_step.induct)
  case (join y cn env inp r port inp' sv')
  show ?case using join.prems join(2,3) by (rule stranded_join)
next
  case (join_fails y cn env inp f inp' sv')
  show ?case using join_fails.prems join_fails(3) by (rule stranded_join_fails)
next
  case (synced y cn r port env inp inp' sv')
  show ?case by (rule stranded_handshake [OF synced.prems synced(2)]) (simp add: synced(1))
next
  case (sync_fails y cn r port cid env inp e inp' sv')
  show ?case unfolding stranded_leaked by (rule stranded_handshake [OF sync_fails.prems sync_fails(3)]) simp
next
  case (enter y cn r port env)
  show ?case using enter.prems enter(1,2) by (rule stranded_enter)
next
  case (message y cn r env msg sv')
  show ?case using message.prems message(1-3) by (rule stranded_message)
next
  case (tick y cn r now w)
  show ?case using tick.prems tick(1) by (rule stranded_tick)
next
  case (leave y cn r cid ks)
  show ?case using leave.prems leave(1-3) by (rule stranded_leave)
next
  case (deliver y i w)
  obtain s where s: "live_refs y" using deliver.prems(1) by (rule sys_invE)
  show ?case by (rule stranded_same [OF deliver.prems(2) s]) (simp_all add: cur_def)
next
  case (evict y ks now evicted m)
  obtain s where s: "mSession (svMgr (yServer y)) = Some s" "cur (yServer y) = s" "live_refs y"
    using evict.prems(1) by (rule sys_invE)
  show ?case
    using evict(2) s by (intro stranded_same [OF evict.prems(2) s(3)])
      (auto simp: monitor_tick_def GetSession_def EvictStaleClients_def Let_def cur_def split: if_splits)
next
  case (request env meth path body y resp h' sv')
  obtain s where s: "live_refs y" using request.prems(1) by (rule sys_invE)
  show ?case by (rule stranded_same [OF request.prems(2) s]) (simp_all add: serve_ids [OF request.prems(1) request(1)])
qed (rule stranded_stream, assumption)+

lemma stranded_reach: "sys_reach scan y0 y \<Longrightarrow> sys_inv y0 \<Longrightarrow> stranded k y0 \<Longrightarrow> stranded k y"
proof (induction rule: sys_reach.induct)
  case (step y y')
  then show ?case using sys_reach_inv stranded_step by blast
qed


text \<open>No two connections have the same object.\<close>

definition own_refs :: "sys \<Rightarrow> bool" where
  "own_refs y \<longleftrightarrow>
     (\<forall>a b r. phase_ref (yPhase y a) = Some r \<longrightarrow> phase_ref (yPhase y b) = Some r \<longrightarrow> a = b)"

lemma own_refs_move:
  assumes "own_refs y"
    and "phase_ref p \<in> {None, phase_ref (yPhase y cn)} \<or> (\<forall>a. phase_ref (yPhase y a) \<noteq> phase_ref p)"
  shows "own_refs (move cn p sv' y)"
  unfolding own_refs_def
proof (intro allI impI)
  fix a b r
  assume ab: "phase_ref (yPhase (move cn p sv' y) a) = Some r" "phase_ref (yPhase (move cn p sv' y) b) = Some r"
  have "a = b" if "phase_ref (yPhase y a) = Some r" "phase_ref (yPhase y b) = Some r"
    using that assms(1) unfolding own_refs_def by blast
  then show "a = b" using ab assms(2) by (cases "a = cn"; cases "b = cn") auto
qed

lemma own_refs_same: "own_refs y \<Longrightarrow> yPhase y' = yPhase y \<Longrightarrow> own_refs y'"
  by (simp add: own_refs_def)

lemma own_refs_step: "sys_step scan y y' \<Longrightarrow> sys_inv y \<Longrightarrow> own_refs y \<Longrightarrow> own_refs y'"
proof (induction rule: sys_step.induct)
  case (join y cn env inp r port inp' sv')
  obtain s where s: "server_inv (yServer y)" "live_refs y" using join.prems(1) by (rule sys_invE)
  have "r = length (store (cur (yServer y)))" using s(1) join(3) by (rule join_phase_Inr)
  then have "phase_ref (yPhase y a) \<noteq> Some r" for a using s(2) by (auto simp: live_refs_def)
  then show ?case by (intro own_refs_move [OF join.prems(2)]) simp
next
  case (sync_fails y cn r port cid env inp e inp' sv')
  have "own_refs (move cn PDone sv' y)" by (rule own_refs_move [OF sync_fails.prems(2)]) simp
  then show ?case by (rule own_refs_same) simp
qed ((erule own_refs_move, simp)+, (erule own_refs_same, simp add: on_stream_def)+)

lemma own_refs_reach: "sys_reach scan y0 y \<Longrightarrow> sys_inv y0 \<Longrightarrow> own_refs y0 \<Longrightarrow> own_refs y"
proof (induction rule: sys_reach.induct)
  case (step y y')
  then show ?case using sys_reach_inv own_refs_step by blast
qed

text \<open>
  An entry of the clock component leaks for good. When the last write of a handshake fails, the
  connection ends and its client is removed from the session; whatever happens afterwards, the clock
  component keeps the entry, under an identifier that no client will have again.
\<close>

theorem clock_entry_permanent:
  assumes "sess_inv s" and "store s = []" and "sys_reach scan (start_sys s lat udpPort httpPort) y"
    and "yPhase y cn = PJoined r port" and "cid = client_id r (yServer y)"
    and "handshake_phase scan env cn cid inp (yServer y) = (Some (SendOffset x), inp', sv')"
    and "sys_reach scan ((move cn PDone sv' y)\<lparr>yLeaked := insert cid (yLeaked y)\<rparr>) z"
  shows "cid \<in> cs_ids (svClock (yServer z)) \<and> cid \<notin> sess_ids (cur (yServer z))"
proof -
  let ?z = "(move cn PDone sv' y)\<lparr>yLeaked := insert cid (yLeaked y)\<rparr>"
  have i: "sys_inv y" using assms(1-3) by (rule reach_start_inv)
  then obtain t where t: "server_inv (yServer y)" "cur (yServer y) = t" "distinct (map cID (store t))" "live_refs y"
    by (rule sys_invE)
  have "own_refs (start_sys s lat udpPort httpPort)" by (simp add: own_refs_def start_sys_def)
  moreover have "sys_inv (start_sys s lat udpPort httpPort)" using assms(1,2) start by (rule reach_start_inv)
  ultimately have own: "own_refs y" using assms(3) by (blast intro: own_refs_reach)
  note H = handshake_phase_effect [OF t(1) assms(6)]
  have iz: "sys_inv ?z"
    using step_sync_fails [OF i assms(4,5,6)] by simp
  have r: "r < length (store t)" using t(2,4) assms(4) unfolding live_refs_def by (metis phase_ref.simps(1))
  have other: "client_id r' (yServer y) \<noteq> cid" if "phase_ref (yPhase y a) = Some r'" "a \<noteq> cn" for a r'
  proof -
    have "r' \<noteq> r" using own that assms(4) unfolding own_refs_def by (metis phase_ref.simps(1))
    moreover have "r' < length (store t)" using that(1) t(2,4) by (auto simp: live_refs_def)
    ultimately show ?thesis
      using t(2,3) r assms(5) nth_eq_iff_index_eq [of "map cID (store t)" r' r] by (simp add: client_id_def)
  qed
  have c: "map cID (store (cur sv')) = map cID (store t)" by (simp add: H(5) t(2))
  have "client_id r' sv' = client_id r' (yServer y)" for r' by (simp add: client_id_def H(5))
  then have "stranded cid ?z"
    using H(6) other r t(2) assms(5) unfolding stranded_def
    by (auto simp: c [unfolded list.set_map [symmetric]] cs_ids_def store_clock_def client_id_def H(5) split: if_splits)
  then have "stranded cid z" using assms(7) iz by (blast intro: stranded_reach)
  moreover have "sess_ids (cur (yServer z)) \<subseteq> ids_at 1 z"
    using sys_reach_inv [OF assms(7) iz] by (simp add: sys_inv_def)
  ultimately show ?thesis unfolding stranded_def by (blast elim: ids_atE)
qed


section \<open>Runs\<close>

text \<open>A session without clients, and a connection that presents its token and answers the probes.\<close>

definition wit_s0 :: session where
  "wit_s0 = sess1\<lparr>sClients := gm_empty, store := []\<rparr>"

definition wit_y0 :: sys where
  "wit_y0 = start_sys wit_s0 (Fin 5) 8082 8080"

text \<open>All its writes succeed, or all but that of the clock offset.\<close>

definition wit_good :: conn_env where
  "wit_good = wit_cenv\<lparr>ceOrder := [''cli_07'']\<rparr>"

definition wit_bad :: conn_env where
  "wit_bad = wit_good\<lparr>ceHs := wit_env\<lparr>writeErr := \<lambda>k. if k = 8 then Some EOF else None\<rparr>\<rparr>"

lemma wit_s0_ok: "sess_inv wit_s0" "store wit_s0 = []"
  by (simp_all add: wit_s0_def sess_inv_def gm_wf_def gm_get_def gm_empty_def)

lemma wit_y0_simps [simp]:
  "yServer wit_y0 = start_server wit_s0 (Fin 5) 8082" "yPhase wit_y0 = (\<lambda>_. PNew)" "yLeaked wit_y0 = {}"
  by (simp_all add: wit_y0_def start_sys_def)

lemma wit_cid: "generateClientID (Some [7]) = Some ''cli_07''"
  by (simp add: generateClientID_def hex_byte_def hextable_def)

lemma wit_joined:
  assumes "ceRand (env :: conn_env) = Some [7]" and "ceReplyErr env = None"
  shows "\<exists>inp1 sv1. join_phase wit_text env 3 (wit_join_conn []) (yServer wit_y0) = (Inr (0, 5004), inp1, sv1) \<and>
    stream inp1 = concat (map (\<lambda>k. EncodeTCPMessage [of_nat k]) [0..<InitialProbeRounds]) @ [] \<and>
    client_id 0 sv1 = ''cli_07'' \<and> sClients (cur sv1) = [(''cli_07'', 0)]"
proof -
  obtain inp1 where i1: "readTCPMessage (wit_join_conn []) = (Inr [8], inp1)"
    "stream inp1 = concat (map (\<lambda>k. EncodeTCPMessage [of_nat k]) [0..<InitialProbeRounds])"
    using tcp.recv_frame [of "[8]" "wit_join_conn []" "concat (map (\<lambda>k. EncodeTCPMessage [of_nat k]) [0..<InitialProbeRounds])"]
    by (auto simp: wit_join_conn_def stream_def MaxMessage_def InitialProbeRounds_def)
  have s: "mSession (svMgr (yServer wit_y0)) = Some wit_s0" by simp
  define c where "c = new_client ''cli_07'' (jrDeviceName wit_req) (jrPlatform wit_req) 3 (ceNow env)"
  obtain s1 where s1: "AddClient (jrToken wit_req) (jrDeviceName wit_req) (jrPlatform wit_req) 3 (ceRand env) (ceNow env) wit_s0 =
      (Inr 0, s1)" "store s1 = [c]" "sClients s1 = [(''cli_07'', 0)]"
    using assms(1) by (auto simp: AddClient_def Let_def register_def c_def wit_cid wit_req_def wit_s0_def sess1_def
      gm_put_def gm_empty_def)
  have "decode_bytes wit_text dec_join_request_msg [8] = Inr wit_req"
    by (simp add: decode_bytes_def wit_text_def dec_wit_req)
  moreover have "jrType wit_req = MsgJoinRequest" "jrUDPPort wit_req = 5004" by (simp_all add: wit_req_def)
  moreover have "cID c = ''cli_07''" by (simp add: c_def new_client_def)
  ultimately show ?thesis using i1 s s1 assms(2)
    by (simp add: join_phase_def GetSession_def Let_def sendTCPMessage_ok client_id_def cur_def)
qed

lemma wit_offset_fails:
  assumes "stream inp = concat (map (\<lambda>k. EncodeTCPMessage [of_nat k]) [0..<InitialProbeRounds]) @ []"
  shows "\<exists>inp' sv'. handshake_phase wit_text wit_bad cn cid inp sv = (Some (SendOffset EOF), inp', sv')"
proof -
  let ?e = "wit_env\<lparr>writeErr := \<lambda>k. if k = 8 then Some EOF else None\<rparr>" and ?R = "round_result (ceHs wit_bad) wit_answer"
  have e: "ceHs wit_bad = ?e" by (simp add: wit_bad_def)
  have w: "\<forall>k \<in> set [0..<InitialProbeRounds]. writeErr (ceHs wit_bad) k = None"
    by (simp add: e InitialProbeRounds_def)
  obtain inp' where run: "sync_rounds (decode_bytes wit_text dec_clock_sync_reply_msg) (ceHs wit_bad) [0..<InitialProbeRounds] inp [] [] =
      (Inr (map ?R [0..<InitialProbeRounds]), inp', map (\<lambda>k. probe_msg (sendTs (ceHs wit_bad) k)) [0..<InitialProbeRounds])"
    using sync_rounds_run [OF wit_text_answers w assms, of "[]" "[]"] by auto
  have res: "map ?R [0..<InitialProbeRounds] = ?R 0 # map ?R [1..<InitialProbeRounds]"
    by (simp add: InitialProbeRounds_def upt_rec)
  have "writeErr (ceHs wit_bad) InitialProbeRounds = Some EOF" by (simp add: e InitialProbeRounds_def)
  then show ?thesis
    using run unfolding res
    by (cases "best_from (?R 0) (rtt (?R 0)) (map ?R [1..<InitialProbeRounds])")
      (simp add: handshake_phase_def InitialHandshake_def Let_def)
qed

lemma wit_join_step:
  assumes "ceRand (env :: conn_env) = Some [7]" and "ceReplyErr env = None"
  shows "\<exists>y inp1. sys_reach wit_text wit_y0 y \<and> yPhase y = (\<lambda>_. PNew)(3 := PJoined 0 5004) \<and> yLeaked y = {} \<and>
    stream inp1 = concat (map (\<lambda>k. EncodeTCPMessage [of_nat k]) [0..<InitialProbeRounds]) @ [] \<and>
    client_id 0 (yServer y) = ''cli_07'' \<and> registered y = [(''cli_07'', 0)]"
proof -
  obtain inp1 sv1 where j: "join_phase wit_text env 3 (wit_join_conn []) (yServer wit_y0) = (Inr (0, 5004), inp1, sv1)"
    "stream inp1 = concat (map (\<lambda>k. EncodeTCPMessage [of_nat k]) [0..<InitialProbeRounds]) @ []"
    "client_id 0 sv1 = ''cli_07''" "sClients (cur sv1) = [(''cli_07'', 0)]"
    using wit_joined [OF assms] by blast
  have "fresh_id env wit_y0" by (simp add: fresh_id_def wit_s0_ok split: option.split)
  then have "sys_step wit_text wit_y0 (move 3 (PJoined 0 5004) sv1 wit_y0)" using j(1) by (intro sys_step.join) simp_all
  then have "sys_reach wit_text wit_y0 (move 3 (PJoined 0 5004) sv1 wit_y0)" by (blast intro: start step)
  then show ?thesis using j by (intro exI [of _ "move 3 (PJoined 0 5004) sv1 wit_y0"] exI [of _ inp1]) (simp add: registered_def)
qed

text \<open>A run into the read loop, and one whose handshake fails at its end.\<close>

lemma wit_run_loop: "\<exists>y. sys_reach wit_text wit_y0 y \<and> yPhase y 3 = PLoop 0"
proof -
  have e: "ceRand wit_good = Some [7]" "ceReplyErr wit_good = None" "ceHs wit_good = wit_env" "ceOrder wit_good = [''cli_07'']"
    by (simp_all add: wit_good_def wit_cenv_def)
  obtain y inp1 where y: "sys_reach wit_text wit_y0 y" "yPhase y = (\<lambda>_. PNew)(3 := PJoined 0 5004)"
    "stream inp1 = concat (map (\<lambda>k. EncodeTCPMessage [of_nat k]) [0..<InitialProbeRounds]) @ []"
    "registered y = [(''cli_07'', 0)]"
    using wit_join_step [OF e(1,2)] by blast
  have w: "\<forall>k \<le> InitialProbeRounds. writeErr wit_env k = None" by (simp add: wit_env_def)
  obtain inp2 cs sent where h: "InitialHandshake (decode_bytes wit_text dec_clock_sync_reply_msg) wit_env
      (client_id 0 (yServer y)) inp1 (svClock (yServer y)) = (None, cs, inp2, sent)"
    using handshake_run [OF wit_text_answers w y(3)] by blast
  define sv2 where "sv2 = (yServer y)\<lparr>svClock := cs, svOut := svOut (yServer y) @ map (Pair 3) sent\<rparr>"
  define y2 where "y2 = move 3 (PSynced 0 5004) sv2 y"
  have "handshake_phase wit_text wit_good 3 (client_id 0 (yServer y)) inp1 (yServer y) = (None, inp2, sv2)"
    using h by (simp add: handshake_phase_def e(3) sv2_def)
  then have s2: "sys_step wit_text y y2" unfolding y2_def using y(2) by (intro sys_step.synced) simp_all
  have "registered y2 = [(''cli_07'', 0)]" using y(4) by (simp add: y2_def sv2_def registered_def cur_def)
  then have "range_order (registered y2) (ceOrder wit_good)" by (simp add: range_order_def gm_keys_def e(4))
  then have "sys_step wit_text y2 (move 3 (PLoop 0) (enter_phase wit_good 3 0 5004 (yServer y2)) y2)"
    by (intro sys_step.enter) (simp add: y2_def)
  then have "sys_reach wit_text wit_y0 (move 3 (PLoop 0) (enter_phase wit_good 3 0 5004 (yServer y2)) y2)"
    using y(1) s2 by (blast intro: step)
  then show ?thesis by (intro exI [of _ "move 3 (PLoop 0) (enter_phase wit_good 3 0 5004 (yServer y2)) y2"]) simp
qed

lemma wit_run_fail:
  "\<exists>y inp inp' sv'. sys_reach wit_text wit_y0 y \<and> yPhase y = (\<lambda>_. PNew)(3 := PJoined 0 5004) \<and>
    client_id 0 (yServer y) = ''cli_07'' \<and>
    handshake_phase wit_text wit_bad 3 ''cli_07'' inp (yServer y) = (Some (SendOffset EOF), inp', sv') \<and>
    sys_reach wit_text wit_y0 ((move 3 PDone sv' y)\<lparr>yLeaked := insert ''cli_07'' (yLeaked y)\<rparr>)"
proof -
  have e: "ceRand wit_bad = Some [7]" "ceReplyErr wit_bad = None" by (simp_all add: wit_bad_def wit_good_def wit_cenv_def)
  obtain y inp where y: "sys_reach wit_text wit_y0 y" "yPhase y = (\<lambda>_. PNew)(3 := PJoined 0 5004)"
    "stream inp = concat (map (\<lambda>k. EncodeTCPMessage [of_nat k]) [0..<InitialProbeRounds]) @ []"
    "client_id 0 (yServer y) = ''cli_07''"
    using wit_join_step [OF e] by blast
  obtain inp' sv' where h: "handshake_phase wit_text wit_bad 3 ''cli_07'' inp (yServer y) = (Some (SendOffset EOF), inp', sv')"
    using wit_offset_fails [OF y(3)] by blast
  have "sys_step wit_text y ((move 3 PDone sv' y)\<lparr>yLeaked :=
      (case SendOffset EOF of SendOffset x \<Rightarrow> insert ''cli_07'' (yLeaked y) | _ \<Rightarrow> yLeaked y)\<rparr>)"
    using h y(2,4) by (intro sys_step.sync_fails [where r = 0 and port = 5004]) simp_all
  then show ?thesis using h y(1,2,4) by (intro exI [of _ y] exI [of _ inp] exI [of _ inp'] exI [of _ sv']) (auto intro: step)
qed




theorem messages_well_formed_witness:
  "\<exists>y. sys_reach wit_text wit_y0 y \<and> yPhase y 3 = PLoop 0 \<and>
    list_all (\<lambda>(cn, m). \<exists>j. enc_server_msg (exact_decimal F64) m = Inr j) (svOut (yServer y)) \<and>
    list_all (\<lambda>(r, m). \<exists>j. enc_server_msg (exact_decimal F64) m = Inr j) (svPending (yServer y)) \<and>
    delay_ok (GlobalDelay (svLatency (yServer y))) \<and>
    handle_message wit_text wit_menv 3 0 ''cli_07'' [1] (yServer y) \<noteq> None"
proof -
  obtain y where y: "sys_reach wit_text wit_y0 y" "yPhase y 3 = PLoop 0" using wit_run_loop by blast
  show ?thesis
    using messages_well_formed [OF wit_s0_ok y(1) [unfolded wit_y0_def]] y by (intro exI [of _ y]) simp
qed

theorem clock_entry_permanent_witness:
  "\<exists>z. sys_reach wit_text wit_y0 z \<and> yPhase z 3 = PDone \<and>
    ''cli_07'' \<in> cs_ids (svClock (yServer z)) \<and> ''cli_07'' \<notin> sess_ids (cur (yServer z))"
proof -
  obtain y inp inp' sv' where y: "sys_reach wit_text wit_y0 y" "yPhase y = (\<lambda>_. PNew)(3 := PJoined 0 5004)"
    "client_id 0 (yServer y) = ''cli_07''"
    "handshake_phase wit_text wit_bad 3 ''cli_07'' inp (yServer y) = (Some (SendOffset EOF), inp', sv')"
    "sys_reach wit_text wit_y0 ((move 3 PDone sv' y)\<lparr>yLeaked := insert ''cli_07'' (yLeaked y)\<rparr>)"
    using wit_run_fail by blast
  have p: "yPhase y 3 = PJoined 0 5004" by (simp add: y(2))
  from clock_entry_permanent [OF wit_s0_ok y(1) [unfolded wit_y0_def] p y(3) [symmetric] y(4) start]
  show ?thesis using y(5) by (intro exI [of _ "(move 3 PDone sv' y)\<lparr>yLeaked := insert ''cli_07'' (yLeaked y)\<rparr>"]) simp
qed

end
