(* ===== verification/Ring.thy ===== *)
theory Ring
  imports GoFloat Bytes
begin

text \<open>
  The ring buffer between the capture goroutine and the audio pipeline, and the conversion of captured
  bytes into samples (\<^verbatim>\<open>internal/capture/wasapi_windows.go\<close>: the ring fields, the copy loops of \<^verbatim>\<open>Read\<close> and
  of the capture loop, \<^verbatim>\<open>convertAndWrite\<close>, \<^verbatim>\<open>ringAvailable\<close>), with the contract of a buffer whose producer
  does not wait.
\<close>

section \<open>The contract\<close>

text \<open>One operation on the buffer: the producer writes samples, the consumer asks for a number of them.\<close>

datatype 'x buf_op = Put "'x list" | Take nat

text \<open>A request that cannot be met leaves the buffer alone: the consumer waits and asks again.\<close>

fun buf_run ::
  "('x list \<Rightarrow> 's \<Rightarrow> 's option) \<Rightarrow> (nat \<Rightarrow> 's \<Rightarrow> ('x list \<times> 's) option) \<Rightarrow> 'x buf_op list \<Rightarrow> 's \<Rightarrow>
   ('x list \<times> 's) option" where
  "buf_run wr rd [] s = Some ([], s)"
| "buf_run wr rd (Put xs # ops) s = (case wr xs s of None \<Rightarrow> None | Some s \<Rightarrow> buf_run wr rd ops s)"
| "buf_run wr rd (Take n # ops) s =
     (case rd n s of
        None \<Rightarrow> buf_run wr rd ops s
      | Some (xs, s) \<Rightarrow> map_option (\<lambda>(ys, s). (xs @ ys, s)) (buf_run wr rd ops s))"

fun written :: "'x buf_op list \<Rightarrow> 'x list" where
  "written [] = []"
| "written (Put xs # ops) = xs @ written ops"
| "written (Take n # ops) = written ops"

text \<open>The abstract run, on a list: how many samples are unread at most, and what is taken.\<close>

fun fifo_run :: "'x buf_op list \<Rightarrow> 'x list \<Rightarrow> 'x list \<times> 'x list" where
  "fifo_run [] q = ([], q)"
| "fifo_run (Put xs # ops) q = fifo_run ops (q @ xs)"
| "fifo_run (Take n # ops) q =
     (if n \<le> length q then (let (out, q') = fifo_run ops (drop n q) in (take n q @ out, q')) else fifo_run ops q)"

fun peak :: "'x buf_op list \<Rightarrow> nat \<Rightarrow> nat" where
  "peak [] k = k"
| "peak (Put xs # ops) k = max k (peak ops (k + length xs))"
| "peak (Take n # ops) k = max k (peak ops (if n \<le> k then k - n else k))"

lemma peak_ge: "k \<le> peak ops k"
  by (induction ops k rule: peak.induct) simp_all

lemma fifo_run_order: "fst (fifo_run ops q) @ snd (fifo_run ops q) = q @ written ops"
  by (induction ops q rule: fifo_run.induct) (auto simp: split_beta)

locale sample_buffer =
  fixes unread :: "'s \<Rightarrow> 'x list"
    and wr :: "'x list \<Rightarrow> 's \<Rightarrow> 's option"
    and rd :: "nat \<Rightarrow> 's \<Rightarrow> ('x list \<times> 's) option"
    and capacity :: "'s \<Rightarrow> nat"
    and inv :: "'s \<Rightarrow> bool"
  assumes put_ok: "inv s \<Longrightarrow> length (unread s) + length xs \<le> capacity s \<Longrightarrow>
      \<exists>s'. wr xs s = Some s' \<and> inv s' \<and> unread s' = unread s @ xs \<and> capacity s' = capacity s"
    and take_ok: "inv s \<Longrightarrow> n \<le> length (unread s) \<Longrightarrow>
      \<exists>s'. rd n s = Some (take n (unread s), s') \<and> inv s' \<and> unread s' = drop n (unread s) \<and> capacity s' = capacity s"
    and take_waits: "inv s \<Longrightarrow> length (unread s) < n \<Longrightarrow> rd n s = None"
begin

text \<open>As long as the unread samples fit, a run is the run of the list.\<close>

lemma run_refines:
  assumes "inv s" and "peak ops (length (unread s)) \<le> capacity s"
  shows "\<exists>s'. buf_run wr rd ops s = Some (fst (fifo_run ops (unread s)), s') \<and> inv s' \<and>
    unread s' = snd (fifo_run ops (unread s))"
  using assms
proof (induction ops arbitrary: s)
  case (Cons op ops)
  show ?case
  proof (cases op)
    case (Put xs)
    have "length (unread s) + length xs \<le> capacity s"
      using Cons.prems(2) peak_ge [of "length (unread s) + length xs" ops] by (simp add: Put)
    then obtain s1 where "wr xs s = Some s1" "inv s1" "unread s1 = unread s @ xs" "capacity s1 = capacity s"
      using put_ok [OF Cons.prems(1)] by blast
    then show ?thesis using Cons.IH [of s1] Cons.prems(2) by (simp add: Put)
  next
    case (Take n)
    show ?thesis
    proof (cases "n \<le> length (unread s)")
      case True
      then obtain s1 where s1: "rd n s = Some (take n (unread s), s1)" "inv s1" "unread s1 = drop n (unread s)"
        "capacity s1 = capacity s"
        using take_ok [OF Cons.prems(1)] by blast
      then show ?thesis using Cons.IH [OF s1(2)] Cons.prems(2) True by (auto simp: Take split_beta)
    next
      case False
      then show ?thesis using take_waits [OF Cons.prems(1), of n] Cons by (simp add: Take)
    qed
  qed
qed simp

end

section \<open>The ring\<close>

text \<open>
  \<^verbatim>\<open>ringWrite\<close> and \<^verbatim>\<open>ringRead\<close> only grow; at 16 channels and 192 kHz they stay below \<open>2 ^ 63\<close> for
  90,000 years, so they are natural numbers here.
\<close>

record ring =
  ringBuf :: "fl list"
  ringWrite :: nat
  ringRead :: nat
  ringSize :: nat

definition ringAvailable :: "ring \<Rightarrow> int" where
  "ringAvailable r = int (ringWrite r) - int (ringRead r)"

text \<open>A ring of size zero panics at the first remainder.\<close>

definition ring_put :: "fl \<Rightarrow> ring \<Rightarrow> ring option" where
  "ring_put x r =
     (if ringSize r = 0 then None
      else Some (r\<lparr>ringBuf := (ringBuf r)[ringWrite r mod ringSize r := x], ringWrite := ringWrite r + 1\<rparr>))"

fun ring_puts :: "fl list \<Rightarrow> ring \<Rightarrow> ring option" where
  "ring_puts [] r = Some r"
| "ring_puts (x # xs) r = (case ring_put x r of None \<Rightarrow> None | Some r \<Rightarrow> ring_puts xs r)"

text \<open>The copy of \<open>n\<close> samples into the reader's buffer.\<close>

fun ring_copy :: "nat \<Rightarrow> ring \<Rightarrow> (fl list \<times> ring) option" where
  "ring_copy 0 r = Some ([], r)"
| "ring_copy (Suc n) r =
     (if ringSize r = 0 then None
      else map_option (\<lambda>(xs, r'). ((ringBuf r ! (ringRead r mod ringSize r)) # xs, r'))
             (ring_copy n (r\<lparr>ringRead := ringRead r + 1\<rparr>)))"

text \<open>The reader of a running capture: it waits until \<open>n\<close> samples are available.\<close>

definition ring_read :: "nat \<Rightarrow> ring \<Rightarrow> (fl list \<times> ring) option" where
  "ring_read n r = (if ringAvailable r < int n then None else ring_copy n r)"

definition new_ring :: "nat \<Rightarrow> ring" where
  "new_ring n = \<lparr>ringBuf = replicate n (Fin 0), ringWrite = 0, ringRead = 0, ringSize = n\<rparr>"

section \<open>The ring as a queue\<close>

definition ring_wf :: "ring \<Rightarrow> bool" where
  "ring_wf r \<longleftrightarrow> 0 < ringSize r \<and> length (ringBuf r) = ringSize r \<and> ringRead r \<le> ringWrite r"

definition ring_inv :: "ring \<Rightarrow> bool" where
  "ring_inv r \<longleftrightarrow> ring_wf r \<and> ringWrite r \<le> ringRead r + ringSize r"

text \<open>What a reader of everything would get.\<close>

definition ring_unread :: "ring \<Rightarrow> fl list" where
  "ring_unread r = map (\<lambda>i. ringBuf r ! (i mod ringSize r)) [ringRead r..<ringWrite r]"

lemma length_ring_unread [simp]: "length (ring_unread r) = ringWrite r - ringRead r"
  by (simp add: ring_unread_def)

lemma new_ring_inv: "0 < n \<Longrightarrow> ring_inv (new_ring n)"
  by (simp add: ring_inv_def ring_wf_def new_ring_def)

lemma window_distinct:
  assumes "i < j" and "j < i + n" shows "i mod n \<noteq> j mod (n :: nat)"
proof
  assume "i mod n = j mod n"
  then have "n dvd j - i" using assms(1) by (metis less_or_eq_imp_le mod_eq_dvd_iff_nat)
  then show False using assms by (auto dest: dvd_imp_le)
qed

text \<open>The last \<open>ringSize\<close> samples written are in place, whatever the reader did.\<close>

lemma ring_put_unread:
  assumes "ring_wf r" and "ringWrite r < ringRead r + ringSize r" and "ring_put x r = Some r'"
  shows "ring_wf r'" "ring_unread r' = ring_unread r @ [x]" "ringSize r' = ringSize r" "ringRead r' = ringRead r"
    "ringWrite r' = ringWrite r + 1"
proof -
  have r': "r' = r\<lparr>ringBuf := (ringBuf r)[ringWrite r mod ringSize r := x], ringWrite := ringWrite r + 1\<rparr>"
    using assms(1,3) by (simp add: ring_put_def ring_wf_def)
  show "ring_wf r'" "ringSize r' = ringSize r" "ringRead r' = ringRead r" "ringWrite r' = ringWrite r + 1"
    using assms(1) by (simp_all add: r' ring_wf_def)
  have "(ringBuf r)[ringWrite r mod ringSize r := x] ! (i mod ringSize r) = ringBuf r ! (i mod ringSize r)"
    if "i \<in> set [ringRead r..<ringWrite r]" for i
    using window_distinct [of i "ringWrite r" "ringSize r"] that assms(2) by simp
  moreover have "ringWrite r mod ringSize r < length (ringBuf r)" using assms(1) by (simp add: ring_wf_def)
  ultimately show "ring_unread r' = ring_unread r @ [x]"
    using assms(1) by (simp add: ring_unread_def r' ring_wf_def)
qed

lemma ring_puts_unread:
  assumes "ring_inv r" and "ringWrite r + length xs \<le> ringRead r + ringSize r"
  shows "\<exists>r'. ring_puts xs r = Some r' \<and> ring_inv r' \<and> ring_unread r' = ring_unread r @ xs \<and> ringSize r' = ringSize r"
  using assms
proof (induction xs arbitrary: r)
  case (Cons x xs)
  have wf: "ring_wf r" using Cons.prems(1) by (simp add: ring_inv_def)
  then obtain r1 where r1: "ring_put x r = Some r1" by (simp add: ring_put_def ring_wf_def)
  note p = ring_put_unread [OF wf _ r1]
  have "ring_inv r1" "ringWrite r1 + length xs \<le> ringRead r1 + ringSize r1"
    using p Cons.prems(2) by (simp_all add: ring_inv_def)
  then show ?case using Cons.IH [of r1] p(2,3) Cons.prems(2) r1 by simp
qed simp

lemma ring_copy_unread:
  assumes "ring_wf r" and "n \<le> ringWrite r - ringRead r"
  shows "ring_copy n r = Some (take n (ring_unread r), r\<lparr>ringRead := ringRead r + n\<rparr>)"
  using assms
proof (induction n arbitrary: r)
  case (Suc n)
  let ?r = "r\<lparr>ringRead := ringRead r + 1\<rparr>"
  have "ring_wf ?r" "n \<le> ringWrite ?r - ringRead ?r" using Suc.prems by (simp_all add: ring_wf_def)
  moreover have "[ringRead r..<ringWrite r] = ringRead r # [Suc (ringRead r)..<ringWrite r]"
    using Suc.prems(2) by (simp add: upt_conv_Cons)
  ultimately show ?case using Suc.IH [of ?r] Suc.prems(1) by (simp add: ring_unread_def ring_wf_def)
qed simp

lemma ring_unread_read: "ring_unread (r\<lparr>ringRead := ringRead r + n\<rparr>) = drop n (ring_unread r)"
  by (simp add: ring_unread_def drop_map)

interpretation rb: sample_buffer ring_unread ring_puts ring_read ringSize ring_inv
proof unfold_locales
  fix s and xs :: "fl list"
  assume "ring_inv s" and "length (ring_unread s) + length xs \<le> ringSize s"
  then show "\<exists>s'. ring_puts xs s = Some s' \<and> ring_inv s' \<and> ring_unread s' = ring_unread s @ xs \<and> ringSize s' = ringSize s"
    by (intro ring_puts_unread) (auto simp: ring_inv_def ring_wf_def)
next
  fix s n assume s: "ring_inv s" and n: "n \<le> length (ring_unread s)"
  then have "ring_read n s = Some (take n (ring_unread s), s\<lparr>ringRead := ringRead s + n\<rparr>)"
    by (auto simp: ring_read_def ringAvailable_def ring_inv_def ring_copy_unread ring_wf_def)
  then show "\<exists>s'. ring_read n s = Some (take n (ring_unread s), s') \<and> ring_inv s' \<and>
      ring_unread s' = drop n (ring_unread s) \<and> ringSize s' = ringSize s"
    using s n by (auto simp: ring_unread_read ring_inv_def ring_wf_def)
next
  fix s n assume "ring_inv s" and "length (ring_unread s) < n"
  then show "ring_read n s = None" by (auto simp: ring_read_def ringAvailable_def ring_inv_def ring_wf_def)
qed


section \<open>Overruns\<close>

lemma ring_puts_append:
  "ring_puts (xs @ ys) r = (case ring_puts xs r of None \<Rightarrow> None | Some r \<Rightarrow> ring_puts ys r)"
  by (induction xs arbitrary: r) (auto split: option.split)

text \<open>Whatever the reader does, the samples written last are in their slots.\<close>

lemma ring_puts_window:
  assumes "ring_wf r"
  shows "\<exists>r'. ring_puts xs r = Some r' \<and> ring_wf r' \<and> ringSize r' = ringSize r \<and> ringRead r' = ringRead r \<and>
    ringWrite r' = ringWrite r + length xs \<and>
    (\<forall>j < length xs. length xs \<le> j + ringSize r \<longrightarrow> ringBuf r' ! ((ringWrite r + j) mod ringSize r) = xs ! j)"
proof (induction xs rule: rev_induct)
  case (snoc x xs)
  then obtain r1 where r1: "ring_puts xs r = Some r1" "ring_wf r1" "ringSize r1 = ringSize r" "ringRead r1 = ringRead r"
    "ringWrite r1 = ringWrite r + length xs"
    "\<And>j. j < length xs \<Longrightarrow> length xs \<le> j + ringSize r \<Longrightarrow> ringBuf r1 ! ((ringWrite r + j) mod ringSize r) = xs ! j"
    by blast
  let ?k = "ringWrite r + length xs"
  define r2 where "r2 = r1\<lparr>ringBuf := (ringBuf r1)[?k mod ringSize r := x], ringWrite := ?k + 1\<rparr>"
  have put: "ring_put x r1 = Some r2" using r1(2,3,5) by (simp add: ring_put_def ring_wf_def r2_def)
  have "ringBuf r2 ! ((ringWrite r + j) mod ringSize r) = (xs @ [x]) ! j"
    if j: "j < length (xs @ [x])" "length (xs @ [x]) \<le> j + ringSize r" for j
  proof (cases "j = length xs")
    case True
    then show ?thesis using r1(2,3) by (simp add: r2_def ring_wf_def)
  next
    case False
    then have "(ringWrite r + j) mod ringSize r \<noteq> ?k mod ringSize r"
      using j window_distinct [of "ringWrite r + j" ?k "ringSize r"] by simp
    then show ?thesis using False j r1(6) [of j] by (simp add: r2_def nth_append)
  qed
  moreover have "ring_wf r2" using r1(2,4,5) by (simp add: r2_def ring_wf_def)
  ultimately show ?case using r1(1,3,4) put by (simp add: ring_puts_append) (simp add: r2_def)
qed (use assms in simp)

section \<open>Properties\<close>

text \<open>
  C14: the ring is a queue. While the unread samples fit, that is while the pipeline is less than the ring's
  length behind, any interleaving of writes and reads behaves as on a list: the samples read, followed by
  the unread ones, are the samples written, in order, none lost and none repeated; a read that asks for more
  than there is waits.
\<close>

theorem ring_is_queue:
  assumes "ring_inv r" and "peak ops (length (ring_unread r)) \<le> ringSize r"
  shows "\<exists>out r'. buf_run ring_puts ring_read ops r = Some (out, r') \<and> ring_inv r' \<and>
    (out, ring_unread r') = fifo_run ops (ring_unread r) \<and> out @ ring_unread r' = ring_unread r @ written ops"
  using rb.run_refines [OF assms] fifo_run_order [of ops "ring_unread r"] by auto

theorem ring_is_queue_witness:
  "\<exists>out r'. buf_run ring_puts ring_read [Put [Fin 1, Fin 2], Take 1, Put [Fin 3], Take 3, Take 2] (new_ring 2) = Some (out, r') \<and>
    ring_inv r' \<and>
    (out, ring_unread r') = fifo_run [Put [Fin 1, Fin 2], Take 1, Put [Fin 3], Take 3, Take 2] (ring_unread (new_ring 2)) \<and>
    out @ ring_unread r' = ring_unread (new_ring 2) @ written [Put [Fin 1, Fin 2], Take 1, Put [Fin 3], Take 3, Take 2]"
  by (rule ring_is_queue [OF new_ring_inv]) (simp_all add: new_ring_def)



end
