(* ===== verification/Codec.thy ===== *)
theory Codec
  imports GoFloat Bytes
begin

text \<open>
  \<^verbatim>\<open>internal/codec/opus.go\<close>: the pure-Go encoder and decoder (signed 16-bit little-endian PCM).
  Samples are \<^verbatim>\<open>float32\<close> values of \<^verbatim>\<open>GoFloat\<close>; converting a value that does not fit into an
  \<^verbatim>\<open>int16\<close> (only \<^verbatim>\<open>NaN\<close> can reach that point) is implementation-dependent in Go and is the
  argument \<open>unrep\<close> of the encoder. The buffer pools only recycle memory; what they can make fail,
  slicing a pooled buffer beyond its capacity, is the error \<open>PanicSliceBounds\<close>.
\<close>

section \<open>Configuration\<close>

definition SampleRate :: int where
  "SampleRate = 48000"

text \<open>
  \<^verbatim>\<open>FrameSamples\<close> is only called with the frame durations the constructors accept, so the
  product does not overflow.
\<close>

definition FrameSamples :: "int \<Rightarrow> int" where
  "FrameSamples frameMs = go_quot (SampleRate * frameMs) 1000"

record encoder_config =
  cfgSampleRate :: int
  cfgChannels :: int
  cfgBitrate :: int
  cfgFrameMs :: int
  cfgFEC :: bool
  cfgVBR :: bool

definition DefaultEncoderConfig :: encoder_config where
  "DefaultEncoderConfig =
     \<lparr>cfgSampleRate = SampleRate, cfgChannels = 2, cfgBitrate = 128000, cfgFrameMs = 10,
      cfgFEC = True, cfgVBR = True\<rparr>"

record encoder =
  config :: encoder_config
  frameSamples :: int

datatype codec_error =
    ErrSampleRate int
  | ErrChannels int
  | ErrFrameMs int
  | ErrSampleCount int nat
  | ErrOddLength nat
  | ErrPcmTooSmall nat nat
  | PanicSliceBounds

definition frame_ms_ok :: "int \<Rightarrow> bool" where
  "frame_ms_ok ms \<longleftrightarrow> ms \<in> {5, 10, 20, 40, 60}"

definition NewEncoder :: "encoder_config \<Rightarrow> codec_error + encoder" where
  "NewEncoder cfg =
     (if cfgSampleRate cfg \<noteq> SampleRate then Inl (ErrSampleRate (cfgSampleRate cfg))
      else if cfgChannels cfg \<noteq> 1 \<and> cfgChannels cfg \<noteq> 2 then Inl (ErrChannels (cfgChannels cfg))
      else if \<not> frame_ms_ok (cfgFrameMs cfg) then Inl (ErrFrameMs (cfgFrameMs cfg))
      else Inr \<lparr>config = cfg, frameSamples = FrameSamples (cfgFrameMs cfg)\<rparr>)"

definition SetFrameMs :: "int \<Rightarrow> encoder \<Rightarrow> codec_error + encoder" where
  "SetFrameMs ms e =
     (if \<not> frame_ms_ok ms then Inl (ErrFrameMs ms)
      else Inr (e\<lparr>config := (config e)\<lparr>cfgFrameMs := ms\<rparr>, frameSamples := FrameSamples ms\<rparr>))"

definition Encoder_FrameSamples :: "encoder \<Rightarrow> int" where
  "Encoder_FrameSamples e = frameSamples e"

definition Encoder_FrameMs :: "encoder \<Rightarrow> int" where
  "Encoder_FrameMs e = cfgFrameMs (config e)"

section \<open>Encoding\<close>

definition PoolBufSize :: nat where
  "PoolBufSize = 16384"

definition clamp_sample :: "fl \<Rightarrow> fl" where
  "clamp_sample sample =
     (if fgt sample (Fin 1) then Fin 1 else if flt sample (Fin (- 1)) then Fin (- 1) else sample)"

definition encode_sample :: "(fl \<Rightarrow> int) \<Rightarrow> fl \<Rightarrow> u16" where
  "encode_sample unrep sample =
     (let s16 = fl_to_int 16 unrep (fmulc F32 32767 (clamp_sample sample)) in word_of_int s16)"

text \<open>The loop stores each sample at its place in the buffer.\<close>

fun encode_loop :: "(fl \<Rightarrow> int) \<Rightarrow> nat \<Rightarrow> fl list \<Rightarrow> byte list \<Rightarrow> byte list" where
  "encode_loop unrep i [] buf = buf"
| "encode_loop unrep i (s # ss) buf =
     encode_loop unrep (i + 1) ss (blit (i * 2) (le16 (encode_sample unrep s)) buf)"

definition Encode :: "(fl \<Rightarrow> int) \<Rightarrow> encoder \<Rightarrow> fl list \<Rightarrow> codec_error + byte list" where
  "Encode unrep e pcm =
     (let expected = frameSamples e * cfgChannels (config e)
      in if int (length pcm) \<noteq> expected then Inl (ErrSampleCount expected (length pcm))
         else if PoolBufSize < length pcm * 2 then Inl PanicSliceBounds
         else Inr (encode_loop unrep 0 pcm (replicate (length pcm * 2) 0)))"

section \<open>Decoding\<close>

record decoder =
  decSampleRate :: int
  decChannels :: int

definition NewDecoder :: "int \<Rightarrow> int \<Rightarrow> codec_error + decoder" where
  "NewDecoder sampleRate channels =
     (if sampleRate \<noteq> SampleRate then Inl (ErrSampleRate sampleRate)
      else if channels \<noteq> 1 \<and> channels \<noteq> 2 then Inl (ErrChannels channels)
      else Inr \<lparr>decSampleRate = sampleRate, decChannels = channels\<rparr>)"

definition decode_sample :: "u16 \<Rightarrow> fl" where
  "decode_sample w = fdivc F32 (fl_of_int F32 (sint w)) 32767"

fun decode_loop :: "nat \<Rightarrow> nat \<Rightarrow> byte list \<Rightarrow> fl list \<Rightarrow> fl list" where
  "decode_loop i 0 data pcm = pcm"
| "decode_loop i (Suc n) data pcm =
     decode_loop (i + 1) n data (pcm[i := decode_sample (get_le16 (drop (i * 2) data))])"

definition Decode :: "decoder \<Rightarrow> byte list \<Rightarrow> fl list \<Rightarrow> codec_error + (int \<times> fl list)" where
  "Decode d data pcm =
     (if length data mod 2 \<noteq> 0 then Inl (ErrOddLength (length data))
      else
        let samples = length data div 2
        in if length pcm < samples then Inl (ErrPcmTooSmall samples (length pcm))
           else Inr (go_quot (int samples) (decChannels d), decode_loop 0 samples data pcm))"

definition DecodePLC :: "decoder \<Rightarrow> fl list \<Rightarrow> int \<times> fl list" where
  "DecodePLC d pcm = (go_quot (int (length pcm)) (decChannels d), map (\<lambda>_. Fin 0) pcm)"

section \<open>The encoder's invariant\<close>

definition encoder_ok :: "encoder \<Rightarrow> bool" where
  "encoder_ok e \<longleftrightarrow>
     cfgSampleRate (config e) = SampleRate \<and> cfgChannels (config e) \<in> {1, 2} \<and>
     frame_ms_ok (cfgFrameMs (config e)) \<and> frameSamples e = FrameSamples (cfgFrameMs (config e))"

lemma FrameSamples_ok: "frame_ms_ok ms \<Longrightarrow> FrameSamples ms = 48 * ms"
  by (auto simp: frame_ms_ok_def FrameSamples_def go_quot_def SampleRate_def)

lemma NewEncoder_ok [inv_intros]: "NewEncoder cfg = Inr e \<Longrightarrow> encoder_ok e"
  by (auto simp: NewEncoder_def encoder_ok_def split: if_splits)

lemma SetFrameMs_ok [inv_intros]: "encoder_ok e \<Longrightarrow> SetFrameMs ms e = Inr e' \<Longrightarrow> encoder_ok e'"
  by (auto simp: SetFrameMs_def encoder_ok_def split: if_splits)

lemma encoder_ok_size:
  "encoder_ok e \<Longrightarrow> int n = frameSamples e * cfgChannels (config e) \<Longrightarrow> n * 2 \<le> PoolBufSize"
  by (auto simp: encoder_ok_def FrameSamples_ok frame_ms_ok_def PoolBufSize_def)

section \<open>The loops\<close>

lemma encode_loop_eq:
  assumes "length pre = 2 * i"
  shows "encode_loop unrep i ss (pre @ replicate (2 * length ss) 0) =
    pre @ concat (map (\<lambda>s. le16 (encode_sample unrep s)) ss)"
  using assms
proof (induction ss arbitrary: i pre)
  case (Cons s ss)
  let ?b = "le16 (encode_sample unrep s)"
  have "blit (i * 2) ?b (pre @ replicate (2 * length (s # ss)) 0) =
      (pre @ ?b) @ replicate (2 * length ss) 0"
    using Cons.prems by (simp add: blit_fits)
  then show ?case using Cons.IH [of "pre @ ?b" "i + 1"] Cons.prems by simp
qed simp

lemma Encode_Inr:
  "Encode unrep e pcm = Inr b \<Longrightarrow> b = concat (map (\<lambda>s. le16 (encode_sample unrep s)) pcm)"
  using encode_loop_eq [of "[]" 0 unrep pcm]
  by (auto simp: Encode_def Let_def mult.commute split: if_splits)

lemma Encode_ok:
  assumes "encoder_ok e" and "int (length pcm) = frameSamples e * cfgChannels (config e)"
  shows "Encode unrep e pcm = Inr (concat (map (\<lambda>s. le16 (encode_sample unrep s)) pcm))"
  using encode_loop_eq [of "[]" 0 unrep pcm] encoder_ok_size [OF assms] assms(2)
  by (auto simp: Encode_def Let_def mult.commute)

lemma length_concat_le16 [simp]: "length (concat (map (\<lambda>s. le16 (f s)) xs)) = 2 * length xs"
  by (induction xs) auto

text \<open>The samples of a byte string, two bytes each.\<close>

fun le16s :: "byte list \<Rightarrow> u16 list" where
  "le16s (a # b # r) = get_le16 [a, b] # le16s r"
| "le16s _ = []"

lemma length_le16s: "length (le16s bs) = length bs div 2"
  by (induction bs rule: le16s.induct) auto

lemma le16s_concat: "even (length bs) \<Longrightarrow> concat (map le16 (le16s bs)) = bs"
  by (induction bs rule: le16s.induct) auto

lemma le16s_of_concat: "le16s (concat (map le16 ws)) = ws"
proof (induction ws)
  case (Cons w ws)
  then show ?case using get_le16_le16 [of w "[]"] by (simp add: le16_def)
qed simp

lemma get_le16_drop: "Suc (i * 2) < length bs \<Longrightarrow> get_le16 (drop (i * 2) bs) = le16s bs ! i"
proof (induction bs arbitrary: i rule: le16s.induct)
  case (1 a b r)
  then show ?case by (cases i) (auto simp: get_le16_def)
qed auto

lemma decode_loop_eq:
  assumes "i + n \<le> length pcm" and "2 * (i + n) \<le> length data"
  shows "decode_loop i n data pcm =
    take i pcm @ map decode_sample (take n (drop i (le16s data))) @ drop (i + n) pcm"
  using assms
proof (induction n arbitrary: i pcm)
  case (Suc n)
  let ?x = "decode_sample (get_le16 (drop (i * 2) data))"
  have x: "get_le16 (drop (i * 2) data) = le16s data ! i"
    using Suc.prems by (intro get_le16_drop) simp
  have l: "i < length (le16s data)" using Suc.prems by (simp add: length_le16s)
  have "decode_loop (i + 1) n data (pcm[i := ?x]) =
      take (Suc i) (pcm[i := ?x]) @ map decode_sample (take n (drop (Suc i) (le16s data))) @
      drop (Suc i + n) (pcm[i := ?x])"
    using Suc.IH [of "i + 1" "pcm[i := ?x]"] Suc.prems by simp
  also have "take (Suc i) (pcm[i := ?x]) = take i pcm @ [?x]"
    using Suc.prems by (simp add: take_Suc_conv_app_nth)
  also have "drop (Suc i + n) (pcm[i := ?x]) = drop (i + Suc n) pcm"
    by (simp add: drop_update_cancel)
  finally show ?case
    using l by (simp add: x Cons_nth_drop_Suc [symmetric])
qed simp

lemma Decode_even:
  assumes "even (length data)" and "length data div 2 \<le> length pcm"
  shows "Decode d data pcm = Inr (go_quot (int (length data div 2)) (decChannels d),
    map decode_sample (le16s data) @ drop (length data div 2) pcm)"
proof -
  have "length (le16s data) = length data div 2" by (rule length_le16s)
  then show ?thesis
    using assms decode_loop_eq [of 0 "length data div 2" pcm data]
    by (auto simp: Decode_def Let_def even_iff_mod_2_eq_zero)
qed

section \<open>Rounding of samples\<close>

lemma trunc_rat_of_int_frac: "of_int n \<le> q \<Longrightarrow> q < of_int n + 1 \<Longrightarrow> 0 \<le> n \<Longrightarrow> trunc_rat q = n"
  by (auto simp: trunc_rat_def intro: floor_unique)

lemma trunc_rat_minus: "trunc_rat (- q) = - trunc_rat q"
  by (auto simp: trunc_rat_def floor_minus ceiling_minus)

text \<open>The binade of a positive integer.\<close>

lemma binade_of_int:
  fixes n :: int
  assumes "0 < n" and "n < 2 ^ Suc k"
  obtains e where "e \<le> k" "2 ^ e \<le> n" "n < 2 ^ Suc e"
proof -
  define e where "e = lg2 (nat n)"
  have "2 ^ e \<le> nat n \<and> nat n < 2 ^ Suc e" using lg2_bounds [of "nat n"] assms(1) by (simp add: e_def)
  then have b: "2 ^ e \<le> n" "n < 2 ^ Suc e"
    using assms(1) by (auto simp: nat_less_iff le_nat_iff)
  have "(2 :: int) ^ e < 2 ^ Suc k" using b(1) assms(2) by linarith
  then have "e < Suc k" by (rule power_less_imp_less_exp [rotated]) simp
  then have "e \<le> k" by simp
  with b that show ?thesis by blast
qed

lemma pow2_nat [simp]: "pow2 (int e) = 2 ^ e"
  by (simp add: pow2_def)

lemma quotient_binade:
  fixes n :: int
  assumes "2 ^ e \<le> n" "n < 2 ^ Suc e" "n < 32767" "e \<le> 14"
  shows "rlog2 (of_int n / 32767) = int e - 15"
proof (rule rlog2_unique)
  have n1: "(2 ^ e :: rat) \<le> of_int n"
    using assms(1) by (metis of_int_le_iff of_int_numeral of_int_power)
  have "pow2 (int e - 15) = 2 ^ e / 32768" by (simp add: pow2_diff) (simp add: pow2_def)
  also have "\<dots> \<le> of_int n / 32768" using n1 by (simp add: divide_right_mono)
  also have "\<dots> \<le> of_int n / 32767"
  proof -
    have "(0 :: rat) \<le> of_int n" using n1 by (rule order_trans [rotated]) simp
    then show ?thesis by (intro divide_left_mono) auto
  qed
  finally show "pow2 (int e - 15) \<le> of_int n / 32767" .
  have "n * 2 ^ 14 < 32767 * 2 ^ e"
  proof (cases "e = 14")
    case False
    then obtain d where d: "14 = e + Suc d" using assms(4) by (metis add_Suc_right le_neq_implies_less less_imp_Suc_add)
    have "n * 2 ^ 14 \<le> (2 ^ Suc e - 1) * 2 ^ 14" using assms(2) by simp
    also have "\<dots> < 32767 * 2 ^ e"
    proof -
      have "(2 :: int) ^ e < 2 ^ 14" using False assms(4) by (intro power_strict_increasing) auto
      then show ?thesis by (simp add: left_diff_distrib)
    qed
    finally show ?thesis .
  qed (use assms(3) in simp)
  then have "(of_int (n * 2 ^ 14) :: rat) < of_int (32767 * 2 ^ e)" by (simp only: of_int_less_iff)
  then have "of_int n / 32767 < (2 ^ e / 2 ^ 14 :: rat)" by (simp add: field_simps)
  also have "\<dots> = pow2 (int e - 15 + 1)"
    by (simp add: pow2_diff [of "int e" 14, simplified]) (simp add: pow2_def)
  finally show "of_int n / 32767 < pow2 (int e - 15 + 1)" .
qed

text \<open>Decoding a sample and scaling it back is exact but for the last bits.\<close>

lemma scaled_error:
  assumes "2 ^ e \<le> n" "n < 2 ^ Suc e" "n < 32767" "e \<le> 14"
  shows "\<bar>32767 * rnd F32 (of_int n / 32767) - of_int n\<bar> < pow2 (int e - 24)"
proof -
  define x where "x = (of_int n / 32767 :: rat)"
  have "0 < n" using assms(1) by (meson less_le_trans zero_less_numeral zero_less_power)
  then have "ulp_exp F32 x = int e - 38"
    using quotient_binade [OF assms] by (simp add: ulp_exp_def x_def)
  then have "\<bar>rnd F32 x - x\<bar> \<le> pow2 (int e - 38) / 2" using rnd_error [of F32 x] by simp
  then have "32767 * \<bar>rnd F32 x - x\<bar> \<le> 32767 * (pow2 (int e - 38) / 2)" by simp
  also have "\<dots> < pow2 (int e - 24)" by (simp add: pow2_diff) (simp add: pow2_def)
  finally have "\<bar>32767 * (rnd F32 x - x)\<bar> < pow2 (int e - 24)"
    by (simp only: abs_mult abs_numeral)
  moreover have "32767 * (rnd F32 x - x) = 32767 * rnd F32 (of_int n / 32767) - of_int n"
    by (simp add: x_def right_diff_distrib)
  ultimately show ?thesis by simp
qed

lemma rnd_near_int:
  fixes n :: int
  assumes n: "2 ^ e < n" "n < 2 ^ Suc e" "e \<le> 14" and err: "\<bar>y - of_int n\<bar> < pow2 (int e - 24)"
  shows "rnd F32 y = of_int n"
proof -
  have "pow2 (int e - 24) < pow2 0" using n(3) by (subst pow2_less_iff) simp
  then have err1: "\<bar>y - of_int n\<bar> < 1" using err by simp
  have "(of_int (2 ^ e + 1) :: rat) \<le> of_int n" "(of_int n :: rat) \<le> of_int (2 ^ Suc e - 1)"
    using n by (simp_all only: of_int_le_iff)
  then have lo: "2 ^ e \<le> y" and hi: "y < 2 ^ Suc e" using err1 by auto
  have "rlog2 y = int e"
    using lo hi by (intro rlog2_unique) (simp_all add: pow2_add, simp_all add: pow2_def)
  moreover have y0: "0 < y" using lo by (rule less_le_trans [rotated]) simp
  ultimately have u: "ulp_exp F32 y = int e - 23" by (simp add: ulp_exp_def)
  define N where "N = n * 2 ^ nat (0 - (int e - 23))"
  have scale: "of_int (2 ^ nat (0 - (int e - 23))) * pow2 (int e - 23) = pow2 0"
    using n(3) by (intro pow2_scale) simp
  have N: "of_int N * pow2 (int e - 23) = of_int n"
    using scale by (simp add: N_def mult.assoc)
  have "y / pow2 (int e - 23) - of_int N = (y - of_int n) / pow2 (int e - 23)"
    by (simp add: N [symmetric] diff_divide_distrib)
  also have "\<bar>\<dots>\<bar> < pow2 (int e - 24) / pow2 (int e - 23)"
    using err by (simp add: abs_divide divide_strict_right_mono)
  also have "\<dots> = 1 / 2" by (simp add: pow2_diff) (simp add: pow2_def)
  finally have "round_half_even (y / pow2 (int e - 23)) = N" by (rule round_half_even_near)
  then show ?thesis using y0 by (simp add: rnd_def u N)
qed

text \<open>At a power of two the error must be computed: the floats below are twice as dense.\<close>

lemma rnd_scaled_pow2:
  assumes "e \<le> 14"
  shows "rnd F32 (32767 * rnd F32 (of_int (2 ^ e) / 32767)) = of_int (2 ^ e)"
proof -
  have l: "rlog2 (of_int (2 ^ e) / 32767) = int e - 15"
    using assms power_increasing [of e 14 "2 :: int"] by (intro quotient_binade) auto
  define x where "x = (of_int (2 ^ e) / 32767 :: rat)"
  have x0: "0 < x" by (simp add: x_def)
  have u: "ulp_exp F32 x = int e - 38" using l x0 by (simp add: ulp_exp_def x_def)
  have "x / pow2 (int e - 38) = 2 ^ 38 / 32767"
    by (simp add: x_def pow2_diff) (simp add: pow2_def)
  moreover have "round_half_even (2 ^ 38 / 32767) = 8388864"
    by (rule round_half_even_near) (simp add: abs_if)
  ultimately have "round_half_even (x / pow2 (int e - 38)) = 8388864" by (simp only:)
  then have rx: "rnd F32 x = 8388864 * pow2 (int e - 38)"
    using x0 by (simp add: rnd_def u)
  define y where "y = 32767 * rnd F32 x"
  have y: "y = (2 ^ 38 - 256) * pow2 (int e - 38)" by (simp add: y_def rx)
  have "rlog2 y = int e - 1"
    by (rule rlog2_unique) (simp_all add: y pow2_diff pow2_add, simp_all add: pow2_def field_simps)
  moreover have y0: "0 < y" by (simp add: y)
  ultimately have uy: "ulp_exp F32 y = int e - 24" using assms by (simp add: ulp_exp_def)
  have "y / pow2 (int e - 24) = (2 ^ 38 - 256) / 2 ^ 14"
    by (simp add: y pow2_diff) (simp add: pow2_def)
  moreover have "round_half_even ((2 ^ 38 - 256) / 2 ^ 14) = 2 ^ 24"
    by (rule round_half_even_near) simp
  ultimately have "round_half_even (y / pow2 (int e - 24)) = 2 ^ 24" by (simp only:)
  then have "rnd F32 y = 2 ^ 24 * pow2 (int e - 24)"
    using y0 by (simp add: rnd_def uy)
  also have "\<dots> = 2 ^ e" by (simp add: pow2_diff) (simp add: pow2_def)
  finally show ?thesis by (simp add: y_def x_def)
qed

lemma rnd_scaled:
  assumes "0 < n" "n < 32767"
  shows "rnd F32 (32767 * rnd F32 (of_int n / 32767)) = of_int n"
proof -
  obtain e where e: "e \<le> 14" "2 ^ e \<le> n" "n < 2 ^ Suc e"
    using binade_of_int [of n 14] assms by auto
  show ?thesis
  proof (cases "n = 2 ^ e")
    case True
    then show ?thesis using rnd_scaled_pow2 [OF e(1)] by simp
  next
    case False
    with e have "2 ^ e < n" by simp
    then show ?thesis
      using e assms scaled_error [OF e(2,3) assms(2) e(1)] by (intro rnd_near_int) auto
  qed
qed

text \<open>All samples but \<open>- 32768\<close> survive decoding and encoding.\<close>

lemma rnd_scaled_all:
  assumes "\<bar>n\<bar> \<le> 32767"
  shows "rnd F32 (32767 * rnd F32 (of_int n / 32767)) = of_int n"
proof -
  have pos: "rnd F32 (32767 * rnd F32 (of_int n / 32767)) = of_int n" if n: "0 \<le> n" "n \<le> 32767" for n
  proof -
    consider "n = 0" | "n = 32767" | "0 < n" "n < 32767" using n by linarith
    then show ?thesis
    proof cases
      case 2
      have "rnd F32 1 = 1" "rnd F32 32767 = 32767"
        by (rule rnd_rep, use rep_of_int [of 1 F32] rep_of_int [of 32767 F32] in simp)+
      then show ?thesis by (simp add: 2)
    qed (use rnd_scaled in auto)
  qed
  show ?thesis
  proof (cases "0 \<le> n")
    case False
    then show ?thesis
      using pos [of "- n"] assms by (simp add: rnd_minus)
  qed (use pos assms in auto)
qed

section \<open>Samples\<close>

text \<open>The encoder's 16-bit value of a sample, as an integer.\<close>

definition sample_int :: "fl \<Rightarrow> int" where
  "sample_int s = (case clamp_sample s of Fin q \<Rightarrow> trunc_rat (rnd F32 (32767 * q)) | _ \<Rightarrow> 0)"

lemma clamp_sample_range:
  assumes "s \<noteq> NaN" obtains q where "clamp_sample s = Fin q" "- 1 \<le> q" "q \<le> 1"
proof -
  have "\<exists>q. clamp_sample s = Fin q \<and> - 1 \<le> q \<and> q \<le> 1"
    using assms by (cases s) (auto simp: clamp_sample_def)
  with that show ?thesis by blast
qed

lemma rep_32767: "rep F32 32767" "rep F32 (- 32767)"
  using rep_of_int [of 32767 F32] by simp_all

lemma scaled_range: "- 1 \<le> q \<Longrightarrow> q \<le> 1 \<Longrightarrow> - 32767 \<le> rnd F32 (32767 * q) \<and> rnd F32 (32767 * q) \<le> 32767"
  using rep_32767 by (auto intro!: rnd_ge_rep rnd_le_rep)

lemma trunc_rat_range: "\<bar>q\<bar> \<le> of_int n \<Longrightarrow> \<bar>trunc_rat q\<bar> \<le> n"
  by (auto simp: trunc_rat_def abs_le_iff floor_le_iff le_ceiling_iff ceiling_le_iff le_floor_iff; linarith)

lemma sample_int_range: "\<bar>sample_int s\<bar> \<le> 32767"
proof (cases "s = NaN")
  case False
  then obtain q where "clamp_sample s = Fin q" "- 1 \<le> q" "q \<le> 1" by (rule clamp_sample_range)
  then show ?thesis using scaled_range [of q] by (auto simp: sample_int_def intro!: trunc_rat_range)
qed (simp add: sample_int_def clamp_sample_def)

lemma limit32: "32767 < pow2 (int (emax F32))"
  by (simp add: emax.simps pow2_def)

lemma encode_sample_int: "s \<noteq> NaN \<Longrightarrow> encode_sample unrep s = word_of_int (sample_int s)"
proof -
  assume "s \<noteq> NaN"
  then obtain q where q: "clamp_sample s = Fin q" "- 1 \<le> q" "q \<le> 1" by (rule clamp_sample_range)
  have r: "\<bar>rnd F32 (32767 * q)\<bar> \<le> 32767" using scaled_range [OF q(2,3)] by linarith
  then have "to_fl F32 (32767 * q) = Fin (rnd F32 (32767 * q))"
    using limit32 by (auto simp: to_fl_def Let_def)
  moreover have "\<bar>trunc_rat (rnd F32 (32767 * q))\<bar> \<le> 32767" using r by (intro trunc_rat_range) simp
  then have "- 32768 \<le> trunc_rat (rnd F32 (32767 * q))" "trunc_rat (rnd F32 (32767 * q)) < 32768"
    by linarith+
  ultimately show ?thesis
    by (simp add: encode_sample_def sample_int_def q fl_to_int_def Let_def)
qed

lemma sint_sample: "s \<noteq> NaN \<Longrightarrow> sint (encode_sample unrep s) = sample_int s"
  using sample_int_range [of s]
  by (simp add: encode_sample_int sint_sbintrunc' signed_take_bit_int_eq_self abs_le_iff)

lemma rep_sint16: "rep F32 (of_int (sint (w :: u16)))" and sint16_range: "- 32768 \<le> sint w" "sint w < 32768"
proof -
  show b: "- 32768 \<le> sint w" "sint w < 32768" using sint_ge [of w] sint_lt [of w] by simp_all
  then show "rep F32 (of_int (sint w))" by (intro rep_of_int) simp
qed

lemma rnd_abs_le: "rep f b \<Longrightarrow> \<bar>x\<bar> \<le> b \<Longrightarrow> \<bar>rnd f x\<bar> \<le> b"
  using rnd_le_rep [of f b x] rnd_ge_rep [of f "- b" x] by (simp add: abs_le_iff)

lemma quotient_range: "\<bar>n\<bar> \<le> 32768 \<Longrightarrow> \<bar>rnd F32 (of_int n / 32767)\<bar> \<le> 2"
  using rep_of_int [of 2 F32] by (intro rnd_abs_le) (auto simp: abs_le_iff)

lemma quotient_range1: "\<bar>n\<bar> \<le> 32767 \<Longrightarrow> \<bar>rnd F32 (of_int n / 32767)\<bar> \<le> 1"
  using rep_of_int [of 1 F32] by (intro rnd_abs_le) (auto simp: abs_le_iff)

lemma decode_sample_Fin: "decode_sample w = Fin (rnd F32 (of_int (sint w) / 32767))"
proof -
  obtain n where n: "sint w = n" "\<bar>n\<bar> \<le> 32768" using sint16_range [of w] by auto
  have "fl_of_int F32 n = Fin (of_int n)"
    unfolding fl_of_int_def using n(2) by (intro to_fl_of_int) simp
  moreover have "\<bar>rnd F32 (of_int n / 32767)\<bar> < pow2 (int (emax F32))"
    using quotient_range [OF n(2)] limit32 by linarith
  ultimately show ?thesis
    unfolding decode_sample_def n(1) by (auto simp: to_fl_def Let_def)
qed

text \<open>Every sample value but the most negative one is recovered.\<close>

lemma encode_decode_sample:
  assumes "sint w \<noteq> - 32768" shows "encode_sample unrep (decode_sample w) = w"
proof -
  obtain n where n: "sint w = n" "\<bar>n\<bar> \<le> 32767" using assms sint16_range [of w] by auto
  define x where "x = rnd F32 (of_int n / 32767)"
  have "\<bar>x\<bar> \<le> 1" unfolding x_def by (rule quotient_range1 [OF n(2)])
  then have "clamp_sample (Fin x) = Fin x" by (auto simp: clamp_sample_def)
  moreover have "rnd F32 (32767 * x) = of_int n"
    unfolding x_def by (rule rnd_scaled_all [OF n(2)])
  ultimately have "sample_int (Fin x) = n" by (simp add: sample_int_def trunc_rat_def)
  moreover have "decode_sample w = Fin x" by (simp only: decode_sample_Fin n(1) x_def)
  moreover have "word_of_int (sint w) = w" by simp
  ultimately show ?thesis using n(1) by (simp add: encode_sample_int)
qed

text \<open>Quantisation: a sample in range is off by less than 2 steps of 1/32767 after the round trip.\<close>

lemma trunc_rat_error: "\<bar>of_int (trunc_rat q) - q\<bar> < 1"
  unfolding trunc_rat_def by (auto simp: abs_less_iff; linarith)

lemma rnd_error_le:
  assumes "\<bar>x\<bar> < pow2 k" and "- int (qmin f) + int (prec f) \<le> k"
  shows "\<bar>rnd f x - x\<bar> \<le> pow2 (k - 1 - int (prec f))"
proof (cases "x = 0")
  case False
  have "pow2 (rlog2 \<bar>x\<bar>) < pow2 k"
    using False by (intro le_less_trans [OF rlog2_bounds(1) assms(1)]) simp
  then have "ulp_exp f x \<le> k - int (prec f)" using assms(2) by (simp add: ulp_exp_def)
  then have "pow2 (ulp_exp f x) / 2 \<le> pow2 (k - int (prec f)) / 2" by simp
  also have "\<dots> = pow2 (k - 1 - int (prec f))"
    by (simp add: pow2_diff) (simp add: pow2_def)
  finally show ?thesis using rnd_error [of f x] by linarith
qed simp

lemma quantisation_error:
  assumes "- 1 \<le> q" "q \<le> 1"
  shows "\<bar>rnd F32 (of_int (sample_int (Fin q)) / 32767) - q\<bar> < 2 / 32767"
proof -
  have c: "clamp_sample (Fin q) = Fin q" using assms by (auto simp: clamp_sample_def)
  define z where "z = rnd F32 (32767 * q)"
  define n where "n = trunc_rat z"
  have n: "sample_int (Fin q) = n" by (simp add: sample_int_def c n_def z_def)
  have "\<bar>32767 * q\<bar> < pow2 15" using assms by (auto simp: pow2_def abs_less_iff)
  then have "\<bar>z - 32767 * q\<bar> \<le> pow2 (15 - 1 - 24)"
    unfolding z_def using rnd_error_le [of "32767 * q" 15 F32] by simp
  then have e1: "\<bar>z - 32767 * q\<bar> \<le> 1 / 1024" by (simp add: pow2_def)
  have e2: "\<bar>of_int n - z\<bar> < 1" unfolding n_def by (rule trunc_rat_error)
  have nb: "\<bar>n\<bar> \<le> 32767" using sample_int_range [of "Fin q"] by (simp add: n)
  then have "\<bar>of_int n / 32767 :: rat\<bar> < pow2 1" by (auto simp: pow2_def abs_if)
  then have "\<bar>rnd F32 (of_int n / 32767) - of_int n / 32767\<bar> \<le> pow2 (1 - 1 - 24)"
    using rnd_error_le [of "of_int n / 32767" 1 F32] by simp
  then have e3: "\<bar>rnd F32 (of_int n / 32767) - of_int n / 32767\<bar> \<le> 1 / 2 ^ 24"
    by (simp add: pow2_def)
  have "\<bar>of_int n - 32767 * q\<bar> < 1 + 1 / 1024" using e1 e2 by linarith
  then have "\<bar>of_int n / 32767 - q\<bar> < (1 + 1 / 1024) / 32767" by (simp add: abs_less_iff field_simps)
  then have "\<bar>rnd F32 (of_int n / 32767) - q\<bar> < (1 + 1 / 1024) / 32767 + 1 / 2 ^ 24"
    using e3 by linarith
  also have "\<dots> \<le> 2 / 32767" by simp
  finally show ?thesis by (simp add: n)
qed

section \<open>Properties\<close>

text \<open>
  C27: decoding a frame and encoding it again gives the same bytes. The float32 division by 32767
  in the decoder and the float32 multiplication and truncation in the encoder are inverse on every
  16-bit sample but -32768, which the clamp turns into -32767.
\<close>

theorem encode_decode_identity:
  assumes "encoder_ok e" and "int (length data) = 2 * (frameSamples e * cfgChannels (config e))"
    and "\<forall>w \<in> set (le16s data). sint w \<noteq> - 32768"
    and "length pcm = length data div 2"
  shows "\<exists>n samples. Decode d data pcm = Inr (n, samples) \<and> Encode unrep e samples = Inr data"
proof -
  have ev: "even (length data)" using assms(2) by (metis dvd_triv_left even_of_nat)
  have len: "int (length (le16s data)) = frameSamples e * cfgChannels (config e)"
    using assms(2) ev by (simp add: length_le16s)
  have "Decode d data pcm = Inr (go_quot (int (length data div 2)) (decChannels d), map decode_sample (le16s data))"
    using Decode_even [OF ev] assms(4) by simp
  moreover have "map (\<lambda>s. le16 (encode_sample unrep s)) (map decode_sample (le16s data)) = map le16 (le16s data)"
    using assms(3) by (auto simp: encode_decode_sample)
  then have "Encode unrep e (map decode_sample (le16s data)) = Inr data"
    using Encode_ok [OF assms(1), of "map decode_sample (le16s data)" unrep] len le16s_concat [OF ev]
    by (simp only: length_map)
  ultimately show ?thesis by blast
qed

text \<open>A mono encoder of 5 ms frames and a frame of 240 samples, for the witnesses.\<close>

definition enc5 :: encoder where
  "enc5 = \<lparr>config = DefaultEncoderConfig\<lparr>cfgChannels := 1, cfgFrameMs := 5\<rparr>, frameSamples = 240\<rparr>"

lemma enc5: "NewEncoder (DefaultEncoderConfig\<lparr>cfgChannels := 1, cfgFrameMs := 5\<rparr>) = Inr enc5"
  by (simp add: NewEncoder_def enc5_def DefaultEncoderConfig_def frame_ms_ok_def FrameSamples_def
      go_quot_def SampleRate_def)

lemma enc5_ok: "encoder_ok enc5"
  by (rule NewEncoder_ok [OF enc5])

lemma enc5_size: "frameSamples enc5 * cfgChannels (config enc5) = 240"
  by (simp add: enc5_def DefaultEncoderConfig_def)

theorem encode_decode_identity_witness:
  "\<exists>n samples.
     Decode \<lparr>decSampleRate = 48000, decChannels = 1\<rparr> (concat (map le16 (replicate 240 0x7FFF))) (replicate 240 NaN)
       = Inr (n, samples) \<and>
     Encode (\<lambda>_. 0) enc5 samples = Inr (concat (map le16 (replicate 240 0x7FFF)))"
proof (rule encode_decode_identity [OF enc5_ok])
  have l: "length (concat (map le16 (replicate 240 0x7FFF))) = 480"
    using length_concat_le16 [of "\<lambda>x. x" "replicate 240 0x7FFF"] by simp
  then show "int (length (concat (map le16 (replicate 240 0x7FFF)))) =
      2 * (frameSamples enc5 * cfgChannels (config enc5))" by (simp add: enc5_size)
  show "length (replicate 240 NaN) = length (concat (map le16 (replicate 240 0x7FFF))) div 2"
    using l by simp
  show "\<forall>w \<in> set (le16s (concat (map le16 (replicate 240 0x7FFF)))). sint w \<noteq> - 32768"
    unfolding le16s_of_concat by simp
qed

text \<open>
  An encoder made by \<^verbatim>\<open>NewEncoder\<close> never panics and fails exactly on a wrong sample count; on
  success it returns two bytes per sample, and every sample that is not NaN, infinities included, is a
  16-bit value between -32767 and 32767: the conversion to int16 never overflows.
\<close>

theorem encode_total:
  assumes "NewEncoder cfg = Inr e"
  shows "case Encode unrep e pcm of
      Inl err \<Rightarrow> int (length pcm) \<noteq> frameSamples e * cfgChannels cfg \<and>
        err = ErrSampleCount (frameSamples e * cfgChannels cfg) (length pcm)
    | Inr b \<Rightarrow> int (length pcm) = frameSamples e * cfgChannels cfg \<and> length b = 2 * length pcm \<and>
        (\<forall>i < length pcm. pcm ! i \<noteq> NaN \<longrightarrow> \<bar>sint (le16s b ! i)\<bar> \<le> 32767)"
proof -
  have ok: "encoder_ok e" and c: "config e = cfg"
    using assms NewEncoder_ok [OF assms] by (auto simp: NewEncoder_def split: if_splits)
  show ?thesis
  proof (cases "int (length pcm) = frameSamples e * cfgChannels (config e)")
    case True
    let ?b = "concat (map (\<lambda>s. le16 (encode_sample unrep s)) pcm)"
    have b: "?b = concat (map le16 (map (encode_sample unrep) pcm))" by (simp add: comp_def)
    have "le16s ?b = map (encode_sample unrep) pcm" unfolding b by (rule le16s_of_concat)
    then show ?thesis
      using Encode_ok [OF ok True] True sample_int_range by (auto simp: c sint_sample)
  next
    case False
    then show ?thesis by (simp add: Encode_def Let_def c)
  qed
qed

theorem encode_total_witness:
  "case Encode (\<lambda>_. 0) enc5 (replicate 240 PosInf) of
      Inl err \<Rightarrow> int (length (replicate 240 PosInf)) \<noteq>
          frameSamples enc5 * cfgChannels (DefaultEncoderConfig\<lparr>cfgChannels := 1, cfgFrameMs := 5\<rparr>) \<and>
        err = ErrSampleCount
          (frameSamples enc5 * cfgChannels (DefaultEncoderConfig\<lparr>cfgChannels := 1, cfgFrameMs := 5\<rparr>))
          (length (replicate 240 PosInf))
    | Inr b \<Rightarrow> int (length (replicate 240 PosInf)) =
          frameSamples enc5 * cfgChannels (DefaultEncoderConfig\<lparr>cfgChannels := 1, cfgFrameMs := 5\<rparr>) \<and>
        length b = 2 * length (replicate 240 PosInf) \<and>
        (\<forall>i < length (replicate 240 PosInf). replicate 240 PosInf ! i \<noteq> NaN \<longrightarrow> \<bar>sint (le16s b ! i)\<bar> \<le> 32767)"
  by (rule encode_total [OF enc5])

text \<open>
  A finite sample between -1 and 1 comes back from the encoder and the decoder less than two
  quantisation steps (2/32767) away, the float32 rounding of both sides included.
\<close>

theorem quantisation_bound:
  assumes "- 1 \<le> q" and "q \<le> 1"
  shows "\<exists>y. decode_sample (encode_sample unrep (Fin q)) = Fin y \<and> \<bar>y - q\<bar> < 2 / 32767"
  using quantisation_error [OF assms] sint_sample [of "Fin q" unrep]
  by (simp only: decode_sample_Fin) simp

theorem quantisation_bound_witness:
  "\<exists>y. decode_sample (encode_sample (\<lambda>_. 0) (Fin (1 / 3))) = Fin y \<and> \<bar>y - 1 / 3\<bar> < 2 / 32767"
  using quantisation_bound [where q = "1 / 3" and unrep = "\<lambda>_. 0"] by simp

end
