(* ===== verification/Capture.thy ===== *)
theory Capture
  imports Ring Codec
begin

text \<open>
  The capture of the computer's audio (\<^verbatim>\<open>internal/capture\<close>): \<^verbatim>\<open>Start\<close>, \<^verbatim>\<open>Stop\<close>, \<^verbatim>\<open>Read\<close> and the capture loop of the
  Windows implementation, and the test tone. The calls into COM and WASAPI are inputs: their result codes,
  the objects and the bytes they deliver. An interface pointer is a number, 0 for none.
\<close>

section \<open>Formats\<close>

record audio_format =
  afSampleRate :: nat
  afChannels :: nat
  afBitDepth :: nat

record wave_format =
  wfFormatTag :: u16
  wfChannels :: u16
  wfSamplesPerSec :: u32
  wfAvgBytesPerSec :: u32
  wfBlockAlign :: u16
  wfBitsPerSample :: u16
  wfCbSize :: u16

record wasapi =
  wRunning :: bool
  wEnumerator :: nat
  wDevice :: nat
  wAudioClient :: nat
  wCaptureClient :: nat
  wEvent :: nat
  wFormat :: audio_format
  wMix :: wave_format
  wBytesPerFrame :: nat
  wRing :: ring
  wLatency :: fl

definition NewWASAPICapture :: wasapi where
  "NewWASAPICapture =
     \<lparr>wRunning = False, wEnumerator = 0, wDevice = 0, wAudioClient = 0, wCaptureClient = 0, wEvent = 0,
      wFormat = \<lparr>afSampleRate = 0, afChannels = 0, afBitDepth = 0\<rparr>,
      wMix = \<lparr>wfFormatTag = 0, wfChannels = 0, wfSamplesPerSec = 0, wfAvgBytesPerSec = 0, wfBlockAlign = 0,
        wfBitsPerSample = 0, wfCbSize = 0\<rparr>,
      wBytesPerFrame = 0, wRing = new_ring (48000 * 2 * 2), wLatency = Fin 0\<rparr>"

section \<open>Converting samples\<close>

text \<open>A float32 from its bits.\<close>

definition f32_of_bits :: "u32 \<Rightarrow> fl" where
  "f32_of_bits w =
     (let neg = bit w 31;
          e = uint (take_bit 8 (drop_bit 23 w));
          m = uint (take_bit 23 w);
          v = (if e = 0 then of_int m * pow2 (- 149) else of_int (2 ^ 23 + m) * pow2 (e - 150))
      in if e = 255 then (if m \<noteq> 0 then NaN else if neg then NegInf else PosInf)
         else Fin (if neg then - v else v))"

text \<open>The packet in the memory the device points to.\<close>

type_synonym memory = "nat \<Rightarrow> byte"

definition mem_float32 :: "memory \<Rightarrow> nat \<Rightarrow> fl" where
  "mem_float32 mem i = f32_of_bits (get_be32 [mem (4 * i + 3), mem (4 * i + 2), mem (4 * i + 1), mem (4 * i)])"

definition mem_int16 :: "memory \<Rightarrow> nat \<Rightarrow> u16" where
  "mem_int16 mem i = get_le16 [mem (2 * i), mem (2 * i + 1)]"

definition int24 :: "byte \<Rightarrow> byte \<Rightarrow> byte \<Rightarrow> u32" where
  "int24 b0 b1 b2 =
     (let val = (ucast b0 OR push_bit 8 (ucast b1)) OR push_bit 16 (ucast b2)
      in if val AND 0x800000 \<noteq> 0 then val OR - 0x1000000 else val)"

definition from_int16 :: "u16 \<Rightarrow> fl" where
  "from_int16 s = fdivc F32 (fl_of_int F32 (sint s)) 32767"

definition from_int24 :: "u32 \<Rightarrow> fl" where
  "from_int24 val = fdivc F32 (fl_of_int F32 (sint val)) 8388607"

text \<open>
  \<open>None\<close> is a panic: an empty slice has no first byte, and the 24-bit branch checks its indices. The 32-
  and 16-bit branches read the memory unchecked.
\<close>

definition convertAndWrite :: "memory \<Rightarrow> nat \<Rightarrow> wasapi \<Rightarrow> wasapi option" where
  "convertAndWrite mem numFrames w =
     (let bits = unat (wfBitsPerSample (wMix w));
          len = numFrames * wBytesPerFrame w;
          n = numFrames * afChannels (wFormat w);
          put = \<lambda>xs. map_option (\<lambda>r. w\<lparr>wRing := r\<rparr>) (ring_puts xs (wRing w))
      in if bits = 32 then (if len = 0 then None else put (map (mem_float32 mem) [0..<n]))
         else if bits = 16 then (if len = 0 then None else put (map (\<lambda>i. from_int16 (mem_int16 mem i)) [0..<n]))
         else if bits = 24 then
           (if len < 3 * n then None
            else put (map (\<lambda>i. from_int24 (int24 (mem (3 * i)) (mem (3 * i + 1)) (mem (3 * i + 2)))) [0..<n]))
         else put (replicate n (Fin 0)))"

section \<open>The capture loop\<close>

text \<open>The inputs of one round of \<^verbatim>\<open>processCaptureBuffer\<close>.\<close>

record packet_env =
  peRunning :: bool
  peNext :: "u32 \<times> u32"
  peBuffer :: "u32 \<times> u32 \<times> u32"
  peMem :: memory

definition is_silent :: "u32 \<Rightarrow> bool" where
  "is_silent flags \<longleftrightarrow> flags AND 2 \<noteq> 0"

text \<open>The result lists the sizes given back to \<^verbatim>\<open>ReleaseBuffer\<close>; after the last input the device has no packet.\<close>

fun processCaptureBuffer :: "packet_env list \<Rightarrow> wasapi \<Rightarrow> (u32 list \<times> wasapi) option" where
  "processCaptureBuffer [] w = Some ([], w)"
| "processCaptureBuffer (p # ps) w =
     (if \<not> peRunning p \<or> wCaptureClient w = 0 then Some ([], w)
      else if fst (peNext p) \<noteq> 0 \<or> snd (peNext p) = 0 then Some ([], w)
      else
        let (hr, numFrames, flags) = peBuffer p
        in if hr \<noteq> 0 then Some ([], w)
           else if numFrames = 0 then Some ([], w)
           else
             let totalSamples = unat numFrames * afChannels (wFormat w)
             in case (if is_silent flags
                      then map_option (\<lambda>r. w\<lparr>wRing := r\<rparr>) (ring_puts (replicate totalSamples (Fin 0)) (wRing w))
                      else convertAndWrite (peMem p) (unat numFrames) w) of
                  None \<Rightarrow> None
                | Some w \<Rightarrow>
                    map_option (\<lambda>(released, w). (numFrames # released, w)) (processCaptureBuffer ps w))"

section \<open>Start and stop\<close>

definition isAlreadyInitialized :: "u32 \<Rightarrow> bool" where
  "isAlreadyInitialized code \<longleftrightarrow> code = 1 \<or> code = 0x80010106"

text \<open>
  The capture goroutine: each wake-up with whether \<^verbatim>\<open>running\<close> is still set and the inputs of the round. When
  COM cannot be initialised for its thread it returns at once, and nobody is told.
\<close>

fun capture_rounds :: "(bool \<times> packet_env list) list \<Rightarrow> wasapi \<Rightarrow> (u32 list \<times> wasapi) option" where
  "capture_rounds [] w = Some ([], w)"
| "capture_rounds ((running, ps) # rounds) w =
     (if \<not> running then Some ([], w)
      else case processCaptureBuffer ps w of
        None \<Rightarrow> None
      | Some (released, w) \<Rightarrow> map_option (\<lambda>(rs, w). (released @ rs, w)) (capture_rounds rounds w))"

definition captureLoop :: "u32 option \<Rightarrow> (bool \<times> packet_env list) list \<Rightarrow> wasapi \<Rightarrow> (u32 list \<times> wasapi) option" where
  "captureLoop coInit rounds w =
     (if (case coInit of None \<Rightarrow> False | Some c \<Rightarrow> c \<noteq> 0 \<and> \<not> isAlreadyInitialized c) then Some ([], w)
      else capture_rounds rounds w)"

text \<open>What the system answers to each call of \<^verbatim>\<open>Start\<close>: a result code, and an object where there is one.\<close>

record start_env =
  seCoInit :: "u32 option"
  seCreate :: "u32 \<times> nat"
  seEndpoint :: "u32 \<times> nat"
  seActivate :: "u32 \<times> nat"
  seMixFormat :: "u32 \<times> wave_format"
  seInitialize :: u32
  seEvent :: nat
  seService :: "u32 \<times> nat"
  seStart :: u32
  seLatency :: "u32 \<times> i64"

datatype start_error =
    AlreadyRunning | CoInitFailed u32 | CreateFailed u32 | EndpointFailed u32 | ActivateFailed u32
  | MixFormatFailed u32 | InitializeFailed u32 | ServiceFailed u32 | StartFailed u32

definition measureLoopbackLatency :: "start_env \<Rightarrow> wasapi \<Rightarrow> wasapi" where
  "measureLoopbackLatency env w =
     (if wAudioClient w = 0 then w\<lparr>wLatency := Fin 15\<rparr>
      else let (hr, latency) = seLatency env
           in if hr \<noteq> 0 then w\<lparr>wLatency := Fin 15\<rparr>
              else let l = fdivc F64 (fl_of_int F64 (sint latency)) 10000
                   in w\<lparr>wLatency := (if flt l (Fin 5) then Fin 5 else l)\<rparr>)"

definition set_format :: "wave_format \<Rightarrow> wasapi \<Rightarrow> wasapi" where
  "set_format mix w =
     (let f = \<lparr>afSampleRate = unat (wfSamplesPerSec mix), afChannels = unat (wfChannels mix), afBitDepth = 32\<rparr>
      in w\<lparr>wMix := mix, wFormat := f, wBytesPerFrame := unat (wfBlockAlign mix),
           wRing := new_ring (afSampleRate f * afChannels f * 2)\<rparr>)"

definition Start :: "start_env \<Rightarrow> wasapi \<Rightarrow> start_error option \<times> wasapi" where
  "Start env w =
     (if wRunning w then (Some AlreadyRunning, w)
      else if (case seCoInit env of None \<Rightarrow> False | Some c \<Rightarrow> c \<noteq> 0 \<and> \<not> isAlreadyInitialized c)
      then (Some (CoInitFailed (the (seCoInit env))), w)
      else if fst (seCreate env) \<noteq> 0 then (Some (CreateFailed (fst (seCreate env))), w)
      else
        let w = w\<lparr>wEnumerator := snd (seCreate env)\<rparr>
        in if fst (seEndpoint env) \<noteq> 0 then (Some (EndpointFailed (fst (seEndpoint env))), w)
      else
        let w = w\<lparr>wDevice := snd (seEndpoint env)\<rparr>
        in if fst (seActivate env) \<noteq> 0 then (Some (ActivateFailed (fst (seActivate env))), w)
      else
        let w = w\<lparr>wAudioClient := snd (seActivate env)\<rparr>
        in if fst (seMixFormat env) \<noteq> 0 then (Some (MixFormatFailed (fst (seMixFormat env))), w)
      else
        let w = set_format (snd (seMixFormat env)) w
        in if seInitialize env \<noteq> 0 then (Some (InitializeFailed (seInitialize env)), w)
      else
        let w = w\<lparr>wEvent := seEvent env\<rparr>
        in if fst (seService env) \<noteq> 0 then (Some (ServiceFailed (fst (seService env))), w)
      else
        let w = w\<lparr>wCaptureClient := snd (seService env)\<rparr>
        in if seStart env \<noteq> 0 then (Some (StartFailed (seStart env)), w)
      else (None, measureLoopbackLatency env (w\<lparr>wRunning := True\<rparr>)))"

datatype com_call = StopClient nat | Release nat | CloseHandle nat

definition release_if :: "nat \<Rightarrow> com_call list" where
  "release_if obj = (if obj \<noteq> 0 then [Release obj] else [])"

text \<open>\<^verbatim>\<open>Stop\<close>, once the capture goroutine has returned.\<close>

definition Stop :: "wasapi \<Rightarrow> com_call list \<times> wasapi" where
  "Stop w =
     (if \<not> wRunning w then ([], w)
      else
        ((if wAudioClient w \<noteq> 0 then [StopClient (wAudioClient w)] else []) @
         release_if (wCaptureClient w) @ release_if (wAudioClient w) @ release_if (wDevice w) @
         release_if (wEnumerator w) @ (if wEvent w \<noteq> 0 then [CloseHandle (wEvent w)] else []),
         w\<lparr>wRunning := False, wCaptureClient := 0, wAudioClient := 0, wDevice := 0, wEnumerator := 0, wEvent := 0\<rparr>))"

section \<open>Reading\<close>

datatype read_error = NotRunning | Stopped

datatype read_result = ReadPanics | ReadWaits | ReadFails read_error | Samples "fl list" wasapi

text \<open>\<^verbatim>\<open>Read\<close> for \<open>n\<close> samples, with what \<^verbatim>\<open>running\<close> is at the entry and when the available samples are counted.\<close>

definition Read :: "nat \<Rightarrow> bool \<Rightarrow> bool \<Rightarrow> wasapi \<Rightarrow> read_result" where
  "Read n entry later w =
     (if \<not> entry then ReadFails NotRunning
      else if ringAvailable (wRing w) < int n \<and> later then ReadWaits
      else if \<not> later then ReadFails Stopped
      else case ring_copy n (wRing w) of
             None \<Rightarrow> ReadPanics
           | Some (buf, r) \<Rightarrow> Samples buf (w\<lparr>wRing := r\<rparr>))"

section \<open>Packets\<close>

definition delivers :: "packet_env \<Rightarrow> bool" where
  "delivers p \<longleftrightarrow> peRunning p \<and> fst (peNext p) = 0 \<and> snd (peNext p) \<noteq> 0 \<and>
     fst (peBuffer p) = 0 \<and> fst (snd (peBuffer p)) \<noteq> 0"

definition packet_samples :: "wasapi \<Rightarrow> packet_env \<Rightarrow> fl list" where
  "packet_samples w p =
     (let (hr, numFrames, flags) = peBuffer p;
          n = unat numFrames * afChannels (wFormat w);
          bits = unat (wfBitsPerSample (wMix w));
          mem = peMem p
      in if is_silent flags then replicate n (Fin 0)
         else if bits = 32 then map (mem_float32 mem) [0..<n]
         else if bits = 16 then map (\<lambda>i. from_int16 (mem_int16 mem i)) [0..<n]
         else if bits = 24 then map (\<lambda>i. from_int24 (int24 (mem (3 * i)) (mem (3 * i + 1)) (mem (3 * i + 2)))) [0..<n]
         else replicate n (Fin 0))"

text \<open>The block size the device promises: a frame is its channels, each of \<open>bits / 8\<close> bytes.\<close>

definition packed :: "wasapi \<Rightarrow> bool" where
  "packed w \<longleftrightarrow> 0 < afChannels (wFormat w) \<and>
     8 * wBytesPerFrame w = afChannels (wFormat w) * unat (wfBitsPerSample (wMix w))"

lemma convertAndWrite_samples:
  assumes "packed w" and "delivers p" and "peBuffer p = (hr, numFrames, flags)" and "\<not> is_silent flags"
  shows "convertAndWrite (peMem p) (unat numFrames) w =
    map_option (\<lambda>r. w\<lparr>wRing := r\<rparr>) (ring_puts (packet_samples w p) (wRing w))"
proof -
  let ?bits = "unat (wfBitsPerSample (wMix w))"
  have pos: "0 < unat numFrames" using assms(2,3) by (simp add: delivers_def unat_gt_0)
  have ch: "0 < afChannels (wFormat w)" "8 * wBytesPerFrame w = afChannels (wFormat w) * ?bits"
    using assms(1) by (simp_all add: packed_def)
  have "wBytesPerFrame w \<noteq> 0" if "?bits = 32 \<or> ?bits = 16" using ch that by (intro notI) auto
  moreover have "3 * (unat numFrames * afChannels (wFormat w)) = unat numFrames * wBytesPerFrame w" if "?bits = 24"
    using ch(2) that by simp
  ultimately show ?thesis
    using assms(3,4) pos by (auto simp: convertAndWrite_def packet_samples_def Let_def)
qed

lemma wRing_id [simp]: "w\<lparr>wRing := wRing w\<rparr> = w"
  by simp

text \<open>The size of the sample lists does not depend on the ring.\<close>

lemma packet_samples_ring [simp]: "packet_samples (w\<lparr>wRing := r\<rparr>) = packet_samples w"
  by (simp add: packet_samples_def fun_eq_iff)

lemma packed_ring [simp]: "packed (w\<lparr>wRing := r\<rparr>) = packed w"
  by (simp add: packed_def)

lemma processCaptureBuffer_stop:
  "\<not> delivers p \<or> wCaptureClient w = 0 \<Longrightarrow> processCaptureBuffer (p # ps) w = Some ([], w)"
  by (cases "peBuffer p") (auto simp: delivers_def)

lemma processCaptureBuffer_next:
  assumes "packed w" and "delivers p" and "wCaptureClient w \<noteq> 0"
  shows "processCaptureBuffer (p # ps) w =
    (case ring_puts (packet_samples w p) (wRing w) of
       None \<Rightarrow> None
     | Some r \<Rightarrow> map_option (\<lambda>(released, w). (fst (snd (peBuffer p)) # released, w))
         (processCaptureBuffer ps (w\<lparr>wRing := r\<rparr>)))"
proof -
  obtain hr numFrames flags where b: "peBuffer p = (hr, numFrames, flags)" using prod_cases3 by blast
  show ?thesis
  proof (cases "is_silent flags")
    case True
    then have "packet_samples w p = replicate (unat numFrames * afChannels (wFormat w)) (Fin 0)"
      by (simp add: packet_samples_def b)
    then show ?thesis using assms(2,3) True by (auto simp: delivers_def b Let_def split: option.split)
  next
    case False
    show ?thesis using assms(2,3) False
      by (auto simp: delivers_def b Let_def convertAndWrite_samples [OF assms(1,2) b False] split: option.split)
  qed
qed

declare processCaptureBuffer.simps(2) [simp del]

section \<open>Properties\<close>

text \<open>
  One wake-up: the packets the device delivers, up to the first call that fails or reports nothing, are
  put into the ring in order.
\<close>

lemma process_puts:
  assumes "wCaptureClient w \<noteq> 0" and "packed w"
  shows "processCaptureBuffer ps w =
    map_option (\<lambda>r. (map (\<lambda>p. fst (snd (peBuffer p))) (takeWhile delivers ps), w\<lparr>wRing := r\<rparr>))
      (ring_puts (concat (map (packet_samples w) (takeWhile delivers ps))) (wRing w))"
  using assms
proof (induction ps arbitrary: w)
  case (Cons p ps)
  show ?case
  proof (cases "delivers p")
    case True
    show ?thesis
      using Cons.IH [of "w\<lparr>wRing := r\<rparr>" for r] Cons.prems True
      by (auto simp: processCaptureBuffer_next ring_puts_append option.map_comp o_def split: option.split)
  qed (simp add: processCaptureBuffer_stop)
qed simp

lemma process_packets:
  assumes "wCaptureClient w \<noteq> 0" and "packed w" and "ring_inv (wRing w)"
    and "length (ring_unread (wRing w)) + length (concat (map (packet_samples w) (takeWhile delivers ps))) \<le>
      ringSize (wRing w)"
  shows "\<exists>r. processCaptureBuffer ps w =
      Some (map (\<lambda>p. fst (snd (peBuffer p))) (takeWhile delivers ps), w\<lparr>wRing := r\<rparr>) \<and>
    ring_inv r \<and> ringSize r = ringSize (wRing w) \<and>
    ring_unread r = ring_unread (wRing w) @ concat (map (packet_samples w) (takeWhile delivers ps))"
  using rb.put_ok [OF assms(3,4)] by (auto simp: process_puts [OF assms(1,2)])

text \<open>The packets of a run of the loop: those delivered at each wake-up, until \<^verbatim>\<open>running\<close> is found cleared.\<close>

definition loop_packets :: "(bool \<times> packet_env list) list \<Rightarrow> packet_env list" where
  "loop_packets rounds = concat (map (\<lambda>(running, ps). takeWhile delivers ps) (takeWhile fst rounds))"

lemma capture_rounds_packets:
  assumes "wCaptureClient w \<noteq> 0" and "packed w" and "ring_inv (wRing w)"
    and "length (ring_unread (wRing w)) + length (concat (map (packet_samples w) (loop_packets rounds))) \<le>
      ringSize (wRing w)"
  shows "\<exists>r. capture_rounds rounds w =
      Some (map (\<lambda>p. fst (snd (peBuffer p))) (loop_packets rounds), w\<lparr>wRing := r\<rparr>) \<and>
    ring_inv r \<and> ringSize r = ringSize (wRing w) \<and>
    ring_unread r = ring_unread (wRing w) @ concat (map (packet_samples w) (loop_packets rounds))"
  using assms
proof (induction rounds arbitrary: w)
  case Nil
  then show ?case by (intro exI [of _ "wRing w"]) (simp add: loop_packets_def)
next
  case (Cons rd rounds)
  obtain running ps where rd: "rd = (running, ps)" by force
  show ?case
  proof (cases running)
    case False
    then show ?thesis using Cons.prems(3) by (intro exI [of _ "wRing w"]) (simp add: rd loop_packets_def)
  next
    case True
    then have l: "loop_packets (rd # rounds) = takeWhile delivers ps @ loop_packets rounds"
      by (simp add: rd loop_packets_def)
    obtain r1 where r1: "processCaptureBuffer ps w = Some (map (\<lambda>p. fst (snd (peBuffer p))) (takeWhile delivers ps), w\<lparr>wRing := r1\<rparr>)"
      "ring_inv r1" "ringSize r1 = ringSize (wRing w)"
      "ring_unread r1 = ring_unread (wRing w) @ concat (map (packet_samples w) (takeWhile delivers ps))"
      using process_packets [OF Cons.prems(1-3), of ps] Cons.prems(4) unfolding l by auto
    have "length (ring_unread r1) + length (concat (map (packet_samples w) (loop_packets rounds))) \<le> ringSize r1"
      using Cons.prems(4) unfolding l r1(3,4) by (simp add: add.assoc)
    then show ?thesis
      using Cons.IH [of "w\<lparr>wRing := r1\<rparr>"] Cons.prems(1,2) r1 True l by (auto simp: rd)
  qed
qed

text \<open>
  C15: a run of the capture goroutine. The packets the device delivers at each wake-up, up to the first call
  that fails or reports nothing, are appended to the unread samples in order, frame by frame, silent packets
  as zeros, and each buffer is given back exactly once with its own size, provided that the ring has room;
  nothing else of the capture changes. The loop ends at the first wake-up that finds \<^verbatim>\<open>running\<close> cleared.
\<close>

theorem packets_captured:
  assumes "wCaptureClient w \<noteq> 0" and "packed w" and "ring_inv (wRing w)"
    and "length (ring_unread (wRing w)) + length (concat (map (packet_samples w) (loop_packets rounds))) \<le>
      ringSize (wRing w)"
  shows "\<exists>r. captureLoop None rounds w =
      Some (map (\<lambda>p. fst (snd (peBuffer p))) (loop_packets rounds), w\<lparr>wRing := r\<rparr>) \<and>
    ring_inv r \<and> ringSize r = ringSize (wRing w) \<and>
    ring_unread r = ring_unread (wRing w) @ concat (map (packet_samples w) (loop_packets rounds))"
  using capture_rounds_packets [OF assms] by (simp add: captureLoop_def)

section \<open>What the conversions compute\<close>

lemma from_int16_decode: "from_int16 w = decode_sample w"
  by (simp add: from_int16_def decode_sample_def)

lemma byte_bits: "bit (ucast b :: u32) n \<longleftrightarrow> n < 8 \<and> bit (b :: byte) n"
  by (auto simp: bit_ucast_iff dest: bit_imp_le_length)

lemma uint_ucast_byte [simp]: "uint (ucast (b :: byte) :: u32) = uint b"
  by (rule uint_up_ucast) (simp add: is_up)

lemma uint_byte: "0 \<le> uint (b :: byte)" "uint (b :: byte) < 256"
  using uint_lt2p [of b] by simp_all

lemma sint_byte: "sint (b :: byte) = (if bit b 7 then uint b - 256 else uint b)"
proof -
  have "sint b = signed_take_bit 7 (uint b)" by (simp add: sint_uint)
  also have "\<dots> = (if bit b 7 then uint b - 256 else uint b)"
  proof (cases "bit b 7")
    case True
    then have "bit (uint b) 7" by (simp add: bit_uint_iff)
    then have "signed_take_bit 7 (uint b) = take_bit 7 (uint b) OR NOT (mask 7)"
      by (simp add: signed_take_bit_def)
    have "take_bit 8 (uint b) = uint b" using uint_byte [of b] by (simp add: take_bit_int_eq_self)
    moreover have "signed_take_bit 7 (uint b) = take_bit (Suc 7) (uint b) - 2 ^ Suc 7"
      using \<open>bit (uint b) 7\<close> by (simp add: signed_take_bit_eq_take_bit_minus)
    ultimately show ?thesis using True by simp
  next
    case False
    then have "\<not> bit (uint b) 7" by (simp add: bit_uint_iff)
    moreover have "take_bit 8 (uint b) = uint b" using uint_byte [of b] by (simp add: take_bit_int_eq_self)
    ultimately show ?thesis using False
      by (simp add: signed_take_bit_eq_take_bit_minus)
  qed
  finally show ?thesis .
qed

text \<open>The three bytes as a number, before the extension of the sign.\<close>

lemma low24:
  fixes b0 b1 b2 :: byte
  defines "v \<equiv> ((ucast b0 :: u32) OR push_bit 8 (ucast b1)) OR push_bit 16 (ucast b2)"
  shows "uint v = uint b0 + 256 * uint b1 + 65536 * uint b2" "bit v n \<Longrightarrow> n < 24" "bit v 23 \<longleftrightarrow> bit b2 7"
proof -
  let ?s = "(ucast b0 + push_bit 8 (ucast b1)) + push_bit 16 (ucast b2) :: u32"
  have "(ucast b0 :: u32) OR push_bit 8 (ucast b1) = ucast b0 + push_bit 8 (ucast b1)"
    by (rule disjunctive_add [symmetric]) (auto simp: bit_push_bit_iff byte_bits)
  moreover have "((ucast b0 :: u32) OR push_bit 8 (ucast b1)) OR push_bit 16 (ucast b2) =
      ((ucast b0 :: u32) OR push_bit 8 (ucast b1)) + push_bit 16 (ucast b2)"
    by (rule disjunctive_add [symmetric]) (auto simp: bit_push_bit_iff bit_or_iff byte_bits)
  ultimately have v: "v = ?s" by (simp add: v_def)
  have "uint v = (uint b0 + 256 * uint b1 + 65536 * uint b2) mod 2 ^ 32"
    unfolding v by (simp add: uint_word_ariths push_bit_eq_mult mod_simps) (simp add: mult.commute)
  then show "uint v = uint b0 + 256 * uint b1 + 65536 * uint b2"
    using uint_byte [of b0] uint_byte [of b1] uint_byte [of b2] by simp
  show "bit v n \<Longrightarrow> n < 24" by (auto simp: v_def bit_or_iff bit_push_bit_iff byte_bits)
  show "bit v 23 \<longleftrightarrow> bit b2 7" by (auto simp: v_def bit_or_iff bit_push_bit_iff byte_bits)
qed

lemma sint_of_int32: "- (2 ^ 31) \<le> x \<Longrightarrow> x < 2 ^ 31 \<Longrightarrow> sint (word_of_int x :: u32) = x"
  by (simp add: int_word_sint mod_pos_pos_trivial)

lemma int24_value: "sint (int24 b0 b1 b2) = uint b0 + 256 * uint b1 + 65536 * sint b2"
proof -
  define v where "v = ((ucast b0 :: u32) OR push_bit 8 (ucast b1)) OR push_bit 16 (ucast b2)"
  note V = low24 [of b0 b1 b2, folded v_def]
  note bounds = uint_byte [of b0] uint_byte [of b1] uint_byte [of b2]
  have k: "(0x800000 :: u32) = push_bit 23 1" by (simp add: push_bit_eq_mult)
  have test: "v AND 0x800000 \<noteq> 0 \<longleftrightarrow> bit b2 7"
    unfolding k V(3) [symmetric] by (rule bit_iff_and_push_bit_not_eq_0 [symmetric])
  have "- 2147483648 \<le> uint v - 16777216" "uint v < 16777216" unfolding V(1) using bounds by linarith+
  moreover have "(2 :: int) ^ 31 = 2147483648" by simp
  ultimately have u: "- (2 ^ 31) \<le> uint v" "uint v < 2 ^ 31" "- (2 ^ 31) \<le> uint v - 16777216" "uint v - 16777216 < 2 ^ 31"
    by linarith+
  show ?thesis
  proof (cases "bit b2 7")
    case False
    then have "int24 b0 b1 b2 = v" using test by (simp add: int24_def v_def Let_def)
    moreover have "sint (word_of_int (uint v) :: u32) = uint v" using u by (intro sint_of_int32)
    then have "sint v = uint v" unfolding word_of_int_uint .
    ultimately show ?thesis using V(1) False by (simp add: sint_byte)
  next
    case True
    have m: "(- 0x1000000 :: u32) = NOT (mask 24)" using minus_exp_eq_not_mask [of 24, where 'a = u32] by simp
    have "v OR - 0x1000000 = v + - 0x1000000"
      unfolding m by (rule disjunctive_add [symmetric]) (use V(2) in \<open>auto simp only: bit_not_iff bit_mask_iff\<close>)
    then have i: "int24 b0 b1 b2 = word_of_int (uint v - 0x1000000)"
      using test True by (simp add: int24_def v_def [symmetric] Let_def)
    have "sint (word_of_int (uint v - 0x1000000) :: u32) = uint v - 0x1000000"
      using u by (intro sint_of_int32)
    then show ?thesis using i V(1) True by (simp add: sint_byte)
  qed
qed

lemma sint_byte_range: "- 128 \<le> sint (b :: byte)" "sint (b :: byte) < 128"
  using sint_greater_eq [of b] sint_lt [of b] by simp_all

lemma int24_range: "\<bar>sint (int24 b0 b1 b2)\<bar> \<le> 2 ^ 23"
proof -
  have "\<bar>sint (int24 b0 b1 b2)\<bar> \<le> 8388608"
    using uint_byte [of b0] uint_byte [of b1] sint_byte_range [of b2] unfolding int24_value abs_le_iff by linarith
  then show ?thesis by simp
qed

text \<open>The quotient by the full scale is within half a unit in the last place, and in range.\<close>

lemma from_int24_value:
  assumes "\<bar>sint v\<bar> \<le> 2 ^ 23"
  shows "\<exists>q. from_int24 v = Fin q \<and> \<bar>q - of_int (sint v) / 8388607\<bar> \<le> 1 / 2 ^ 24 \<and> \<bar>q\<bar> \<le> 1 + 1 / 2 ^ 22"
proof -
  define x :: rat where "x = of_int (sint v) / 8388607"
  have i: "fl_of_int F32 (sint v) = Fin (of_int (sint v))"
    unfolding fl_of_int_def using assms by (intro to_fl_of_int) simp
  have ax: "\<bar>x\<bar> \<le> 1 + 1 / 2 ^ 22"
  proof -
    have "(of_int \<bar>sint v\<bar> :: rat) \<le> of_int (2 ^ 23)" using assms by (simp only: of_int_le_iff)
    then show ?thesis by (simp add: x_def divide_simps)
  qed
  have b: "rep F32 (1 + 1 / 2 ^ 22)"
    using rep_dyadic [of 4194305 F32 "- 22"] by (simp add: pow2_def qmin.simps)
  have r: "\<bar>rnd F32 x\<bar> \<le> 1 + 1 / 2 ^ 22" using b ax by (rule rnd_abs_le)
  have e: "\<bar>rnd F32 x - x\<bar> \<le> 1 / 2 ^ 24"
  proof (cases "x = 0")
    case False
    have "\<bar>x\<bar> < pow2 1" using ax by (simp add: pow2_def)
    moreover have "pow2 (rlog2 \<bar>x\<bar>) \<le> \<bar>x\<bar>" using False by (intro rlog2_bounds) simp
    ultimately have "pow2 (rlog2 \<bar>x\<bar>) < pow2 1" by linarith
    then have "ulp_exp F32 x \<le> - 23" by (simp add: ulp_exp_def)
    then have "pow2 (ulp_exp F32 x) / 2 \<le> pow2 (- 23) / 2" by simp
    also have "\<dots> = 1 / 2 ^ 24" by (simp add: pow2_def)
    finally show ?thesis using rnd_error [of F32 x] by linarith
  qed simp
  have "to_fl F32 x = Fin (rnd F32 x)"
  proof (rule to_fl_cases [of F32 x])
    have "pow2 (int (emax F32)) > 2" by (simp add: pow2_def emax.simps)
    then show "to_fl F32 x = PosInf \<Longrightarrow> pow2 (int (emax F32)) \<le> rnd F32 x \<Longrightarrow> ?thesis"
      "to_fl F32 x = NegInf \<Longrightarrow> rnd F32 x \<le> - pow2 (int (emax F32)) \<Longrightarrow> ?thesis"
      using r by (simp_all add: abs_le_iff)
  qed
  then have "from_int24 v = Fin (rnd F32 x)" by (simp add: from_int24_def i x_def)
  then show ?thesis using e r by (simp add: x_def)
qed

text \<open>A float32 sample is a value of the format.\<close>

lemma f32_of_bits_wf: "fl_wf F32 (f32_of_bits w)"
proof -
  define e where "e = uint (take_bit 8 (drop_bit 23 w))"
  define m where "m = uint (take_bit 23 w)"
  have e: "0 \<le> e" "e < 256" unfolding e_def
    using take_bit_int_less_exp [of 8 "uint (drop_bit 23 w)"] by (simp_all add: unsigned_take_bit_eq)
  have m: "0 \<le> m" "m < 2 ^ 23" unfolding m_def
    using take_bit_int_less_exp [of 23 "uint w"] by (simp_all add: unsigned_take_bit_eq)
  define v where "v = (if e = 0 then of_int m * pow2 (- 149) else of_int (2 ^ 23 + m) * pow2 (e - 150))"
  have v: "rep F32 v \<and> \<bar>v\<bar> < pow2 128" if "e \<noteq> 255"
  proof (cases "e = 0")
    case True
    have "rep F32 v" using True m by (simp add: v_def rep_dyadic qmin.simps)
    moreover have "of_int m * pow2 (- 149) < of_int (2 ^ 23) * pow2 (- 149)"
      using m by (simp only: mult_less_cancel_right_pos pow2_pos of_int_less_iff)
    then have "v < pow2 (23 + - 149)" unfolding pow2_add using True by (simp add: v_def pow2_def)
    then have "v < pow2 128" using pow2_mono [of "23 + - 149" 128] by (rule less_le_trans) simp
    moreover have "0 \<le> v" using m True by (simp add: v_def)
    ultimately show ?thesis by simp
  next
    case False
    have "rep F32 (of_int (2 ^ 23 + m) * pow2 (e - 150))" using m e False by (intro rep_dyadic) (simp_all add: qmin.simps)
    then have "rep F32 v" using False by (simp add: v_def)
    moreover have "of_int (2 ^ 23 + m) * pow2 (e - 150) < of_int (2 ^ 24) * pow2 (e - 150)"
      using m by (simp only: mult_less_cancel_right_pos pow2_pos of_int_less_iff) simp
    then have "v < pow2 (24 + (e - 150))" unfolding pow2_add using False by (simp add: v_def pow2_def)
    then have "v < pow2 128" using pow2_mono [of "24 + (e - 150)" 128] that e by (elim less_le_trans) simp
    moreover have "0 \<le> v" using m False by (simp add: v_def)
    ultimately show ?thesis by simp
  qed
  have "f32_of_bits w = (if e = 255 then (if m \<noteq> 0 then NaN else if bit w 31 then NegInf else PosInf)
      else Fin (if bit w 31 then - v else v))"
    by (simp add: f32_of_bits_def e_def m_def v_def Let_def)
  then show ?thesis using v by (auto simp: emax.simps)
qed




definition wit_format :: wave_format where
  "wit_format = \<lparr>wfFormatTag = 1, wfChannels = 2, wfSamplesPerSec = 48000, wfAvgBytesPerSec = 192000,
     wfBlockAlign = 4, wfBitsPerSample = 16, wfCbSize = 0\<rparr>"

definition wit_start :: start_env where
  "wit_start = \<lparr>seCoInit = Some 1, seCreate = (0, 11), seEndpoint = (0, 12), seActivate = (0, 13),
     seMixFormat = (0, wit_format), seInitialize = 0, seEvent = 15, seService = (0, 14), seStart = 0,
     seLatency = (0, 100000)\<rparr>"

definition wit_capture :: wasapi where
  "wit_capture = snd (Start wit_start NewWASAPICapture)"

definition wit_packet :: "byte \<Rightarrow> u32 \<Rightarrow> packet_env" where
  "wit_packet b flags = \<lparr>peRunning = True, peNext = (0, 3), peBuffer = (0, 3, flags), peMem = \<lambda>_. b\<rparr>"

lemma wit_capture_simps:
  "wCaptureClient wit_capture = 14" "wRing wit_capture = new_ring 192000" "wRunning wit_capture"
  "afChannels (wFormat wit_capture) = 2" "wfBitsPerSample (wMix wit_capture) = 16" "wBytesPerFrame wit_capture = 4"
  by (simp_all add: wit_capture_def Start_def wit_start_def NewWASAPICapture_def set_format_def wit_format_def
      isAlreadyInitialized_def measureLoopbackLatency_def Let_def)

theorem packets_captured_witness:
  "\<exists>r. captureLoop None [(True, [wit_packet 1 0]), (True, [wit_packet 5 2]), (False, [])] wit_capture =
      Some (map (\<lambda>p. fst (snd (peBuffer p))) [wit_packet 1 0, wit_packet 5 2], wit_capture\<lparr>wRing := r\<rparr>) \<and>
    ring_inv r \<and> ringSize r = ringSize (wRing wit_capture) \<and>
    ring_unread r = ring_unread (wRing wit_capture) @
      concat (map (packet_samples wit_capture) [wit_packet 1 0, wit_packet 5 2])"
proof -
  let ?rounds = "[(True, [wit_packet 1 0]), (True, [wit_packet 5 2]), (False, [])]"
  have l: "loop_packets ?rounds = [wit_packet 1 0, wit_packet 5 2]"
    by (simp add: loop_packets_def delivers_def wit_packet_def)
  have "length (packet_samples wit_capture (wit_packet b f)) = 6" for b f
    by (simp add: packet_samples_def wit_packet_def wit_capture_simps Let_def)
  then have room: "length (ring_unread (wRing wit_capture)) + length (concat (map (packet_samples wit_capture) (loop_packets ?rounds)))
      \<le> ringSize (wRing wit_capture)"
    unfolding l by (simp add: wit_capture_simps new_ring_def)
  have "wCaptureClient wit_capture \<noteq> 0" "packed wit_capture" "ring_inv (wRing wit_capture)"
    by (simp_all add: wit_capture_simps packed_def new_ring_inv)
  from packets_captured [OF this room] show ?thesis unfolding l .
qed

section \<open>Start and stop\<close>

text \<open>The objects a capture holds.\<close>

definition com_objects :: "wasapi \<Rightarrow> nat list" where
  "com_objects w = filter (\<lambda>obj. obj \<noteq> 0) [wCaptureClient w, wAudioClient w, wDevice w, wEnumerator w]"

definition released :: "com_call list \<Rightarrow> nat list" where
  "released cs = List.map_filter (\<lambda>c. case c of Release obj \<Rightarrow> Some obj | _ \<Rightarrow> None) cs"

lemma set_format_simps [simp]:
  "wRunning (set_format m w) = wRunning w" "wEnumerator (set_format m w) = wEnumerator w"
  "wDevice (set_format m w) = wDevice w" "wAudioClient (set_format m w) = wAudioClient w"
  "wCaptureClient (set_format m w) = wCaptureClient w" "wEvent (set_format m w) = wEvent w"
  "wFormat (set_format m w) = \<lparr>afSampleRate = unat (wfSamplesPerSec m), afChannels = unat (wfChannels m), afBitDepth = 32\<rparr>"
  "wRing (set_format m w) = new_ring (unat (wfSamplesPerSec m) * unat (wfChannels m) * 2)"
  by (simp_all add: set_format_def Let_def)

text \<open>The step of \<^verbatim>\<open>Start\<close> that fails first, and how many objects it has obtained by then.\<close>

definition first_failure :: "start_env \<Rightarrow> (start_error \<times> nat) option" where
  "first_failure env =
     (let steps = [(CreateFailed, fst (seCreate env), 0), (EndpointFailed, fst (seEndpoint env), 1),
        (ActivateFailed, fst (seActivate env), 2), (MixFormatFailed, fst (seMixFormat env), 3),
        (InitializeFailed, seInitialize env, 3), (ServiceFailed, fst (seService env), 3), (StartFailed, seStart env, 4)]
      in case seCoInit env of
           Some c \<Rightarrow> if c \<noteq> 0 \<and> \<not> isAlreadyInitialized c then Some (CoInitFailed c, 0)
             else map_option (\<lambda>(f, hr, n). (f hr, n)) (List.find (\<lambda>(f, hr, n). hr \<noteq> 0) steps)
         | None \<Rightarrow> map_option (\<lambda>(f, hr, n). (f hr, n)) (List.find (\<lambda>(f, hr, n). hr \<noteq> 0) steps))"

definition co_ok :: "start_env \<Rightarrow> bool" where
  "co_ok env = (case seCoInit env of None \<Rightarrow> True | Some c \<Rightarrow> c = 0 \<or> isAlreadyInitialized c)"

lemma first_failure_steps:
  "first_failure env =
    (if \<not> co_ok env then Some (CoInitFailed (the (seCoInit env)), 0)
     else if fst (seCreate env) \<noteq> 0 then Some (CreateFailed (fst (seCreate env)), 0)
     else if fst (seEndpoint env) \<noteq> 0 then Some (EndpointFailed (fst (seEndpoint env)), 1)
     else if fst (seActivate env) \<noteq> 0 then Some (ActivateFailed (fst (seActivate env)), 2)
     else if fst (seMixFormat env) \<noteq> 0 then Some (MixFormatFailed (fst (seMixFormat env)), 3)
     else if seInitialize env \<noteq> 0 then Some (InitializeFailed (seInitialize env), 3)
     else if fst (seService env) \<noteq> 0 then Some (ServiceFailed (fst (seService env)), 3)
     else if seStart env \<noteq> 0 then Some (StartFailed (seStart env), 4)
     else None)"
  by (auto simp: first_failure_def co_ok_def Let_def split: option.split)

lemma Start_co_ok:
  "co_ok env \<Longrightarrow> (case seCoInit env of None \<Rightarrow> False | Some c \<Rightarrow> c \<noteq> 0 \<and> \<not> isAlreadyInitialized c) = False"
  by (auto simp: co_ok_def split: option.splits)

lemma measured_latency: "\<exists>l. fle (Fin 5) l \<and> measureLoopbackLatency env w = w\<lparr>wLatency := l\<rparr>"
proof -
  have "to_fl F64 x \<noteq> NaN" for x by (rule to_fl_cases [of F64 x]) simp_all
  then have "fdivc F64 (fl_of_int F64 n) 10000 \<noteq> NaN" for n
    by (cases "fl_of_int F64 n") (auto simp: fl_of_int_def)
  then have "fle (Fin 5) (wLatency (measureLoopbackLatency env w))"
    by (auto simp: measureLoopbackLatency_def fle_def Let_def split: prod.split)
  then show ?thesis
    by (intro exI [of _ "wLatency (measureLoopbackLatency env w)"])
      (simp add: measureLoopbackLatency_def Let_def split: prod.split)
qed

lemma no_objects:
  "com_objects w = [] \<longleftrightarrow> wEnumerator w = 0 \<and> wDevice w = 0 \<and> wAudioClient w = 0 \<and> wCaptureClient w = 0"
  by (auto simp: com_objects_def)

text \<open>The state after the last call, before the latency is measured.\<close>

definition started :: "start_env \<Rightarrow> wasapi \<Rightarrow> wasapi" where
  "started env w = (set_format (snd (seMixFormat env)) (w\<lparr>wEnumerator := snd (seCreate env),
     wDevice := snd (seEndpoint env), wAudioClient := snd (seActivate env)\<rparr>))\<lparr>wEvent := seEvent env,
     wCaptureClient := snd (seService env), wRunning := True\<rparr>"

lemma Start_succeeds:
  assumes "\<not> wRunning w" and "first_failure env = None"
  shows "Start env w = (None, measureLoopbackLatency env (started env w))"
  using assms Start_co_ok [of env]
  by (simp add: first_failure_steps Start_def started_def Let_def split_beta split: if_splits)

lemma Start_fails:
  assumes "\<not> wRunning w" and "com_objects w = []"
    and "snd (seCreate env) \<noteq> 0" "snd (seEndpoint env) \<noteq> 0" "snd (seActivate env) \<noteq> 0" "snd (seService env) \<noteq> 0"
    and "first_failure env = Some (e, n)"
  shows "\<exists>w'. Start env w = (Some e, w') \<and> \<not> wRunning w' \<and> com_objects w' = drop (4 - n)
    [snd (seService env), snd (seActivate env), snd (seEndpoint env), snd (seCreate env)]"
proof (cases "co_ok env")
  case False
  then show ?thesis using assms by (auto simp: first_failure_steps Start_def co_ok_def split: option.splits)
next
  case True
  note start = Start_def [of env w, unfolded Start_co_ok [OF True] if_False]
  show ?thesis
    using assms(7) True assms(1,3-6) assms(2) [unfolded no_objects]
    by (auto simp: first_failure_steps start Let_def split_beta com_objects_def split: if_splits)
qed

text \<open>
  C30: the capture either starts or names the first call that failed. Started, it runs with the device's
  format, an empty ring of two seconds and a latency of at least 5 ms, and \<^verbatim>\<open>Stop\<close> then releases each of the
  objects it obtained once, in the reverse order, and holds none. Failed, it does not run, and the objects
  obtained before the failure stay: \<^verbatim>\<open>Stop\<close> does nothing, and the next \<^verbatim>\<open>Start\<close> overwrites them.
\<close>

theorem start_and_stop:
  assumes "\<not> wRunning w" and "com_objects w = []"
    and "snd (seCreate env) \<noteq> 0" "snd (seEndpoint env) \<noteq> 0" "snd (seActivate env) \<noteq> 0" "snd (seService env) \<noteq> 0"
  shows "case first_failure env of
      None \<Rightarrow> (\<exists>w'. Start env w = (None, w') \<and> wRunning w' \<and>
        wFormat w' = \<lparr>afSampleRate = unat (wfSamplesPerSec (snd (seMixFormat env))),
          afChannels = unat (wfChannels (snd (seMixFormat env))), afBitDepth = 32\<rparr> \<and>
        ring_unread (wRing w') = [] \<and>
        ringSize (wRing w') = 2 * afSampleRate (wFormat w') * afChannels (wFormat w') \<and>
        fle (Fin 5) (wLatency w') \<and>
        released (fst (Stop w')) =
          [snd (seService env), snd (seActivate env), snd (seEndpoint env), snd (seCreate env)] \<and>
        com_objects (snd (Stop w')) = [] \<and> \<not> wRunning (snd (Stop w')))
    | Some (e, n) \<Rightarrow> (\<exists>w'. Start env w = (Some e, w') \<and> \<not> wRunning w' \<and> Stop w' = ([], w') \<and>
        com_objects w' = drop (4 - n)
          [snd (seService env), snd (seActivate env), snd (seEndpoint env), snd (seCreate env)])"
proof (cases "first_failure env")
  case None
  obtain l where l: "fle (Fin 5) l" "Start env w = (None, (started env w)\<lparr>wLatency := l\<rparr>)"
    using measured_latency Start_succeeds [OF assms(1) None] by metis
  then show ?thesis using assms(3-6)
    by (simp add: None started_def Stop_def release_if_def released_def com_objects_def List.map_filter_simps
        new_ring_def ring_unread_def)
next
  case (Some f)
  then show ?thesis using Start_fails [OF assms(1-6), of "fst f" "snd f"] by (auto simp: Stop_def)
qed

theorem start_and_stop_witness:
  "first_failure wit_start = None \<and>
   (\<exists>w'. Start wit_start NewWASAPICapture = (None, w') \<and> wRunning w' \<and>
      wFormat w' = \<lparr>afSampleRate = unat (wfSamplesPerSec (snd (seMixFormat wit_start))),
        afChannels = unat (wfChannels (snd (seMixFormat wit_start))), afBitDepth = 32\<rparr> \<and>
      ring_unread (wRing w') = [] \<and>
      ringSize (wRing w') = 2 * afSampleRate (wFormat w') * afChannels (wFormat w') \<and>
      fle (Fin 5) (wLatency w') \<and> released (fst (Stop w')) = [14, 13, 12, 11] \<and>
      com_objects (snd (Stop w')) = [] \<and> \<not> wRunning (snd (Stop w'))) \<and>
   (\<exists>w'. Start (wit_start\<lparr>seInitialize := 0x88890008\<rparr>) NewWASAPICapture = (Some (InitializeFailed 0x88890008), w') \<and>
      \<not> wRunning w' \<and> Stop w' = ([], w') \<and> com_objects w' = [13, 12, 11])"
proof -
  have w: "\<not> wRunning NewWASAPICapture" "com_objects NewWASAPICapture = []"
    by (simp_all add: NewWASAPICapture_def com_objects_def)
  have f: "first_failure wit_start = None"
    "first_failure (wit_start\<lparr>seInitialize := 0x88890008\<rparr>) = Some (InitializeFailed 0x88890008, 3)"
    by (simp_all add: first_failure_def wit_start_def isAlreadyInitialized_def Let_def)
  have o: "snd (seCreate wit_start) = 11" "snd (seEndpoint wit_start) = 12" "snd (seActivate wit_start) = 13"
    "snd (seService wit_start) = 14" by (simp_all add: wit_start_def)
  show ?thesis
    using start_and_stop [OF w, of wit_start] start_and_stop [OF w, of "wit_start\<lparr>seInitialize := 0x88890008\<rparr>"]
    by (simp add: f o)
qed

end
