(* ===== verification/Surround.thy ===== *)
theory Surround
  imports GoFloat Protocol
begin

text \<open>
  \<^verbatim>\<open>internal/surround/demux.go\<close>: channel layouts, splitting interleaved PCM into one buffer per
  channel, and the stereo downmix. An index out of range and a division by a zero channel count
  panic in Go and are errors here.
\<close>

section \<open>Layouts\<close>

record layout =
  lname :: string
  channels :: nat
  mapping :: "byte list"

definition LayoutStereo :: layout where
  "LayoutStereo = \<lparr>lname = ''Stereo'', channels = 2, mapping = [ChannelFrontLeft, ChannelFrontRight]\<rparr>"

definition Layout51 :: layout where
  "Layout51 =
     \<lparr>lname = ''5.1 Surround'', channels = 6,
      mapping = [ChannelFrontLeft, ChannelFrontRight, ChannelCenter, ChannelLFE,
        ChannelSurroundLeft, ChannelSurroundRight]\<rparr>"

definition Layout71 :: layout where
  "Layout71 =
     \<lparr>lname = ''7.1 Surround'', channels = 8,
      mapping = [ChannelFrontLeft, ChannelFrontRight, ChannelCenter, ChannelLFE,
        ChannelBackLeft, ChannelBackRight, ChannelSurroundLeft, ChannelSurroundRight]\<rparr>"

lemmas layout_defs = LayoutStereo_def Layout51_def Layout71_def

datatype surround_error =
    ErrUnsupported int
  | ErrNotMultiple nat nat
  | ErrTooFewBuffers nat nat
  | ErrBufferShort nat nat nat
  | ErrChannelCount nat nat
  | ErrOutTooSmall nat nat
  | PanicDivide
  | PanicIndex

definition LayoutForChannels :: "int \<Rightarrow> surround_error + layout" where
  "LayoutForChannels n =
     (if n = 2 then Inr LayoutStereo
      else if n = 6 then Inr Layout51
      else if n = 8 then Inr Layout71
      else Inl (ErrUnsupported n))"

section \<open>Demultiplexing\<close>

text \<open>The inner loop over the channels of one frame, and the outer loop over the frames.\<close>

fun demux_row :: "'a list \<Rightarrow> nat \<Rightarrow> nat \<Rightarrow> nat list \<Rightarrow> 'a list list \<Rightarrow> 'a list list" where
  "demux_row xs i sample [] out = out"
| "demux_row xs i sample (ch # chs) out =
     demux_row xs i sample chs (out[ch := (out ! ch)[sample := xs ! (i + ch)]])"

function demux_from :: "nat \<Rightarrow> 'a list \<Rightarrow> nat \<Rightarrow> 'a list list \<Rightarrow> 'a list list" where
  "demux_from c xs i out =
     (if 0 < c \<and> i < length xs
      then demux_from c xs (i + c) (demux_row xs i (i div c) [0..<c] out)
      else out)"
  by pat_completeness auto
termination
  by (relation "measure (\<lambda>(c, xs, i, out). length xs - i)") auto

declare demux_from.simps [simp del]

definition Demux :: "layout \<Rightarrow> fl list \<Rightarrow> surround_error + fl list list" where
  "Demux lay interleaved =
     (let c = channels lay
      in if c = 0 then Inl PanicDivide
         else if length interleaved mod c \<noteq> 0 then Inl (ErrNotMultiple (length interleaved) c)
         else
           let perChannel = length interleaved div c;
               output = replicate c (replicate perChannel (Fin 0))
           in Inr (demux_from c interleaved 0 output))"

text \<open>The first buffer that is too short, if any.\<close>

fun short_buffer :: "nat \<Rightarrow> nat \<Rightarrow> 'a list list \<Rightarrow> (nat \<times> nat) option" where
  "short_buffer ch perChannel [] = None"
| "short_buffer ch perChannel (b # bs) =
     (if length b < perChannel then Some (ch, length b) else short_buffer (ch + 1) perChannel bs)"

definition DemuxInto :: "layout \<Rightarrow> fl list \<Rightarrow> fl list list \<Rightarrow> surround_error + fl list list" where
  "DemuxInto lay interleaved output =
     (let c = channels lay
      in if c = 0 then Inl PanicDivide
         else if length interleaved mod c \<noteq> 0 then Inl (ErrNotMultiple (length interleaved) c)
         else if length output < c then Inl (ErrTooFewBuffers (length output) c)
         else
           let perChannel = length interleaved div c
           in case short_buffer 0 perChannel (take c output) of
                Some (ch, l) \<Rightarrow> Inl (ErrBufferShort ch l perChannel)
              | None \<Rightarrow> Inr (demux_from c interleaved 0 output))"

section \<open>Downmix\<close>

text \<open>The untyped constants 0.707 become \<^verbatim>\<open>float32\<close> values where they are used.\<close>

definition mix_coeff :: rat where
  "mix_coeff = rnd F32 (707 / 1000)"

definition stereo_left :: "layout \<Rightarrow> fl list list \<Rightarrow> nat \<Rightarrow> fl" where
  "stereo_left lay chans i =
     (let fl = chans ! 0 ! i;
          c = (if 3 \<le> channels lay then chans ! 2 ! i else Fin 0);
          sl = (if 5 \<le> channels lay then chans ! 4 ! i else Fin 0)
      in fadd F32 (fadd F32 fl (fmulc F32 mix_coeff c)) (fmulc F32 mix_coeff sl))"

definition stereo_right :: "layout \<Rightarrow> fl list list \<Rightarrow> nat \<Rightarrow> fl" where
  "stereo_right lay chans i =
     (let fr = chans ! 1 ! i;
          c = (if 3 \<le> channels lay then chans ! 2 ! i else Fin 0);
          sr = (if 6 \<le> channels lay then chans ! 5 ! i else Fin 0)
      in fadd F32 (fadd F32 fr (fmulc F32 mix_coeff c)) (fmulc F32 mix_coeff sr))"

fun write_pairs :: "(nat \<Rightarrow> 'a) \<Rightarrow> (nat \<Rightarrow> 'a) \<Rightarrow> nat list \<Rightarrow> 'a list \<Rightarrow> 'a list" where
  "write_pairs l r [] out = out"
| "write_pairs l r (i # is) out = write_pairs l r is (out[i * 2 := l i, i * 2 + 1 := r i])"

text \<open>The channels the loop reads.\<close>

definition used_channels :: "nat \<Rightarrow> nat list" where
  "used_channels c =
     [0, 1] @ (if 3 \<le> c then [2] else []) @ (if 5 \<le> c then [4] else []) @ (if 6 \<le> c then [5] else [])"

definition DownmixToStereoInto :: "fl list list \<Rightarrow> layout \<Rightarrow> fl list \<Rightarrow> surround_error + fl list" where
  "DownmixToStereoInto chans lay out =
     (if length chans \<noteq> channels lay then Inl (ErrChannelCount (channels lay) (length chans))
      else if length chans = 0 then Inr out
      else
        let n = length (chans ! 0)
        in if length out < n * 2 then Inl (ErrOutTooSmall (n * 2) (length out))
           else if channels lay = 2
           then (if length (chans ! 1) < n then Inl PanicIndex
                 else Inr (write_pairs (\<lambda>i. chans ! 0 ! i) (\<lambda>i. chans ! 1 ! i) [0..<n] out))
           else if 0 < n \<and> (\<exists>ch \<in> set (used_channels (channels lay)).
                     length chans \<le> ch \<or> length (chans ! ch) < n)
           then Inl PanicIndex
           else Inr (write_pairs (stereo_left lay chans) (stereo_right lay chans) [0..<n] out))"

section \<open>The loops\<close>

lemma length_demux_row [simp]: "length (demux_row xs i s chs out) = length out"
  by (induction xs i s chs out rule: demux_row.induct) auto

lemma demux_row_nth:
  "distinct chs \<Longrightarrow> k < length out \<Longrightarrow>
   demux_row xs i s chs out ! k = (if k \<in> set chs then (out ! k)[s := xs ! (i + k)] else out ! k)"
proof (induction xs i s chs out rule: demux_row.induct)
  case (2 xs i s ch chs out)
  then show ?case by (cases "ch = k") auto
qed simp

text \<open>
  From frame \<open>f\<close> on, the loop stores sample \<open>s\<close> of channel \<open>k\<close> at its place for every frame
  \<open>s \<ge> f\<close> of the input, and touches nothing else.
\<close>

lemma demux_from_nth:
  assumes "0 < c" and "c \<le> length out" and "length xs = n * c" and "f \<le> n"
    and "\<forall>k < c. n \<le> length (out ! k)"
  shows "length (demux_from c xs (f * c) out) = length out \<and>
    (\<forall>k < length out. length (demux_from c xs (f * c) out ! k) = length (out ! k) \<and>
      (\<forall>s < length (out ! k). demux_from c xs (f * c) out ! k ! s =
         (if k < c \<and> f \<le> s \<and> s < n then xs ! (s * c + k) else out ! k ! s)))"
  using assms
proof (induction "n - f" arbitrary: f out)
  case 0
  then have "demux_from c xs (f * c) out = out" by (subst demux_from.simps) simp
  then show ?case using 0 by auto
next
  case (Suc m)
  define out' where "out' = demux_row xs (f * c) f [0..<c] out"
  have "f < n" using Suc.hyps(2) by simp
  then have "f * c < length xs" using Suc.prems by simp
  then have step: "demux_from c xs (f * c) out = demux_from c xs (Suc f * c) out'"
    using Suc.prems by (subst demux_from.simps) (simp add: out'_def add.commute)
  have nth: "out' ! k = (if k < c then (out ! k)[f := xs ! (f * c + k)] else out ! k)"
    if "k < length out" for k
    using that by (simp add: out'_def demux_row_nth)
  have len: "length out' = length out" by (simp add: out'_def)
  have IH: "length (demux_from c xs (Suc f * c) out') = length out' \<and>
    (\<forall>k < length out'. length (demux_from c xs (Suc f * c) out' ! k) = length (out' ! k) \<and>
      (\<forall>s < length (out' ! k). demux_from c xs (Suc f * c) out' ! k ! s =
         (if k < c \<and> Suc f \<le> s \<and> s < n then xs ! (s * c + k) else out' ! k ! s)))"
    using Suc.hyps(2) \<open>f < n\<close> Suc.prems len nth by (intro Suc.hyps(1)) auto
  show ?case
    unfolding step using IH len nth \<open>f < n\<close> Suc.prems(5)
    by (auto simp: nth_list_update not_less_eq_eq dest: le_antisym)
qed

lemma short_buffer_None: "short_buffer ch n bs = None \<longleftrightarrow> (\<forall>b \<in> set bs. n \<le> length b)"
  by (induction ch n bs rule: short_buffer.induct) auto

lemma length_write_pairs [simp]: "length (write_pairs l r is out) = length out"
  by (induction l r "is" out rule: write_pairs.induct) auto

lemma write_pairs_nth:
  assumes "distinct is" and "\<forall>i \<in> set is. i * 2 + 1 < length out" and "j < length out"
  shows "write_pairs l r is out ! j =
    (if j div 2 \<in> set is then (if even j then l (j div 2) else r (j div 2)) else out ! j)"
  using assms
proof (induction l r "is" out rule: write_pairs.induct)
  case (2 l r i "is" out)
  have j: "j = 2 * (j div 2) + (if even j then 0 else 1)" by (simp add: odd_two_times_div_two_succ)
  show ?case
  proof (cases "j div 2 \<in> set is")
    case True
    then show ?thesis using 2 by simp
  next
    case False
    then have "write_pairs l r (i # is) out ! j = out[i * 2 := l i, i * 2 + 1 := r i] ! j"
      using 2 by simp
    then show ?thesis using 2 False j by (auto simp: nth_list_update)
  qed
qed simp

section \<open>Properties\<close>

text \<open>The interleaving of equally long buffers, the inverse the demultiplexer must have.\<close>

definition interleave :: "'a list list \<Rightarrow> 'a list" where
  "interleave chans =
     concat (map (\<lambda>s. map (\<lambda>ch. ch ! s) chans) [0..<(case chans of [] \<Rightarrow> 0 | c # _ \<Rightarrow> length c)])"

lemma length_concat_const: "\<forall>x \<in> set xs. length x = c \<Longrightarrow> length (concat xs) = length xs * c"
  by (induction xs) auto

lemma nth_concat_const:
  "\<forall>x \<in> set xs. length x = c \<Longrightarrow> i < length xs \<Longrightarrow> j < c \<Longrightarrow> concat xs ! (i * c + j) = xs ! i ! j"
proof (induction xs arbitrary: i)
  case (Cons x xs)
  then show ?case by (cases i) (auto simp: nth_append)
qed simp

lemma Demux_Inr:
  assumes "0 < channels lay" and "length xs = n * channels lay"
  obtains out where "Demux lay xs = Inr out" "length out = channels lay"
    "\<And>k. k < channels lay \<Longrightarrow> length (out ! k) = n"
    "\<And>k s. k < channels lay \<Longrightarrow> s < n \<Longrightarrow> out ! k ! s = xs ! (s * channels lay + k)"
proof -
  define c where "c = channels lay"
  define z where "z = replicate c (replicate n (Fin 0))"
  have "length xs div c = n" "length xs mod c = 0" using assms by (simp_all add: c_def)
  then have D: "Demux lay xs = Inr (demux_from c xs (0 * c) z)"
    using assms(1) by (simp add: Demux_def Let_def c_def [symmetric] z_def)
  have "length (demux_from c xs (0 * c) z) = length z \<and>
    (\<forall>k < length z. length (demux_from c xs (0 * c) z ! k) = length (z ! k) \<and>
      (\<forall>s < length (z ! k). demux_from c xs (0 * c) z ! k ! s =
         (if k < c \<and> 0 \<le> s \<and> s < n then xs ! (s * c + k) else z ! k ! s)))"
    by (rule demux_from_nth) (use assms in \<open>simp_all add: c_def z_def\<close>)
  then show ?thesis by (intro that [OF D]) (auto simp: z_def c_def)
qed

text \<open>
  C28: for every layout with at least one channel and every input whose length is a multiple of the
  channel count, \<^verbatim>\<open>Demux\<close> returns one buffer per channel, all of the same length, and interleaving
  the buffers again gives exactly the input: no sample is lost, duplicated or moved to another channel.
\<close>

theorem demux_interleave:
  assumes "0 < channels lay" and "length xs mod channels lay = 0"
  shows "\<exists>out. Demux lay xs = Inr out \<and> length out = channels lay \<and>
    (\<forall>b \<in> set out. length b = length xs div channels lay) \<and> interleave out = xs"
proof -
  define c n where "c = channels lay" and "n = length xs div channels lay"
  have l: "length xs = n * channels lay" using assms(2) by (simp add: n_def mod_eq_0_iff_dvd)
  obtain out where o: "Demux lay xs = Inr out" "length out = c"
    "\<And>k. k < c \<Longrightarrow> length (out ! k) = n" "\<And>k s. k < c \<Longrightarrow> s < n \<Longrightarrow> out ! k ! s = xs ! (s * c + k)"
    using Demux_Inr [OF assms(1) l] unfolding c_def by blast
  have "out \<noteq> []" using o(2) assms(1) by (auto simp: c_def)
  then have i: "interleave out = concat (map (\<lambda>s. map (\<lambda>ch. ch ! s) out) [0..<n])"
    using o(3) [of 0] assms(1) by (cases out) (auto simp: interleave_def c_def)
  have "interleave out = xs"
  proof (rule nth_equalityI)
    show len: "length (interleave out) = length xs"
      unfolding i using o(2) l by (subst length_concat_const [where c = c]) (auto simp: c_def)
    fix j assume j: "j < length (interleave out)"
    define s k where "s = j div c" and "k = j mod c"
    have c0: "0 < c" using assms(1) by (simp add: c_def)
    have jk: "j = s * c + k" and k: "k < c" using c0 by (simp_all add: s_def k_def)
    have s: "s < n" using j len l c0 by (simp add: s_def c_def less_mult_imp_div_less)
    have "interleave out ! (s * c + k) = out ! k ! s"
      unfolding i using s k o(2) by (subst nth_concat_const) auto
    then show "interleave out ! j = xs ! j" using o(4) k s by (simp add: jk)
  qed
  moreover have "\<forall>b \<in> set out. length b = n" using o(2,3) by (auto simp: in_set_conv_nth)
  ultimately show ?thesis using o by (auto simp: c_def n_def)
qed

theorem demux_interleave_witness:
  "\<exists>out. Demux Layout51 (map (Fin \<circ> of_int) [1..12]) = Inr out \<and> length out = channels Layout51 \<and>
    (\<forall>b \<in> set out. length b = length (map (Fin \<circ> of_int) [1..12]) div channels Layout51) \<and>
    interleave out = map (Fin \<circ> of_int) [1..12]"
  by (rule demux_interleave) (simp_all add: Layout51_def)




text \<open>Writing all pairs of a buffer of the exact size determines every sample of it.\<close>

lemma write_pairs_all:
  assumes "length out = n * 2" and "j < n * 2"
  shows "write_pairs l r [0..<n] out ! j = (if even j then l (j div 2) else r (j div 2))"
proof -
  have "j div 2 < n" using assms(2) by auto
  moreover have "\<forall>i \<in> set [0..<n]. i * 2 + 1 < length out" using assms(1) by auto
  ultimately show ?thesis using assms by (subst write_pairs_nth) auto
qed

text \<open>
  On stereo input, splitting into channels and mixing down again is the identity, whatever the
  samples (NaN and infinities included) and whatever the output buffer held.
\<close>

theorem stereo_downmix_demux:
  assumes "length xs = n * 2" and "length out = n * 2"
  shows "\<exists>chans. Demux LayoutStereo xs = Inr chans \<and> DownmixToStereoInto chans LayoutStereo out = Inr xs"
proof -
  have two: "channels LayoutStereo = 2" by (simp add: LayoutStereo_def)
  obtain chans where c: "Demux LayoutStereo xs = Inr chans" "length chans = 2"
    "\<And>k. k < 2 \<Longrightarrow> length (chans ! k) = n" "\<And>k s. k < 2 \<Longrightarrow> s < n \<Longrightarrow> chans ! k ! s = xs ! (s * 2 + k)"
    using Demux_Inr [of LayoutStereo xs n] assms(1) unfolding two by auto
  let ?w = "write_pairs (\<lambda>i. chans ! 0 ! i) (\<lambda>i. chans ! 1 ! i) [0..<n] out"
  have "?w = xs"
  proof (rule nth_equalityI)
    show "length ?w = length xs" using assms by simp
    fix j assume "j < length ?w"
    then have j: "j < n * 2" using assms(2) by simp
    have "xs ! j = chans ! (j mod 2) ! (j div 2)" using j c(4) [of "j mod 2" "j div 2"] by simp
    then show "?w ! j = xs ! j"
      using j assms(2) by (auto simp: write_pairs_all even_iff_mod_2_eq_zero odd_iff_mod_2_eq_one)
  qed
  then have "DownmixToStereoInto chans LayoutStereo out = Inr xs"
    using c(2,3) two assms(2) by (simp add: DownmixToStereoInto_def)
  then show ?thesis using c(1) by blast
qed

theorem stereo_downmix_demux_witness:
  "\<exists>chans. Demux LayoutStereo [Fin 1, NaN, PosInf, Fin 2] = Inr chans \<and>
     DownmixToStereoInto chans LayoutStereo (replicate 4 (Fin 0)) = Inr [Fin 1, NaN, PosInf, Fin 2]"
  by (rule stereo_downmix_demux [where n = 2]) simp_all

text \<open>
  For a well-formed set of six or eight buffers the downmix writes, for every frame, the left value
  from channels 0, 2, 4 and the right one from 1, 2, 5, and nothing else. The LFE channel never counts;
  with eight channels 4 and 5 are the back speakers, and 6 and 7, the side surrounds, are lost:
  any other content of channels 3, 6 and 7 gives the same output.
\<close>

theorem downmix_ignores_channels:
  assumes "lay = Layout51 \<or> lay = Layout71"
    and "length chans = channels lay" and "length chans' = channels lay"
    and "\<forall>ch < channels lay. length (chans ! ch) = n \<and> length (chans' ! ch) = n"
    and "\<forall>ch \<in> {0, 1, 2, 4, 5}. chans ! ch = chans' ! ch"
    and "length out = n * 2"
  shows "DownmixToStereoInto chans lay out = DownmixToStereoInto chans' lay out \<and>
    (\<exists>res. DownmixToStereoInto chans lay out = Inr res \<and> length res = n * 2 \<and>
      (\<forall>i < n. res ! (2 * i) = stereo_left lay chans i \<and> res ! (2 * i + 1) = stereo_right lay chans i))"
proof -
  have c: "channels lay = 6 \<or> channels lay = 8" using assms(1) by (auto simp: layout_defs)
  have used: "used_channels (channels lay) = [0, 1, 2, 4, 5]" using c by (auto simp: used_channels_def)
  have D: "DownmixToStereoInto cs lay out =
      Inr (write_pairs (stereo_left lay cs) (stereo_right lay cs) [0..<n] out)"
    if "length cs = channels lay" "\<forall>ch < channels lay. length (cs ! ch) = n" for cs
    using that c assms(6) by (auto simp: DownmixToStereoInto_def used Let_def)
  have "stereo_left lay chans = stereo_left lay chans'" "stereo_right lay chans = stereo_right lay chans'"
    using assms(5) by (auto simp: stereo_left_def stereo_right_def fun_eq_iff)
  moreover have "write_pairs l r [0..<n] out ! (2 * i) = l i \<and>
      write_pairs l r [0..<n] out ! (2 * i + 1) = r i" if "i < n" for i l and r :: "nat \<Rightarrow> fl"
    using that assms(6) by (simp add: write_pairs_all)
  ultimately show ?thesis using D [of chans] D [of chans'] assms by auto
qed

theorem downmix_ignores_channels_witness:
  "let chans = [[Fin 1], [Fin 2], [Fin 3], [Fin 4], [Fin 5], [Fin 6], [Fin 7], [Fin 8]];
       chans' = chans[3 := [NaN], 6 := [NaN], 7 := [PosInf]]
   in DownmixToStereoInto chans Layout71 [Fin 0, Fin 0] = DownmixToStereoInto chans' Layout71 [Fin 0, Fin 0] \<and>
    (\<exists>res. DownmixToStereoInto chans Layout71 [Fin 0, Fin 0] = Inr res \<and> length res = 1 * 2 \<and>
      (\<forall>i < 1. res ! (2 * i) = stereo_left Layout71 chans i \<and>
        res ! (2 * i + 1) = stereo_right Layout71 chans i))"
  unfolding Let_def
  by (rule downmix_ignores_channels)
     (simp_all add: Layout71_def numeral_eq_Suc less_Suc_eq all_conj_distrib)

end
