(* ===== verification/Pipeline.thy ===== *)
theory Pipeline
  imports Capture Surround Stream Clock
begin

text \<open>
  The audio path of the server (\<^verbatim>\<open>cmd/soundswarm-server/main.go\<close>): the demultiplexer and the encoders that
  \<^verbatim>\<open>main\<close> builds for the captured format, and \<^verbatim>\<open>runAudioPipeline\<close>, which reads a frame, stamps it, splits and
  encodes it and hands it to the stream manager. The readings of the clock and the results of the capture's
  \<^verbatim>\<open>Read\<close> are inputs.
\<close>

section \<open>Setting up\<close>

datatype setup_error = UnsupportedLayout surround_error | EncoderFailed codec_error

record audio_path =
  apFormat :: audio_format
  apDemuxer :: "layout option"
  apEncoders :: "encoder list"

fun new_encoders :: "encoder_config \<Rightarrow> nat \<Rightarrow> codec_error + encoder list" where
  "new_encoders cfg 0 = Inr []"
| "new_encoders cfg (Suc n) =
     (case NewEncoder cfg of
        Inl e \<Rightarrow> Inl e
      | Inr enc \<Rightarrow> (case new_encoders cfg n of Inl e \<Rightarrow> Inl e | Inr encs \<Rightarrow> Inr (enc # encs)))"

definition setup_audio :: "audio_format \<Rightarrow> setup_error + audio_path" where
  "setup_audio format =
     (case LayoutForChannels (int (afChannels format)) of
        Inl e \<Rightarrow> Inl (UnsupportedLayout e)
      | Inr lay \<Rightarrow>
          let demuxer = (if 2 < afChannels format then Some lay else None);
              encConfig = DefaultEncoderConfig\<lparr>cfgSampleRate := int (afSampleRate format)\<rparr>
          in case (if demuxer \<noteq> None
                   then new_encoders (encConfig\<lparr>cfgChannels := 1\<rparr>) (afChannels format)
                   else new_encoders (encConfig\<lparr>cfgChannels := int (afChannels format)\<rparr>) 1) of
               Inl e \<Rightarrow> Inl (EncoderFailed e)
             | Inr encs \<Rightarrow> Inr \<lparr>apFormat = format, apDemuxer = demuxer, apEncoders = encs\<rparr>)"

section \<open>The state of the loop\<close>

record pipeline =
  plStart :: i64
  plTotal :: i64
  plDemux :: "fl list list"
  plStereo :: "fl list"

text \<open>\<^verbatim>\<open>encoders[0]\<close> panics without an encoder. The last component is the length of \<^verbatim>\<open>interleavedBuf\<close>.\<close>

definition start_pipeline :: "audio_path \<Rightarrow> i64 \<Rightarrow> (pipeline \<times> nat) option" where
  "start_pipeline ap now =
     (case apEncoders ap of
        [] \<Rightarrow> None
      | enc # _ \<Rightarrow>
          let frames = nat (Encoder_FrameSamples enc);
              surround = (apDemuxer ap \<noteq> None)
          in Some (\<lparr>plStart = now, plTotal = 0,
                plDemux = (if surround then replicate (afChannels (apFormat ap)) (replicate frames (Fin 0)) else []),
                plStereo = (if surround then replicate (frames * 2) (Fin 0) else [])\<rparr>,
              frames * afChannels (apFormat ap)))"

section \<open>Timestamps\<close>

definition capture_ts :: "nat \<Rightarrow> pipeline \<Rightarrow> i64" where
  "capture_ts rate p = plStart p + word_of_int (go_quot (sint (plTotal p * 1000000)) (int rate))"

text \<open>The timestamp of the frame just read, and the correction for the next ones.\<close>

definition soft_sync :: "nat \<Rightarrow> i64 \<Rightarrow> pipeline \<Rightarrow> i64 \<times> pipeline" where
  "soft_sync rate now p =
     (let captureTs = capture_ts rate p;
          delta = now - captureTs
      in if 100000 < sint delta \<or> sint delta < - 100000
         then (captureTs + delta, p\<lparr>plStart := plStart p + delta\<rparr>)
         else if 5000 < sint delta then (captureTs, p\<lparr>plStart := plStart p + 20\<rparr>)
         else if sint delta < - 5000 then (captureTs, p\<lparr>plStart := plStart p - 20\<rparr>)
         else (captureTs, p))"

definition stamp :: "audio_format \<Rightarrow> nat \<Rightarrow> i64 \<Rightarrow> pipeline \<Rightarrow> i64 \<times> pipeline" where
  "stamp format n now p =
     (let (ts, p) = soft_sync (afSampleRate format) now p
      in (ts, p\<lparr>plTotal := plTotal p + word_of_nat (n div afChannels format)\<rparr>))"

section \<open>One round of the loop\<close>

text \<open>What \<^verbatim>\<open>Read\<close> returns: an error, or the number of samples, with the buffer as it is then.\<close>

datatype cap_read = CapError | CapRead nat "fl list"

datatype pipeline_log = ReadFailed | NothingRead | DemuxFailed surround_error | EncodeFailed nat codec_error

text \<open>
  The loop over the channels: an encoder that fails is logged and skipped. \<open>choice i\<close> is the buffer the
  stream manager's pool gives for the channel; \<open>None\<close> is a panic.
\<close>

fun send_channels ::
  "(fl \<Rightarrow> int) \<Rightarrow> (nat \<Rightarrow> nat option) \<Rightarrow> encoder list \<Rightarrow> layout \<Rightarrow> i64 \<Rightarrow> nat \<Rightarrow> fl list list \<Rightarrow> stream_mgr \<Rightarrow>
   (pipeline_log list \<times> stream_mgr) option" where
  "send_channels unrep choice encs lay ts i [] m = Some ([], m)"
| "send_channels unrep choice encs lay ts i (buf # bufs) m =
     (if length encs \<le> i then None
      else case Encode unrep (encs ! i) buf of
        Inl e \<Rightarrow>
          if e = PanicSliceBounds then None
          else map_option (\<lambda>(logs, m). (EncodeFailed i e # logs, m))
            (send_channels unrep choice encs lay ts (i + 1) bufs m)
      | Inr encoded \<Rightarrow>
          if length (mapping lay) \<le> i then None
          else case SendAudio (choice i) encoded (mapping lay ! i) ts CodecPCM m of
            None \<Rightarrow> None
          | Some m \<Rightarrow> send_channels unrep choice encs lay ts (i + 1) bufs m)"

text \<open>The stereo downmix is computed and dropped; only a panic in it would show.\<close>

definition downmix_unused :: "layout \<Rightarrow> pipeline \<Rightarrow> pipeline option" where
  "downmix_unused lay p =
     (case DownmixToStereoInto (plDemux p) lay (plStereo p) of
        Inr out \<Rightarrow> Some (p\<lparr>plStereo := out\<rparr>)
      | Inl e \<Rightarrow> if e = PanicIndex then None else Some p)"

definition surround_frame ::
  "(fl \<Rightarrow> int) \<Rightarrow> (nat \<Rightarrow> nat option) \<Rightarrow> encoder list \<Rightarrow> layout \<Rightarrow> i64 \<Rightarrow> fl list \<Rightarrow> pipeline \<Rightarrow> stream_mgr \<Rightarrow>
   (pipeline_log list \<times> pipeline \<times> stream_mgr) option" where
  "surround_frame unrep choice encs lay ts buf p m =
     (case DemuxInto lay buf (plDemux p) of
        Inl e \<Rightarrow> if e = PanicDivide then None else Some ([DemuxFailed e], p, m)
      | Inr bufs \<Rightarrow>
          let p = p\<lparr>plDemux := bufs\<rparr>
          in case send_channels unrep choice encs lay ts 0 bufs m of
               None \<Rightarrow> None
             | Some (logs, m) \<Rightarrow> map_option (\<lambda>p. (logs, p, m)) (downmix_unused lay p))"

definition stereo_frame ::
  "(fl \<Rightarrow> int) \<Rightarrow> (nat \<Rightarrow> nat option) \<Rightarrow> encoder list \<Rightarrow> i64 \<Rightarrow> fl list \<Rightarrow> pipeline \<Rightarrow> stream_mgr \<Rightarrow>
   (pipeline_log list \<times> pipeline \<times> stream_mgr) option" where
  "stereo_frame unrep choice encs ts buf p m =
     (case encs of
        [] \<Rightarrow> None
      | enc # _ \<Rightarrow>
          (case Encode unrep enc buf of
             Inl e \<Rightarrow> if e = PanicSliceBounds then None else Some ([EncodeFailed 0 e], p, m)
           | Inr encoded \<Rightarrow>
               map_option (\<lambda>m. ([], p, m)) (SendAudio (choice 0) encoded ChannelStereoMix ts CodecPCM m)))"

definition pipeline_round ::
  "(fl \<Rightarrow> int) \<Rightarrow> (nat \<Rightarrow> nat option) \<Rightarrow> audio_path \<Rightarrow> cap_read \<Rightarrow> i64 \<Rightarrow> pipeline \<Rightarrow> stream_mgr \<Rightarrow>
   (pipeline_log list \<times> pipeline \<times> stream_mgr) option" where
  "pipeline_round unrep choice ap rd now p m =
     (case rd of
        CapError \<Rightarrow> Some ([ReadFailed], p, m)
      | CapRead n buf \<Rightarrow>
          if n = 0 then Some ([NothingRead], p, m)
          else if afSampleRate (apFormat ap) = 0 \<or> afChannels (apFormat ap) = 0 then None
          else
            let (ts, p) = stamp (apFormat ap) n now p
            in case apDemuxer ap of
                 Some lay \<Rightarrow> surround_frame unrep choice (apEncoders ap) lay ts buf p m
               | None \<Rightarrow> stereo_frame unrep choice (apEncoders ap) ts buf p m)"

section \<open>Timestamps as integers\<close>

text \<open>The correction of the anchor for a difference within 100 ms.\<close>

definition slew :: "int \<Rightarrow> int" where
  "slew d = (if 5000 < d then 20 else if d < - 5000 then - 20 else 0)"

text \<open>The clock of the samples: after \<open>k\<close> frames of 10 ms it shows the anchor plus \<open>10000 k\<close> microseconds.\<close>

lemma capture_ts_frames:
  assumes "plTotal p = word_of_int (480 * int k)" and "k < 10 ^ 10"
  shows "capture_ts 48000 p = plStart p + word_of_int (10000 * int k)"
proof -
  have "plTotal p * 1000000 = word_of_int (480 * int k * 1000000)"
    by (simp add: assms(1))
  moreover have "sint (word_of_int (480 * int k * 1000000) :: i64) = 480000000 * int k"
    using assms(2) by (subst sint_of_int_id) auto
  moreover have "go_quot (480000000 * int k) 48000 = 10000 * int k"
    by (cases "k = 0") (simp_all add: go_quot_def sgn_mult abs_mult)
  ultimately show ?thesis by (simp add: capture_ts_def)
qed

lemma stamp_int:
  assumes "afSampleRate fmt = 48000" and "0 < afChannels fmt" and "n = 480 * afChannels fmt"
    and "plStart p = word_of_int s" and "plTotal p = word_of_int (480 * int k)" and "k < 10 ^ 10"
    and d: "d = t - s - 10000 * int k" and "\<bar>d\<bar> < 2 ^ 62"
  shows "stamp fmt n (word_of_int t) p =
    (if 100000 < \<bar>d\<bar>
     then (word_of_int t, p\<lparr>plStart := word_of_int (s + d), plTotal := word_of_int (480 * int (k + 1))\<rparr>)
     else (word_of_int (s + 10000 * int k),
       p\<lparr>plStart := word_of_int (s + slew d), plTotal := word_of_int (480 * int (k + 1))\<rparr>))"
proof -
  have ts: "capture_ts 48000 p = word_of_int (s + 10000 * int k)"
    using capture_ts_frames [OF assms(5,6)] assms(4) by simp
  have delta: "word_of_int t - word_of_int (s + 10000 * int k) = (word_of_int d :: i64)"
    by (simp only: d diff_diff_eq flip: of_int_diff)
  have sd: "sint (word_of_int d :: i64) = d" using assms(8) by (intro sint_of_int_id) auto
  have total: "plTotal p + word_of_nat (n div afChannels fmt) = word_of_int (480 * int (k + 1))"
    using assms(2,3,5) by simp
  have snap: "word_of_int (s + 10000 * int k) + word_of_int d = (word_of_int t :: i64)"
    by (simp only: d flip: of_int_add) simp
  have slew: "word_of_int (s + 20) = plStart p + 20" "word_of_int (s - 20) = plStart p - 20"
    "word_of_int (s + d) = plStart p + word_of_int d"
    by (simp_all add: assms(4))
  show ?thesis
    unfolding stamp_def soft_sync_def Let_def assms(1) ts delta sd snap
    by (auto simp: total slew slew_def assms(4) abs_if simp del: of_int_add)
qed

text \<open>The frames of a run: the time of the \<open>k\<close>-th reading is \<open>now k\<close>.\<close>

fun clock_state :: "audio_format \<Rightarrow> nat \<Rightarrow> (nat \<Rightarrow> i64) \<Rightarrow> pipeline \<Rightarrow> nat \<Rightarrow> pipeline" where
  "clock_state fmt n now p 0 = p"
| "clock_state fmt n now p (Suc k) = snd (stamp fmt n (now k) (clock_state fmt n now p k))"

definition frame_ts :: "audio_format \<Rightarrow> nat \<Rightarrow> (nat \<Rightarrow> i64) \<Rightarrow> pipeline \<Rightarrow> nat \<Rightarrow> i64" where
  "frame_ts fmt n now p k = fst (stamp fmt n (now k) (clock_state fmt n now p k))"

text \<open>One correction: the deviation \<open>x\<close> moves by the drift \<open>d\<close>, and the correction sees it with jitter \<open>j\<close>.\<close>

lemma slew_contracts:
  assumes "\<bar>x\<bar> \<le> max a (5020 + jmax)" and "\<bar>j\<bar> \<le> jmax" and "\<bar>d\<bar> \<le> r" and "r \<le> 20"
  shows "\<bar>x + d - slew (x + j)\<bar> \<le> max (a - (20 - r)) (5020 + jmax)"
proof -
  consider "5000 + jmax < x" | "x < - (5000 + jmax)" | "\<bar>x\<bar> \<le> 5000 + jmax" by linarith
  then show ?thesis
  proof cases
    case 1
    then have "5000 < x + j" using assms(2) by linarith
    then have "slew (x + j) = 20" by (simp add: slew_def)
    then show ?thesis using 1 assms by linarith
  next
    case 2
    then have "x + j < - 5000" using assms(2) by linarith
    then have "slew (x + j) = - 20" by (simp add: slew_def)
    then show ?thesis using 2 assms by linarith
  next
    case 3
    have "\<bar>x + d - slew (x + j)\<bar> \<le> 5020 + jmax"
    proof (cases "\<bar>x + j\<bar> \<le> 5000")
      case True
      then have "\<not> 5000 < x + j" "\<not> x + j < - 5000" by linarith+
      then have "slew (x + j) = 0" by (simp add: slew_def)
      then show ?thesis using 3 assms(3,4) by linarith
    next
      case False
      then consider "slew (x + j) = 20" "5000 < x + j" | "slew (x + j) = - 20" "x + j < - 5000"
        by (auto simp: slew_def abs_if split: if_splits)
      then show ?thesis using 3 assms(2-4) by cases linarith+
    qed
    then show ?thesis by simp
  qed
qed

section \<open>Properties of the timestamps\<close>

text \<open>
  No frame is stamped more than 100 ms away from the clock, whatever the capture, the clock and the
  number of samples read so far: a larger difference, in either direction, is jumped over at once.
\<close>

theorem timestamp_near_now: "\<bar>sint (now - fst (stamp fmt n now p))\<bar> \<le> 100000"
proof -
  define d where "d = sint (now - capture_ts (afSampleRate fmt) p)"
  have "\<bar>sint (now - fst (stamp fmt n now p))\<bar> = (if 100000 < d \<or> d < - 100000 then 0 else \<bar>d\<bar>)"
    by (simp add: stamp_def soft_sync_def Let_def d_def)
  then show ?thesis by auto
qed

lemma clock_state_run:
  assumes "afSampleRate fmt = 48000" and "0 < afChannels fmt" and "n = 480 * afChannels fmt"
    and "plStart p = word_of_int s" and "plTotal p = 0"
    and now: "\<forall>k < 10 ^ 10. now k = word_of_int (s + 10000 * int k + drift k + jitter k)"
    and "\<bar>drift 0\<bar> \<le> dmax" and "\<forall>k. \<bar>drift (Suc k) - drift k\<bar> \<le> r" and "r \<le> 20"
    and "\<forall>k. \<bar>jitter k\<bar> \<le> jmax" and "dmax + jmax \<le> 100000" and "5020 + 2 * jmax \<le> 100000"
    and "k < 10 ^ 10"
  shows "\<exists>a. plStart (clock_state fmt n now p k) = word_of_int a \<and>
    plTotal (clock_state fmt n now p k) = word_of_int (480 * int k) \<and>
    \<bar>s + drift k - a\<bar> \<le> max (dmax - (20 - r) * int k) (5020 + jmax) \<and>
    stamp fmt n (now k) (clock_state fmt n now p k) =
      (word_of_int (a + 10000 * int k), (clock_state fmt n now p k)\<lparr>plStart := word_of_int (a + slew (s + drift k - a + jitter k)),
        plTotal := word_of_int (480 * int (k + 1))\<rparr>)"
  using assms(13)
proof (induction k)
  case 0
  have "\<bar>drift 0 + jitter 0\<bar> \<le> 100000"
    using assms(7,11) assms(10)[rule_format, of 0] by linarith
  then show ?case
    using stamp_int [OF assms(1-4), of 0 "drift 0 + jitter 0" "s + drift 0 + jitter 0"] now assms(4,5,7)
    by (intro exI [of _ s]) auto
next
  case (Suc k)
  let ?st = "clock_state fmt n now p"
  obtain a where a: "plStart (?st k) = word_of_int a" "\<bar>s + drift k - a\<bar> \<le> max (dmax - (20 - r) * int k) (5020 + jmax)"
    "stamp fmt n (now k) (?st k) = (word_of_int (a + 10000 * int k),
      (?st k)\<lparr>plStart := word_of_int (a + slew (s + drift k - a + jitter k)), plTotal := word_of_int (480 * int (k + 1))\<rparr>)"
    using Suc by auto
  define b where "b = a + slew (s + drift k - a + jitter k)"
  have st: "plStart (?st (Suc k)) = word_of_int b" "plTotal (?st (Suc k)) = word_of_int (480 * int (Suc k))"
    by (simp_all add: a(3) b_def)
  have "\<bar>s + drift (Suc k) - b\<bar> \<le> max (dmax - (20 - r) * int k - (20 - r)) (5020 + jmax)"
    using slew_contracts [OF a(2) assms(10)[rule_format, of k] assms(8)[rule_format, of k] assms(9)]
    by (simp add: b_def algebra_simps)
  then have bound: "\<bar>s + drift (Suc k) - b\<bar> \<le> max (dmax - (20 - r) * int (Suc k)) (5020 + jmax)"
    by (simp add: algebra_simps)
  have "(20 - r) * int (Suc k) \<ge> 0" using assms(9) by simp
  then have "\<bar>s + drift (Suc k) - b + jitter (Suc k)\<bar> \<le> 100000"
    using bound assms(11,12) assms(10)[rule_format, of "Suc k"] by linarith
  moreover have "now (Suc k) = word_of_int (s + 10000 * int (Suc k) + drift (Suc k) + jitter (Suc k))"
    using now Suc.prems by blast
  ultimately have "stamp fmt n (now (Suc k)) (?st (Suc k)) =
      (word_of_int (b + 10000 * int (Suc k)),
       (?st (Suc k))\<lparr>plStart := word_of_int (b + slew (s + drift (Suc k) - b + jitter (Suc k))),
         plTotal := word_of_int (480 * int (Suc k + 1))\<rparr>)"
    using stamp_int [OF assms(1-3) st Suc.prems(1), of "s + drift (Suc k) - b + jitter (Suc k)"
        "s + 10000 * int (Suc k) + drift (Suc k) + jitter (Suc k)"] by simp
  then show ?case using st bound by blast
qed

text \<open>
  C7: the timestamps of a steady source. Let the \<open>k\<close>-th frame of 10 ms be read at the true end of the frame
  plus a drift, which changes by at most \<open>r \<le> 20\<close> microseconds per frame, plus a scheduling delay or jitter
  within \<open>jmax\<close>, up to 47 ms. Then the timestamps never jump: each is 10000 microseconds after the previous
  one, give or take 20; and their distance from the clock shrinks by \<open>20 - r\<close> per frame until it is at most
  5.02 ms plus twice the jitter, where it stays. The three years of frames bound the product by a million,
  which wraps after that.
\<close>

theorem soft_sync_tracks:
  assumes "afSampleRate fmt = 48000" and "0 < afChannels fmt" and "n = 480 * afChannels fmt"
    and "plStart p = word_of_int s" and "plTotal p = 0"
    and "\<forall>k < 10 ^ 10. now k = word_of_int (s + 10000 * int k + drift k + jitter k)"
    and "\<bar>drift 0\<bar> \<le> dmax" and "\<forall>k. \<bar>drift (Suc k) - drift k\<bar> \<le> r" and "r \<le> 20"
    and "\<forall>k. \<bar>jitter k\<bar> \<le> jmax" and "dmax + jmax \<le> 100000" and "5020 + 2 * jmax \<le> 100000"
    and "Suc k < 10 ^ 10"
  shows "frame_ts fmt n now p (Suc k) - frame_ts fmt n now p k \<in> {9980, 10000, 10020} \<and>
    \<bar>sint (now k - frame_ts fmt n now p k)\<bar> \<le> max (dmax - (20 - r) * int k) (5020 + jmax) + jmax"
proof -
  let ?st = "clock_state fmt n now p"
  have k: "k < 10 ^ 10" using assms(13) by simp
  obtain a where a: "\<bar>s + drift k - a\<bar> \<le> max (dmax - (20 - r) * int k) (5020 + jmax)"
    "stamp fmt n (now k) (?st k) = (word_of_int (a + 10000 * int k),
      (?st k)\<lparr>plStart := word_of_int (a + slew (s + drift k - a + jitter k)), plTotal := word_of_int (480 * int (k + 1))\<rparr>)"
    using clock_state_run [OF assms(1-12) k] by blast
  obtain b where b: "plStart (?st (Suc k)) = word_of_int b"
    "fst (stamp fmt n (now (Suc k)) (?st (Suc k))) = word_of_int (b + 10000 * int (Suc k))"
    using clock_state_run [OF assms(1-13)] by (metis fst_conv)
  define d where "d = slew (s + drift k - a + jitter k)"
  have wb: "(word_of_int b :: i64) = word_of_int (a + d)" using b(1) by (simp add: a(2) d_def)
  have "frame_ts fmt n now p (Suc k) - frame_ts fmt n now p k = word_of_int (10000 + d)"
    unfolding frame_ts_def a(2) b(2) fst_conv of_int_add [of b] wb by simp
  moreover have "d \<in> {- 20, 0, 20}" by (simp add: d_def slew_def)
  moreover have "now k - frame_ts fmt n now p k = word_of_int (s + drift k - a + jitter k)"
    unfolding frame_ts_def a(2) fst_conv using assms(6) k by simp
  moreover have j: "\<bar>s + drift k - a + jitter k\<bar> \<le> max (dmax - (20 - r) * int k) (5020 + jmax) + jmax"
    using a(1) assms(10)[rule_format, of k] by linarith
  moreover have "0 \<le> (20 - r) * int k" using assms(9) by simp
  then have "\<bar>s + drift k - a + jitter k\<bar> \<le> 200000" using j assms(11,12) by linarith
  then have "sint (word_of_int (s + drift k - a + jitter k) :: i64) = s + drift k - a + jitter k"
    by (intro sint_of_int_id) auto
  ultimately show ?thesis by auto
qed

text \<open>
  A stereo source whose first frame is read 10 ms after the anchor, running 5 microseconds per frame slow,
  with every other frame read 3 ms late.
\<close>

definition wit_audio :: audio_format where
  "wit_audio = \<lparr>afSampleRate = 48000, afChannels = 2, afBitDepth = 32\<rparr>"

definition wit_now :: "nat \<Rightarrow> i64" where
  "wit_now k = word_of_int (7 + 10000 * int k + (10000 + 5 * int k) + (if even k then 0 else 3000))"

theorem soft_sync_tracks_witness:
  "frame_ts wit_audio 960 wit_now \<lparr>plStart = 7, plTotal = 0, plDemux = [], plStereo = []\<rparr> (Suc 400) -
     frame_ts wit_audio 960 wit_now \<lparr>plStart = 7, plTotal = 0, plDemux = [], plStereo = []\<rparr> 400 \<in> {9980, 10000, 10020} \<and>
   \<bar>sint (wit_now 400 - frame_ts wit_audio 960 wit_now \<lparr>plStart = 7, plTotal = 0, plDemux = [], plStereo = []\<rparr> 400)\<bar> \<le> 11020"
  using soft_sync_tracks [of wit_audio 960 "\<lparr>plStart = 7, plTotal = 0, plDemux = [], plStereo = []\<rparr>" 7 wit_now
      "\<lambda>k. 10000 + 5 * int k" "\<lambda>k. if even k then 0 else 3000" 10000 5 3000 400]
  by (simp add: wit_audio_def wit_now_def)

text \<open>
  A source that is read twice as fast as it plays, as the test tone is: \<^verbatim>\<open>Read\<close> sleeps 5 ms and fills
  a frame of 10 ms. The timestamps run ahead of the clock until the difference passes 100 ms; the 23rd
  frame is then stamped 94.6 ms before the 22nd, and the same begins again from there.
\<close>

theorem fast_source_jumps_back:
  assumes "afSampleRate fmt = 48000" and "0 < afChannels fmt" and "n = 480 * afChannels fmt"
    and "plTotal p = 0" and "now = (\<lambda>k. plStart p + word_of_nat (5000 * (k + 1)))"
  shows "frame_ts fmt n now p 21 = plStart p + 209640 \<and> frame_ts fmt n now p 22 = plStart p + 115000 \<and>
    frame_ts fmt n now p 22 = now 22"
proof -
  let ?st = "clock_state fmt n now p"
  obtain s where s: "plStart p = word_of_int s" by (metis word_of_int_uint)
  have now: "now k = word_of_int (s + 5000 * (int k + 1))" for k
    by (simp add: assms(5) s algebra_simps)
  define anchor where "anchor k = s - 20 * max 0 (int k - 3)" for k
  have step: "stamp fmt n (now k) (?st k) =
      (word_of_int (anchor k + 10000 * int k), (?st k)\<lparr>plStart := word_of_int (anchor (Suc k)),
        plTotal := word_of_int (480 * int (Suc k))\<rparr>)"
    if "k \<le> 21" "plStart (?st k) = word_of_int (anchor k)" "plTotal (?st k) = word_of_int (480 * int k)" for k
  proof -
    define d where "d = s + 5000 * (int k + 1) - anchor k - 10000 * int k"
    have "anchor (Suc k) = anchor k + slew d" "\<bar>d\<bar> \<le> 100000"
      using that(1) by (auto simp: d_def anchor_def slew_def max_def)
    then show ?thesis
      using stamp_int [OF assms(1-3) that(2,3), of d "s + 5000 * (int k + 1)"] that(1)
      by (simp add: d_def now)
  qed
  have run: "plStart (?st k) = word_of_int (anchor k) \<and> plTotal (?st k) = word_of_int (480 * int k)" if "k \<le> 22" for k
    using that
  proof (induction k)
    case (Suc k)
    then show ?case using step [of k] by simp
  qed (simp add: s anchor_def assms(4))
  have "frame_ts fmt n now p 21 = word_of_int (anchor 21 + 210000)"
    using step [of 21] run [of 21] by (simp add: frame_ts_def)
  moreover have "frame_ts fmt n now p 22 = word_of_int (s + 115000)"
    using stamp_int [OF assms(1-3), of "?st 22" "anchor 22" 22 "s + 115000 - anchor 22 - 220000" "s + 115000"]
      run [of 22] now [of 22] by (simp add: frame_ts_def anchor_def)
  ultimately show ?thesis by (simp add: s now anchor_def)
qed

theorem fast_source_jumps_back_witness:
  "\<exists>f. f = frame_ts wit_audio 960 (\<lambda>k. 1000 + word_of_nat (5000 * (k + 1))) \<lparr>plStart = 1000, plTotal = 0, plDemux = [], plStereo = []\<rparr> \<and>
    f 21 = 210640 \<and> f 22 = 116000"
  using fast_source_jumps_back [of wit_audio 960 "\<lparr>plStart = 1000, plTotal = 0, plDemux = [], plStereo = []\<rparr>"
      "\<lambda>k. 1000 + word_of_nat (5000 * (k + 1))"]
  by (simp add: wit_audio_def)

section \<open>Setting up, in full\<close>

definition frame_encoder :: "int \<Rightarrow> encoder" where
  "frame_encoder ch = \<lparr>config = DefaultEncoderConfig\<lparr>cfgChannels := ch\<rparr>, frameSamples = 480\<rparr>"

lemma new_encoders_eq:
  "new_encoders cfg n =
    (case NewEncoder cfg of Inl e \<Rightarrow> if n = 0 then Inr [] else Inl e | Inr enc \<Rightarrow> Inr (replicate n enc))"
  by (induction n) (auto split: sum.split)

lemma NewEncoder_default:
  "ch \<in> {1, 2} \<Longrightarrow> NewEncoder (DefaultEncoderConfig\<lparr>cfgSampleRate := rate, cfgChannels := ch\<rparr>) =
    (if rate = 48000 then Inr (frame_encoder ch) else Inl (ErrSampleRate rate))"
  by (auto simp: NewEncoder_def DefaultEncoderConfig_def SampleRate_def frame_ms_ok_def FrameSamples_def
      go_quot_def frame_encoder_def)

lemma setup_audio_eq:
  "setup_audio fmt =
    (if afChannels fmt \<notin> {2, 6, 8} then Inl (UnsupportedLayout (ErrUnsupported (int (afChannels fmt))))
     else if afSampleRate fmt \<noteq> 48000 then Inl (EncoderFailed (ErrSampleRate (int (afSampleRate fmt))))
     else Inr
       (if afChannels fmt = 2
        then \<lparr>apFormat = fmt, apDemuxer = None, apEncoders = [frame_encoder 2]\<rparr>
        else \<lparr>apFormat = fmt, apDemuxer = Some (if afChannels fmt = 6 then Layout51 else Layout71),
               apEncoders = replicate (afChannels fmt) (frame_encoder 1)\<rparr>))"
proof -
  have "int (afChannels fmt) = 2 \<longleftrightarrow> afChannels fmt = 2" "int (afChannels fmt) = 6 \<longleftrightarrow> afChannels fmt = 6"
    "int (afChannels fmt) = 8 \<longleftrightarrow> afChannels fmt = 8" "int (afSampleRate fmt) = 48000 \<longleftrightarrow> afSampleRate fmt = 48000"
    by linarith+
  then show ?thesis
    by (auto simp: setup_audio_def LayoutForChannels_def Let_def new_encoders_eq NewEncoder_default)
qed

section \<open>Frames\<close>

text \<open>The buffers of a running loop have the sizes \<^verbatim>\<open>main\<close> gave them.\<close>

definition pipe_wf :: "audio_path \<Rightarrow> pipeline \<Rightarrow> bool" where
  "pipe_wf ap p \<longleftrightarrow>
     (apDemuxer ap \<noteq> None \<longrightarrow>
        length (plDemux p) = afChannels (apFormat ap) \<and> (\<forall>b \<in> set (plDemux p). length b = 480) \<and>
        length (plStereo p) = 960)"

definition path_ok :: "audio_path \<Rightarrow> bool" where
  "path_ok ap \<longleftrightarrow> setup_audio (apFormat ap) = Inr ap"

lemma path_ok_cases:
  assumes "path_ok ap"
  obtains "afSampleRate (apFormat ap) = 48000" "afChannels (apFormat ap) = 2" "apDemuxer ap = None"
      "apEncoders ap = [frame_encoder 2]"
    | lay where "afSampleRate (apFormat ap) = 48000" "apDemuxer ap = Some lay" "lay \<in> {Layout51, Layout71}"
      "channels lay = afChannels (apFormat ap)" "length (mapping lay) = channels lay"
      "apEncoders ap = replicate (channels lay) (frame_encoder 1)"
proof (cases "afChannels (apFormat ap) = 2")
  case True
  with assms show ?thesis
    by (intro that(1); cases ap) (auto simp: path_ok_def setup_audio_eq split: if_splits)
next
  case False
  define lay where "lay = (if afChannels (apFormat ap) = 6 then Layout51 else Layout71)"
  have "afSampleRate (apFormat ap) = 48000 \<and> afChannels (apFormat ap) \<in> {6, 8} \<and>
      ap = \<lparr>apFormat = apFormat ap, apDemuxer = Some lay, apEncoders = replicate (afChannels (apFormat ap)) (frame_encoder 1)\<rparr>"
    using assms False by (auto simp: path_ok_def setup_audio_eq lay_def split: if_splits)
  moreover from this have "apDemuxer ap = Some lay" "apEncoders ap = replicate (afChannels (apFormat ap)) (frame_encoder 1)"
    by (metis audio_path.select_convs)+
  ultimately show ?thesis
    by (intro that(2) [of lay]) (auto simp: lay_def layout_defs)
qed

lemma path_ok_setup: "setup_audio fmt = Inr ap \<Longrightarrow> path_ok ap \<and> apFormat ap = fmt"
  by (auto simp: path_ok_def setup_audio_def Let_def split: sum.splits if_splits)

lemma start_pipe_wf:
  assumes "path_ok ap"
  shows "\<exists>p. start_pipeline ap now = Some (p, 480 * afChannels (apFormat ap)) \<and> pipe_wf ap p \<and>
    plStart p = now \<and> plTotal p = 0"
proof -
  obtain ch encs where "apEncoders ap = frame_encoder ch # encs"
    using assms
  proof (rule path_ok_cases)
    fix lay assume "apEncoders ap = replicate (channels lay) (frame_encoder 1)" "lay \<in> {Layout51, Layout71}"
    then show thesis by (cases "channels lay") (auto simp: layout_defs intro: that)
  qed (simp add: that)
  then show ?thesis
    by (simp add: start_pipeline_def Encoder_FrameSamples_def frame_encoder_def pipe_wf_def Let_def)
qed

lemma frame_encoder_ok: "ch \<in> {1, 2} \<Longrightarrow> encoder_ok (frame_encoder ch)"
  by (auto simp: encoder_ok_def frame_encoder_def DefaultEncoderConfig_def frame_ms_ok_def FrameSamples_def
      go_quot_def SampleRate_def)

definition pcm16 :: "(fl \<Rightarrow> int) \<Rightarrow> fl list \<Rightarrow> byte list" where
  "pcm16 unrep xs = concat (map (\<lambda>s. le16 (encode_sample unrep s)) xs)"

lemma length_pcm16 [simp]: "length (pcm16 unrep xs) = 2 * length xs"
  by (simp add: pcm16_def)

lemma Encode_frame:
  "ch \<in> {1, 2} \<Longrightarrow> int (length xs) = 480 * ch \<Longrightarrow> Encode unrep (frame_encoder ch) xs = Inr (pcm16 unrep xs)"
  using Encode_ok [OF frame_encoder_ok, of ch xs unrep]
  by (simp add: pcm16_def frame_encoder_def DefaultEncoderConfig_def)

text \<open>The samples of one speaker.\<close>

definition channel_of :: "nat \<Rightarrow> nat \<Rightarrow> 'a list \<Rightarrow> 'a list" where
  "channel_of c k xs = map (\<lambda>s. xs ! (s * c + k)) [0..<length xs div c]"

lemma DemuxInto_full:
  assumes "0 < channels lay" and "length out = channels lay" and "\<forall>b \<in> set out. length b = n"
    and "length xs = n * channels lay"
  shows "DemuxInto lay xs out = Inr (map (\<lambda>k. channel_of (channels lay) k xs) [0..<channels lay])"
proof -
  let ?c = "channels lay"
  define out' where "out' = demux_from ?c xs (0 * ?c) out"
  have b: "\<forall>k < ?c. n \<le> length (out ! k)" "\<forall>k < ?c. length (out ! k) = n" using assms(2,3) by simp_all
  note d = demux_from_nth [OF assms(1) _ assms(4) le0 b(1), folded out'_def]
  have "out' = map (\<lambda>k. channel_of ?c k xs) [0..<?c]"
  proof (rule nth_equalityI)
    show "length out' = length (map (\<lambda>k. channel_of ?c k xs) [0..<?c])" using d assms(2) by simp
    fix k assume "k < length out'"
    then have k: "k < ?c" using d assms(2) by simp
    then have "out' ! k = channel_of ?c k xs"
      using d assms b(2) by (intro nth_equalityI) (simp_all add: channel_of_def)
    then show "out' ! k = map (\<lambda>k. channel_of ?c k xs) [0..<?c] ! k" using k by simp
  qed
  then show ?thesis
    using assms short_buffer_None [of 0 n out] by (simp add: DemuxInto_def Let_def out'_def)
qed

definition round_frames :: "(fl \<Rightarrow> int) \<Rightarrow> audio_path \<Rightarrow> i64 \<Rightarrow> fl list \<Rightarrow> frame list" where
  "round_frames unrep ap ts buf =
     (case apDemuxer ap of
        None \<Rightarrow> [\<lparr>fData = pcm16 unrep buf, fChannel = ChannelStereoMix, fTimestamp = ts, fCodec = CodecPCM\<rparr>]
      | Some lay \<Rightarrow>
          map (\<lambda>k. \<lparr>fData = pcm16 unrep (channel_of (channels lay) k buf), fChannel = mapping lay ! k,
                fTimestamp = ts, fCodec = CodecPCM\<rparr>) [0..<channels lay])"

text \<open>What the pipeline leaves alone in the stream manager.\<close>

definition undisturbed :: "stream_mgr \<Rightarrow> stream_mgr \<Rightarrow> bool" where
  "undisturbed m m' \<longleftrightarrow> smClients m' = smClients m \<and> in_flight m' = in_flight m \<and>
     smSending m' = smSending m \<and> smStopped m' = smStopped m \<and> smLoopDone m' = smLoopDone m"

lemma undisturbed_trans: "undisturbed m m1 \<Longrightarrow> undisturbed m1 m2 \<Longrightarrow> undisturbed m m2"
  by (simp add: undisturbed_def)

lemma undisturbed_idle: "undisturbed m m' \<Longrightarrow> sm_inv m' \<Longrightarrow> idle m \<Longrightarrow> idle m'"
  by (simp add: undisturbed_def idle_def)

lemma SendAudio_keeps_clients: "SendAudio choice data channel ts codec m = Some m' \<Longrightarrow> smClients m' = smClients m"
  by (auto simp: SendAudio_def pool_get_def pool_put_def Let_def split: option.splits if_splits)

lemma SendAudio_queues:
  assumes "sm_inv m" and "length data \<le> MaxPayloadSize"
  shows "\<exists>m'. SendAudio choice data channel ts codec m = Some m' \<and> sm_inv m' \<and> undisturbed m m' \<and>
    queued m' = queued m @ take (BroadcastCap - length (queued m))
      [\<lparr>fData = data, fChannel = channel, fTimestamp = ts, fCodec = codec\<rparr>]"
  using SendAudio_frames [OF assms(1), where choice = choice and data = data and channel = channel and ts = ts
      and codec = codec] assms(2)
  by (cases "SendAudio choice data channel ts codec m")
     (auto simp: undisturbed_def SendAudio_keeps_clients split: if_splits)

lemma send_channels_ok:
  assumes "sm_inv m" and "i + length bufs = c" and "\<forall>b \<in> set bufs. length b = 480" and "length (mapping lay) = c"
  shows "\<exists>m'. send_channels unrep choice (replicate c (frame_encoder 1)) lay ts i bufs m = Some ([], m') \<and>
    sm_inv m' \<and> undisturbed m m' \<and>
    queued m' = queued m @ take (BroadcastCap - length (queued m))
      (map (\<lambda>(k, b). \<lparr>fData = pcm16 unrep b, fChannel = mapping lay ! k, fTimestamp = ts, fCodec = CodecPCM\<rparr>)
        (zip [i..<c] bufs))"
  using assms(1-3)
proof (induction bufs arbitrary: i m)
  case (Cons b bufs)
  let ?f = "\<lparr>fData = pcm16 unrep b, fChannel = mapping lay ! i, fTimestamp = ts, fCodec = CodecPCM\<rparr>"
  have i: "i < c" "Suc i + length bufs = c" using Cons.prems(2) by simp_all
  have fits: "length (pcm16 unrep b) \<le> MaxPayloadSize" using Cons.prems(3) by (simp add: MaxPayloadSize_def)
  have "Encode unrep (frame_encoder 1) b = Inr (pcm16 unrep b)" using Cons.prems(3) by (simp add: Encode_frame)
  moreover obtain m1 where m1: "SendAudio (choice i) (pcm16 unrep b) (mapping lay ! i) ts CodecPCM m = Some m1"
    "sm_inv m1" "undisturbed m m1" "queued m1 = queued m @ take (BroadcastCap - length (queued m)) [?f]"
    using SendAudio_queues [OF Cons.prems(1) fits] by blast
  moreover obtain m2 where m2:
    "send_channels unrep choice (replicate c (frame_encoder 1)) lay ts (Suc i) bufs m1 = Some ([], m2)"
    "sm_inv m2" "undisturbed m1 m2"
    "queued m2 = queued m1 @ take (BroadcastCap - length (queued m1))
      (map (\<lambda>(k, b). \<lparr>fData = pcm16 unrep b, fChannel = mapping lay ! k, fTimestamp = ts, fCodec = CodecPCM\<rparr>)
        (zip [Suc i..<c] bufs))"
    using Cons.IH [OF m1(2) i(2)] Cons.prems(3) by auto
  ultimately have "send_channels unrep choice (replicate c (frame_encoder 1)) lay ts i (b # bufs) m = Some ([], m2)"
    using i assms(4) by simp
  moreover have "take n [?f] @ take (n - length (take n [?f])) fs = take n (?f # fs)" for n fs
    by (cases n) simp_all
  then have "queued m2 = queued m @ take (BroadcastCap - length (queued m)) (?f #
      (map (\<lambda>(k, b). \<lparr>fData = pcm16 unrep b, fChannel = mapping lay ! k, fTimestamp = ts, fCodec = CodecPCM\<rparr>)
        (zip [Suc i..<c] bufs)))"
    using m2(4) m1(4) by (metis append.assoc diff_diff_left length_append)
  ultimately show ?case
    using m2(2) undisturbed_trans [OF m1(3) m2(3)] i(1) by (simp add: upt_conv_Cons)
qed (simp add: undisturbed_def)

lemma downmix_unused_ok:
  assumes "lay \<in> {Layout51, Layout71}" and "length (plDemux p) = channels lay"
    and "\<forall>b \<in> set (plDemux p). length b = 480" and "length (plStereo p) = 960"
  shows "\<exists>out. downmix_unused lay p = Some (p\<lparr>plStereo := out\<rparr>) \<and> length out = 960"
proof -
  have c: "channels lay = 6 \<or> channels lay = 8" using assms(1) by (auto simp: layout_defs)
  moreover have "length (plDemux p ! k) = 480" if "k < channels lay" for k using that assms(2,3) by simp
  ultimately have "DownmixToStereoInto (plDemux p) lay (plStereo p) =
      Inr (write_pairs (stereo_left lay (plDemux p)) (stereo_right lay (plDemux p)) [0..<480] (plStereo p))" (is "_ = Inr ?out")
    using assms(2,4) by (auto simp: DownmixToStereoInto_def used_channels_def Let_def)
  then have "downmix_unused lay p = Some (p\<lparr>plStereo := ?out\<rparr>)" "length ?out = 960"
    using assms(4) by (simp_all add: downmix_unused_def)
  then show ?thesis by blast
qed

lemma stamp_buffers [simp]:
  "plDemux (snd (stamp fmt n now p)) = plDemux p" "plStereo (snd (stamp fmt n now p)) = plStereo p"
  by (simp_all add: stamp_def soft_sync_def Let_def)

lemma surround_frame_ok:
  assumes "pipe_wf ap p" and "sm_inv m" and "apDemuxer ap = Some lay" and "lay \<in> {Layout51, Layout71}"
    and "channels lay = afChannels (apFormat ap)" and "length (mapping lay) = channels lay"
    and "length buf = 480 * channels lay"
  shows "\<exists>p' m'. surround_frame unrep choice (replicate (channels lay) (frame_encoder 1)) lay ts buf p m = Some ([], p', m') \<and>
    pipe_wf ap p' \<and> plStart p' = plStart p \<and> plTotal p' = plTotal p \<and> sm_inv m' \<and> undisturbed m m' \<and>
    queued m' = queued m @ take (BroadcastCap - length (queued m)) (round_frames unrep ap ts buf)"
proof -
  let ?c = "channels lay"
  define bufs where "bufs = map (\<lambda>k. channel_of ?c k buf) [0..<?c]"
  have c: "0 < ?c" using assms(4) by (auto simp: layout_defs)
  have wf: "length (plDemux p) = ?c" "\<forall>b \<in> set (plDemux p). length b = 480" "length (plStereo p) = 960"
    using assms(1,3,5) by (simp_all add: pipe_wf_def)
  have D: "DemuxInto lay buf (plDemux p) = Inr bufs"
    using DemuxInto_full [OF c wf(1,2)] assms(7) by (simp add: bufs_def)
  have len: "\<forall>b \<in> set bufs. length b = 480" using assms(7) c by (auto simp: bufs_def channel_of_def)
  obtain m' where m': "send_channels unrep choice (replicate ?c (frame_encoder 1)) lay ts 0 bufs m = Some ([], m')"
    "sm_inv m'" "undisturbed m m'" "queued m' = queued m @ take (BroadcastCap - length (queued m))
      (map (\<lambda>(k, b). \<lparr>fData = pcm16 unrep b, fChannel = mapping lay ! k, fTimestamp = ts, fCodec = CodecPCM\<rparr>)
        (zip [0..<?c] bufs))"
    using send_channels_ok [OF assms(2) _ len assms(6), of 0 unrep choice ts] by (auto simp: bufs_def)
  have "zip [0..<?c] bufs = map (\<lambda>k. (k, channel_of ?c k buf)) [0..<?c]"
    by (simp add: bufs_def zip_map2 zip_same_conv_map)
  then have q: "queued m' = queued m @ take (BroadcastCap - length (queued m)) (round_frames unrep ap ts buf)"
    using m'(4) assms(3) by (simp add: round_frames_def o_def)
  obtain out where "downmix_unused lay (p\<lparr>plDemux := bufs\<rparr>) = Some (p\<lparr>plDemux := bufs, plStereo := out\<rparr>)" "length out = 960"
    using downmix_unused_ok [OF assms(4), of "p\<lparr>plDemux := bufs\<rparr>"] len wf(3) by (auto simp: bufs_def)
  then show ?thesis
    using m'(1-3) q D len assms(3,5) by (simp add: surround_frame_def pipe_wf_def bufs_def)
qed

lemma stereo_frame_ok:
  assumes "sm_inv m" and "apDemuxer ap = None" and "length buf = 960"
  shows "\<exists>m'. stereo_frame unrep choice [frame_encoder 2] ts buf p m = Some ([], p, m') \<and>
    sm_inv m' \<and> undisturbed m m' \<and>
    queued m' = queued m @ take (BroadcastCap - length (queued m)) (round_frames unrep ap ts buf)"
proof -
  have "Encode unrep (frame_encoder 2) buf = Inr (pcm16 unrep buf)" "length (pcm16 unrep buf) \<le> MaxPayloadSize"
    using assms(3) by (simp_all add: Encode_frame MaxPayloadSize_def)
  with SendAudio_queues [OF assms(1) this(2)] assms(2) show ?thesis
    by (fastforce simp: stereo_frame_def round_frames_def)
qed

text \<open>
  One round of the audio loop. On the path \<^verbatim>\<open>main\<close> builds, a full buffer is never refused: nothing is
  logged, nothing panics, and the frames handed to the stream manager are the whole buffer as one stereo
  mix, or every speaker's samples with the speaker's mask, in the order of the layout, all with the same
  timestamp. As many of them as fit are appended to the queue, and clients, the frame being sent and the
  loop's own buffers are not disturbed.
\<close>

lemma round_queues_frames:
  assumes "setup_audio fmt = Inr ap" and "pipe_wf ap p" and "sm_inv m" and "length buf = 480 * afChannels fmt"
  shows "\<exists>p' m'. pipeline_round unrep choice ap (CapRead (length buf) buf) now p m = Some ([], p', m') \<and>
    pipe_wf ap p' \<and> sm_inv m' \<and> undisturbed m m' \<and>
    plStart p' = plStart (snd (stamp fmt (length buf) now p)) \<and> plTotal p' = plTotal (snd (stamp fmt (length buf) now p)) \<and>
    queued m' = queued m @ take (BroadcastCap - length (queued m))
      (round_frames unrep ap (fst (stamp fmt (length buf) now p)) buf)"
proof -
  have ok: "path_ok ap" and fmt: "apFormat ap = fmt" using path_ok_setup [OF assms(1)] by simp_all
  define ts p1 where "ts = fst (stamp fmt (length buf) now p)" and "p1 = snd (stamp fmt (length buf) now p)"
  have wf1: "pipe_wf ap p1" using assms(2) by (simp add: pipe_wf_def p1_def)
  have st: "stamp fmt (length buf) now p = (ts, p1)" by (simp add: ts_def p1_def)
  from ok show ?thesis
  proof (cases rule: path_ok_cases)
    case 1
    then obtain m' where "stereo_frame unrep choice [frame_encoder 2] ts buf p1 m = Some ([], p1, m')"
      "sm_inv m'" "undisturbed m m'"
      "queued m' = queued m @ take (BroadcastCap - length (queued m)) (round_frames unrep ap ts buf)"
      using stereo_frame_ok [OF assms(3) 1(3)] assms(4) fmt by fastforce
    moreover have "pipeline_round unrep choice ap (CapRead (length buf) buf) now p m =
        stereo_frame unrep choice [frame_encoder 2] ts buf p1 m"
      using 1 assms(4) fmt st by (simp add: pipeline_round_def)
    ultimately show ?thesis using wf1 by (metis ts_def p1_def)
  next
    case (2 lay)
    then have "length buf = 480 * channels lay" "0 < channels lay" using assms(4) fmt by (auto simp: layout_defs)
    moreover from this have "pipeline_round unrep choice ap (CapRead (length buf) buf) now p m =
        surround_frame unrep choice (replicate (channels lay) (frame_encoder 1)) lay ts buf p1 m"
      using 2 fmt st by (simp add: pipeline_round_def)
    ultimately show ?thesis
      using surround_frame_ok [OF wf1 assms(3) 2(2-5), of buf unrep choice ts] by (metis ts_def p1_def)
  qed
qed

section \<open>The path under every interleaving\<close>

text \<open>The pipeline's rounds, interleaved with the iterations of the sender, which yield the frames sent.\<close>

datatype path_op = Round "nat \<Rightarrow> nat option" cap_read i64 | Deliver

fun run_path ::
  "(fl \<Rightarrow> int) \<Rightarrow> audio_path \<Rightarrow> path_op list \<Rightarrow> pipeline \<Rightarrow> stream_mgr \<Rightarrow>
   (frame list \<times> pipeline \<times> stream_mgr) option" where
  "run_path unrep ap [] p m = Some ([], p, m)"
| "run_path unrep ap (Round choice rd now # ops) p m =
     (case pipeline_round unrep choice ap rd now p m of
        None \<Rightarrow> None
      | Some (logs, p, m) \<Rightarrow> run_path unrep ap ops p m)"
| "run_path unrep ap (Deliver # ops) p m =
     (case iteration m of
        None \<Rightarrow> run_path unrep ap ops p m
      | Some (f, m) \<Rightarrow> map_option (\<lambda>(fs, p, m). (f # fs, p, m)) (run_path unrep ap ops p m))"

text \<open>The frames the rounds make, from the anchor and the count alone.\<close>

fun path_stream :: "(fl \<Rightarrow> int) \<Rightarrow> audio_path \<Rightarrow> path_op list \<Rightarrow> pipeline \<Rightarrow> frame list" where
  "path_stream unrep ap [] p = []"
| "path_stream unrep ap (Round choice (CapRead n buf) now # ops) p =
     (if n = 0 then path_stream unrep ap ops p
      else let (ts, p) = stamp (apFormat ap) n now p
           in round_frames unrep ap ts buf @ path_stream unrep ap ops p)"
| "path_stream unrep ap (_ # ops) p = path_stream unrep ap ops p"

text \<open>\<^verbatim>\<open>Read\<close> fails, returns nothing, or fills the buffer.\<close>

definition full_read :: "audio_path \<Rightarrow> path_op \<Rightarrow> bool" where
  "full_read ap op =
     (case op of
        Round choice (CapRead n buf) now \<Rightarrow> n = 0 \<or> n = 480 * afChannels (apFormat ap) \<and> length buf = n
      | _ \<Rightarrow> True)"

lemma stamp_cong:
  assumes "plStart p = plStart q" and "plTotal p = plTotal q"
  shows "fst (stamp fmt n now p) = fst (stamp fmt n now q)"
    "plStart (snd (stamp fmt n now p)) = plStart (snd (stamp fmt n now q))"
    "plTotal (snd (stamp fmt n now p)) = plTotal (snd (stamp fmt n now q))"
  using assms by (simp_all add: stamp_def soft_sync_def capture_ts_def Let_def)

lemma path_stream_cong:
  "plStart p = plStart q \<Longrightarrow> plTotal p = plTotal q \<Longrightarrow> path_stream unrep ap ops p = path_stream unrep ap ops q"
proof (induction ops arbitrary: p q)
  case (Cons op ops)
  show ?case
  proof (cases "\<exists>choice n buf now. op = Round choice (CapRead n buf) now")
    case True
    then obtain choice n buf now where op: "op = Round choice (CapRead n buf) now" by blast
    note st = stamp_cong [OF Cons.prems, of "apFormat ap" n now]
    show ?thesis using Cons.IH [OF st(2,3)] Cons.IH [OF Cons.prems] st(1) by (simp add: op split_beta)
  next
    case False
    then show ?thesis using Cons.IH [OF Cons.prems] by (cases op; cases "case op of Round _ rd _ \<Rightarrow> rd") auto
  qed
qed simp

text \<open>The queue never overflows: with \<open>k\<close> frames queued, every round of the run finds room for its frames.\<close>

definition frames_per_round :: "audio_path \<Rightarrow> nat" where
  "frames_per_round ap = (case apDemuxer ap of None \<Rightarrow> 1 | Some lay \<Rightarrow> channels lay)"

fun path_room :: "nat \<Rightarrow> path_op list \<Rightarrow> nat \<Rightarrow> bool" where
  "path_room c [] k \<longleftrightarrow> True"
| "path_room c (Round choice (CapRead n buf) now # ops) k \<longleftrightarrow>
     (if n = 0 then path_room c ops k else k + c \<le> BroadcastCap \<and> path_room c ops (k + c))"
| "path_room c (Round choice CapError now # ops) k \<longleftrightarrow> path_room c ops k"
| "path_room c (Deliver # ops) k \<longleftrightarrow> path_room c ops (k - 1)"

lemma length_round_frames [simp]: "length (round_frames unrep ap ts buf) = frames_per_round ap"
  by (simp add: round_frames_def frames_per_round_def split: option.split)

text \<open>A run that keeps, of the frames \<open>S\<close> made, a subsequence, and all of them if there is room.\<close>

definition delivers_stream ::
  "audio_path \<Rightarrow> stream_mgr \<Rightarrow> frame list \<Rightarrow> bool \<Rightarrow> (frame list \<times> pipeline \<times> stream_mgr) option \<Rightarrow> bool" where
  "delivers_stream ap m S room res \<longleftrightarrow>
     (\<exists>sent p' m' kept. res = Some (sent, p', m') \<and> pipe_wf ap p' \<and> idle m' \<and>
        sent @ queued m' = queued m @ kept \<and> subseq kept S \<and> (room \<longrightarrow> kept = S))"

lemma delivers_stream_put:
  assumes q: "queued m1 = queued m @ take (BroadcastCap - length (queued m)) fs" and d: "delivers_stream ap m1 S room res"
  shows "delivers_stream ap m (fs @ S) (length (queued m) + length fs \<le> BroadcastCap \<and> room) res"
proof -
  obtain sent p' m' kept where IH: "res = Some (sent, p', m')" "pipe_wf ap p'" "idle m'"
    "sent @ queued m' = queued m1 @ kept" "subseq kept S" "room \<longrightarrow> kept = S"
    using d unfolding delivers_stream_def by blast
  let ?kept = "take (BroadcastCap - length (queued m)) fs @ kept"
  have "subseq ?kept (fs @ S)"
    by (rule list_emb_append_mono [OF _ IH(5)]) (simp add: prefix_imp_subseq take_is_prefix)
  moreover have "?kept = fs @ S" if "length (queued m) + length fs \<le> BroadcastCap" "room"
    using that IH(6) by simp
  ultimately show ?thesis
    unfolding delivers_stream_def using IH(1-4) q by (intro exI [of _ sent] exI [of _ p'] exI [of _ m'] exI [of _ ?kept]) auto
qed

lemma delivers_stream_get:
  assumes "queued m = f # queued m1" and "delivers_stream ap m1 S room res"
  shows "delivers_stream ap m S room (map_option (\<lambda>(fs, p, m). (f # fs, p, m)) res)"
proof -
  obtain sent p' m' kept where "res = Some (sent, p', m')" "pipe_wf ap p'" "idle m'"
    "sent @ queued m' = queued m1 @ kept" "subseq kept S" "room \<longrightarrow> kept = S"
    using assms(2) unfolding delivers_stream_def by blast
  then show ?thesis unfolding delivers_stream_def using assms(1)
    by (intro exI [of _ "f # sent"] exI [of _ p'] exI [of _ m'] exI [of _ kept]) simp
qed

lemma full_round:
  assumes "path_ok ap" and "pipe_wf ap p" and "idle m" and "full_read ap (Round choice (CapRead n buf) now)" and "n \<noteq> 0"
  obtains p1 m1 where "pipeline_round unrep choice ap (CapRead n buf) now p m = Some ([], p1, m1)" "undisturbed m m1"
    "plStart p1 = plStart (snd (stamp (apFormat ap) n now p))"
    "plTotal p1 = plTotal (snd (stamp (apFormat ap) n now p))"
    "queued m1 = queued m @ take (BroadcastCap - length (queued m))
      (round_frames unrep ap (fst (stamp (apFormat ap) n now p)) buf)" "length buf = n" "pipe_wf ap p1" "idle m1"
proof -
  have n: "length buf = n" "n = 480 * afChannels (apFormat ap)" using assms(4,5) by (auto simp: full_read_def)
  then obtain p1 m1 where r: "pipeline_round unrep choice ap (CapRead n buf) now p m = Some ([], p1, m1)"
    "pipe_wf ap p1" "sm_inv m1" "undisturbed m m1"
    "plStart p1 = plStart (snd (stamp (apFormat ap) n now p))"
    "plTotal p1 = plTotal (snd (stamp (apFormat ap) n now p))"
    "queued m1 = queued m @ take (BroadcastCap - length (queued m))
      (round_frames unrep ap (fst (stamp (apFormat ap) n now p)) buf)"
    using round_queues_frames [of "apFormat ap" ap p m buf unrep choice now] assms(1-3)
    unfolding path_ok_def idle_def by auto
  show ?thesis by (rule that [OF r(1,4-7) n(1) r(2) undisturbed_idle [OF r(4,3) assms(3)]])
qed

text \<open>
  Induction over the operations of a path whose reads fill the buffer: the sender finds nothing or takes a
  frame; a round reads nothing or queues its frames.
\<close>

lemma path_induct [consumes 4, case_names Nil Empty Get Skip Put]:
  assumes "path_ok ap" and "pipe_wf ap p" and "idle m" and "\<forall>op \<in> set ops. full_read ap op"
    and nil: "\<And>p m. pipe_wf ap p \<Longrightarrow> idle m \<Longrightarrow> P [] p m"
    and empty: "\<And>ops p m. iteration m = None \<Longrightarrow> queued m = [] \<Longrightarrow> P ops p m \<Longrightarrow> P (Deliver # ops) p m"
    and get: "\<And>f m1 ops p m. iteration m = Some (f, m1) \<Longrightarrow> idle m \<Longrightarrow> queued m = f # queued m1 \<Longrightarrow> P ops p m1 \<Longrightarrow>
      P (Deliver # ops) p m"
    and skip: "\<And>choice rd now ops p m. (\<And>n buf. rd = CapRead n buf \<Longrightarrow> n = 0) \<Longrightarrow> P ops p m \<Longrightarrow>
      P (Round choice rd now # ops) p m"
    and put: "\<And>choice n buf now p1 m1 ops p m. n \<noteq> 0 \<Longrightarrow> length buf = n \<Longrightarrow>
      pipeline_round unrep choice ap (CapRead n buf) now p m = Some ([], p1, m1) \<Longrightarrow> undisturbed m m1 \<Longrightarrow>
      plStart p1 = plStart (snd (stamp (apFormat ap) n now p)) \<Longrightarrow>
      plTotal p1 = plTotal (snd (stamp (apFormat ap) n now p)) \<Longrightarrow>
      queued m1 = queued m @ take (BroadcastCap - length (queued m))
        (round_frames unrep ap (fst (stamp (apFormat ap) n now p)) buf) \<Longrightarrow>
      length (round_frames unrep ap (fst (stamp (apFormat ap) n now p)) buf) = frames_per_round ap \<Longrightarrow>
      P ops p1 m1 \<Longrightarrow> P (Round choice (CapRead n buf) now # ops) p m"
  shows "P ops p m"
  using assms(2-4)
proof (induction ops arbitrary: p m)
  case (Cons op ops)
  have ops: "\<forall>op \<in> set ops. full_read ap op" using Cons.prems(3) by simp
  show ?case
  proof (cases op)
    case Deliver
    show ?thesis
    proof (cases "iteration m")
      case None
      then show ?thesis
        using empty [OF None] sq.get_none [OF Cons.prems(2)] Cons.IH [OF Cons.prems(1,2) ops] Deliver by simp
    next
      case (Some fm)
      obtain f m1 where fm: "fm = (f, m1)" by force
      then show ?thesis
        using get [of m f m1] sq.get_some [OF Cons.prems(2), of f m1] Some Cons.prems(2) Cons.IH [OF Cons.prems(1) _ ops] Deliver
        by simp
    qed
  next
    case (Round choice rd now)
    show ?thesis
    proof (cases "\<exists>n buf. rd = CapRead n buf \<and> n \<noteq> 0")
      case False
      then show ?thesis using skip [OF _ Cons.IH [OF Cons.prems(1,2) ops]] Round by blast
    next
      case True
      then obtain n buf where rd: "rd = CapRead n buf" "n \<noteq> 0" by blast
      then have n: "full_read ap (Round choice (CapRead n buf) now)" using Cons.prems(3) Round by simp
      obtain p1 m1 where "pipeline_round unrep choice ap (CapRead n buf) now p m = Some ([], p1, m1)" "undisturbed m m1"
        "plStart p1 = plStart (snd (stamp (apFormat ap) n now p))"
        "plTotal p1 = plTotal (snd (stamp (apFormat ap) n now p))"
        "queued m1 = queued m @ take (BroadcastCap - length (queued m))
          (round_frames unrep ap (fst (stamp (apFormat ap) n now p)) buf)" "length buf = n" "pipe_wf ap p1" "idle m1"
        using assms(1) Cons.prems(1,2) n rd(2) by (rule full_round)
      then show ?thesis unfolding Round rd(1) using put [OF rd(2)] Cons.IH [OF _ _ ops] by simp
    qed
  qed
qed (use nil in simp)

lemma path_delivers_stream:
  assumes "path_ok ap" and "pipe_wf ap p" and "idle m" and "\<forall>op \<in> set ops. full_read ap op"
  shows "delivers_stream ap m (path_stream unrep ap ops p) (path_room (frames_per_round ap) ops (length (queued m)))
    (run_path unrep ap ops p m)"
  using assms
proof (induction rule: path_induct [where unrep = unrep])
  case (Nil p m)
  then show ?case by (simp add: delivers_stream_def)
next
  case (Empty ops p m)
  then show ?case by simp
next
  case (Get f m1 ops p m)
  then show ?case using delivers_stream_get [OF Get(3,4)] by simp
next
  case (Skip choice rd now ops p m)
  then show ?case by (cases rd) (simp_all add: pipeline_round_def)
next
  case (Put choice n buf now p1 m1 ops p m)
  have "length (queued m1) = length (queued m) + frames_per_round ap"
    if "length (queued m) + frames_per_round ap \<le> BroadcastCap" using that Put(8) by (simp add: Put(7))
  then show ?case
    using delivers_stream_put [OF Put(7,9)] path_stream_cong [OF Put(5,6)] Put(1,3)
    by (simp add: split_beta cong: conj_cong)
qed

lemmas path_delivers_run = path_delivers_stream [unfolded delivers_stream_def]

text \<open>The timestamps of an uninterrupted run are those of \<open>frame_ts\<close>.\<close>

lemma path_stream_frames:
  assumes "apFormat ap = fmt" and "0 < n" and "plStart q = plStart (clock_state fmt n now p k)"
    and "plTotal q = plTotal (clock_state fmt n now p k)"
  shows "path_stream unrep ap (map (\<lambda>i. Round (c i) (CapRead n (bufs i)) (now i)) [k..<k + j]) q =
    concat (map (\<lambda>i. round_frames unrep ap (frame_ts fmt n now p i) (bufs i)) [k..<k + j])"
  using assms(3,4)
proof (induction j arbitrary: k q)
  case (Suc j)
  note st = stamp_cong [OF Suc.prems, of fmt n "now k"]
  show ?case
    using Suc.IH [of "snd (stamp fmt n (now k) q)" "Suc k"] st assms(1,2)
    by (simp add: upt_conv_Cons split_beta frame_ts_def del: upt_Suc)
qed simp

definition wit_path :: audio_path where
  "wit_path = \<lparr>apFormat = wit_audio, apDemuxer = None, apEncoders = [frame_encoder 2]\<rparr>"

lemma wit_path: "setup_audio wit_audio = Inr wit_path"
  by (simp add: setup_audio_eq wit_path_def wit_audio_def)

definition wit_pipe :: pipeline where
  "wit_pipe = \<lparr>plStart = 7, plTotal = 0, plDemux = [], plStereo = []\<rparr>"

lemma wit_pipe: "start_pipeline wit_path 7 = Some (wit_pipe, 960)"
  by (simp add: start_pipeline_def wit_path_def wit_pipe_def wit_audio_def Encoder_FrameSamples_def frame_encoder_def)

section \<open>From the device to the queue\<close>

lemma pcm16_int16:
  assumes "\<forall>i < n. sint (mem_int16 mem i) \<noteq> - 32768"
  shows "pcm16 unrep (map (\<lambda>i. from_int16 (mem_int16 mem i)) [0..<n]) = map mem [0..<2 * n]"
  using assms
proof (induction n)
  case (Suc n)
  have "encode_sample unrep (from_int16 (mem_int16 mem n)) = mem_int16 mem n"
    using encode_decode_sample [of "mem_int16 mem n"] Suc.prems by (simp add: from_int16_def decode_sample_def)
  moreover have "le16 (mem_int16 mem n) = [mem (2 * n), mem (2 * n + 1)]"
    using le16s_concat [of "[mem (2 * n), mem (2 * n + 1)]"] by (simp add: mem_int16_def)
  ultimately show ?case using Suc by (simp add: pcm16_def)
qed (simp add: pcm16_def)

text \<open>
  C8: 16-bit audio is sent bit for bit. A packet of 480 stereo frames that a 16-bit device delivers into an
  empty ring is read back by the pipeline and queued as one frame of the mix whose payload is the device's
  memory, byte for byte: the conversion to float32 and back loses nothing, unless a sample is -32768.
\<close>

theorem captured_bytes_sent:
  assumes "wCaptureClient w \<noteq> 0" and "wfBitsPerSample (wMix w) = 16" and "wBytesPerFrame w = 4"
    and "wFormat w = fmt" and "afChannels fmt = 2"
    and "ring_inv (wRing w)" and "ring_unread (wRing w) = []" and "960 \<le> ringSize (wRing w)"
    and "delivers pk" and "peBuffer pk = (0, 480, flags)" and "\<not> is_silent flags"
    and "\<forall>i < 960. sint (mem_int16 (peMem pk) i) \<noteq> - 32768"
    and "setup_audio fmt = Inr ap" and "pipe_wf ap p" and "sm_inv m" and "length (queued m) < BroadcastCap"
  shows "\<exists>w1 w2 buf p' m'. processCaptureBuffer [pk] w = Some ([480], w1) \<and> Read 960 True True w1 = Samples buf w2 \<and>
    pipeline_round unrep choice ap (CapRead 960 buf) now p m = Some ([], p', m') \<and>
    queued m' = queued m @ [\<lparr>fData = map (peMem pk) [0..<1920], fChannel = ChannelStereoMix,
      fTimestamp = fst (stamp fmt 960 now p), fCodec = CodecPCM\<rparr>]"
proof -
  let ?buf = "map (\<lambda>i. from_int16 (mem_int16 (peMem pk) i)) [0..<960]"
  have bits: "unat (wfBitsPerSample (wMix w)) = 16" by (simp add: assms(2))
  have packed: "packed w" by (simp add: packed_def bits assms(3-5))
  have samples: "packet_samples w pk = ?buf"
    by (simp add: packet_samples_def assms(4,5,10,11) bits Let_def)
  have room: "ringWrite (wRing w) + length ?buf \<le> ringRead (wRing w) + ringSize (wRing w)"
    using assms(8) length_ring_unread [of "wRing w"] unfolding assms(7) by simp
  obtain r where r: "ring_puts ?buf (wRing w) = Some r" "ring_inv r" "ring_unread r = ?buf"
    using ring_puts_unread [OF assms(6) room] assms(7) by auto
  have cap: "processCaptureBuffer [pk] w = Some ([480], w\<lparr>wRing := r\<rparr>)"
    using processCaptureBuffer_next [OF packed assms(9,1), of "[]"] by (simp add: samples r(1) assms(10))
  have avail: "ringWrite r - ringRead r = 960" using arg_cong [OF r(3), of length] by simp
  then have "ring_copy 960 r = Some (?buf, r\<lparr>ringRead := ringRead r + 960\<rparr>)"
    using ring_copy_unread [of r 960] r(2,3) by (simp add: ring_inv_def)
  then have read: "Read 960 True True (w\<lparr>wRing := r\<rparr>) = Samples ?buf (w\<lparr>wRing := r\<lparr>ringRead := ringRead r + 960\<rparr>\<rparr>)"
    using avail by (simp add: Read_def ringAvailable_def)
  have mix: "apDemuxer ap = None" using assms(5,13) by (auto simp: setup_audio_eq split: if_splits)
  then have "round_frames unrep ap ts ?buf = [\<lparr>fData = map (peMem pk) [0..<1920], fChannel = ChannelStereoMix,
      fTimestamp = ts, fCodec = CodecPCM\<rparr>]" for ts
    using pcm16_int16 [OF assms(12)] by (simp add: round_frames_def)
  then show ?thesis
    using round_queues_frames [OF assms(13-15), of ?buf unrep choice now] assms(5,16) cap read by fastforce
qed

definition wit_device :: wasapi where
  "wit_device = NewWASAPICapture\<lparr>wRunning := True, wCaptureClient := 4, wFormat := wit_audio,
     wMix := \<lparr>wfFormatTag = 1, wfChannels = 2, wfSamplesPerSec = 48000, wfAvgBytesPerSec = 192000, wfBlockAlign = 4,
       wfBitsPerSample = 16, wfCbSize = 0\<rparr>, wBytesPerFrame := 4, wRing := new_ring 1000\<rparr>"

definition wit_packet16 :: packet_env where
  "wit_packet16 = \<lparr>peRunning = True, peNext = (0, 480), peBuffer = (0, 480, 0), peMem = (\<lambda>i. if even i then 7 else 1)\<rparr>"

theorem captured_bytes_sent_witness:
  "\<exists>w1 w2 buf p' m'. processCaptureBuffer [wit_packet16] wit_device = Some ([480], w1) \<and>
    Read 960 True True w1 = Samples buf w2 \<and>
    pipeline_round (\<lambda>_. 0) (\<lambda>_. None) wit_path (CapRead 960 buf) 10007 wit_pipe sm_NewManager = Some ([], p', m') \<and>
    queued m' = queued sm_NewManager @ [\<lparr>fData = map (peMem wit_packet16) [0..<1920], fChannel = ChannelStereoMix,
      fTimestamp = fst (stamp wit_audio 960 10007 wit_pipe), fCodec = CodecPCM\<rparr>]"
proof (rule captured_bytes_sent [where flags = 0, OF _ _ _ _ _ _ _ _ _ _ _ _ wit_path])
  have m: "mem_int16 (peMem wit_packet16) i = 263" for i
    by (simp add: mem_int16_def wit_packet16_def get_le16_def)
  have "sint (263 :: u16) = 263" by simp
  then show "\<forall>i < 960. sint (mem_int16 (peMem wit_packet16) i) \<noteq> - 32768" by (simp add: m)
  show "\<not> is_silent 0" by (simp add: is_silent_def)
  show "ring_inv (wRing wit_device)" by (simp add: wit_device_def new_ring_inv)
  show "ring_unread (wRing wit_device) = []" by (simp add: wit_device_def ring_unread_def new_ring_def)
  show "sm_inv sm_NewManager" by (rule sm_NewManager_inv)
  show "length (queued sm_NewManager) < BroadcastCap" by (simp add: queued_def sm_NewManager_def BroadcastCap_def)
  show "pipe_wf wit_path wit_pipe" by (simp add: pipe_wf_def wit_path_def)
qed (simp_all add: wit_device_def wit_packet16_def wit_audio_def delivers_def new_ring_def)

text \<open>
  What \<^verbatim>\<open>main\<close> builds for a captured format. It succeeds exactly for stereo, 5.1 and 7.1 at 48 kHz, with
  one stereo encoder, or a demultiplexer and one mono encoder per speaker, of 10 ms frames; every other
  channel count, mono included, and every other rate is refused with its error, the channel count first.
\<close>

theorem setup_audio_outcome:
  "setup_audio fmt =
    (if afChannels fmt \<notin> {2, 6, 8} then Inl (UnsupportedLayout (ErrUnsupported (int (afChannels fmt))))
     else if afSampleRate fmt \<noteq> 48000 then Inl (EncoderFailed (ErrSampleRate (int (afSampleRate fmt))))
     else Inr
       (if afChannels fmt = 2
        then \<lparr>apFormat = fmt, apDemuxer = None, apEncoders = [frame_encoder 2]\<rparr>
        else \<lparr>apFormat = fmt, apDemuxer = Some (if afChannels fmt = 6 then Layout51 else Layout71),
               apEncoders = replicate (afChannels fmt) (frame_encoder 1)\<rparr>))"
  by (rule setup_audio_eq)

end
