(* ===== verification/Tone.thy ===== *)
theory Tone
  imports Capture
begin

text \<open>
  The synthetic sources of \<^verbatim>\<open>internal/capture\<close>: the 440 Hz test tone and the stub of other platforms. The
  sine of the standard library is a parameter; only its range is used. Sleeping is not modelled.
\<close>

section \<open>The oscillator\<close>

text \<open>\<^verbatim>\<open>2.0*math.Pi\<close> as a \<^verbatim>\<open>float64\<close>.\<close>

definition two_pi :: rat where
  "two_pi = 884279719003555 / 140737488355328"

definition phase_inc :: "nat \<Rightarrow> fl" where
  "phase_inc rate = (if rate = 0 then PosInf else fdivc F64 (fmulc F64 440 (Fin two_pi)) (of_nat rate))"

definition next_phase :: "fl \<Rightarrow> fl \<Rightarrow> fl" where
  "next_phase inc phase =
     (let phase = fadd F64 phase inc
      in if fle (Fin two_pi) phase then fsub F64 phase (Fin two_pi) else phase)"

fun to_f32 :: "fl \<Rightarrow> fl" where
  "to_f32 (Fin x) = to_fl F32 x"
| "to_f32 x = x"

text \<open>A float64 factor, as a constant of the format, times the sine.\<close>

definition tone_sample :: "rat \<Rightarrow> (fl \<Rightarrow> fl) \<Rightarrow> fl \<Rightarrow> fl" where
  "tone_sample amplitude sine phase = to_f32 (fmulc F64 amplitude (sine phase))"

text \<open>The inner loop writes a sample \<open>c\<close> times from index \<open>i\<close> on.\<close>

fun fill_frame :: "nat \<Rightarrow> nat \<Rightarrow> 'a \<Rightarrow> 'a list \<Rightarrow> 'a list" where
  "fill_frame i 0 s buf = buf"
| "fill_frame i (Suc c) s buf = fill_frame (i + 1) c s (buf[i := s])"

section \<open>The test tone\<close>

record tone =
  tFormat :: audio_format
  tRunning :: bool
  tPhase :: fl

definition NewTestToneCapture :: "nat \<Rightarrow> nat \<Rightarrow> tone" where
  "NewTestToneCapture sampleRate chans =
     \<lparr>tFormat = \<lparr>afSampleRate = sampleRate, afChannels = chans, afBitDepth = 32\<rparr>, tRunning = False, tPhase = Fin 0\<rparr>"

definition tone_Start :: "tone \<Rightarrow> tone" where
  "tone_Start t = t\<lparr>tRunning := True, tPhase := Fin 0\<rparr>"

definition tone_Stop :: "tone \<Rightarrow> tone" where
  "tone_Stop t = t\<lparr>tRunning := False\<rparr>"

fun tone_loop :: "(fl \<Rightarrow> fl) \<Rightarrow> nat \<Rightarrow> fl \<Rightarrow> nat \<Rightarrow> nat \<Rightarrow> fl \<Rightarrow> fl list \<Rightarrow> fl \<times> fl list" where
  "tone_loop sine c inc i 0 phase buf = (phase, buf)"
| "tone_loop sine c inc i (Suc n) phase buf =
     (let sample = tone_sample (1 / 2) sine phase
      in tone_loop sine c inc (i + 1) n (next_phase inc phase) (fill_frame (i * c) c sample buf))"

text \<open>The division by the number of channels panics without channels.\<close>

definition tone_Read :: "(fl \<Rightarrow> fl) \<Rightarrow> fl list \<Rightarrow> tone \<Rightarrow> (nat \<times> fl list \<times> tone) option" where
  "tone_Read sine buf t =
     (if \<not> tRunning t then Some (0, buf, t)
      else
        let n = length buf; c = afChannels (tFormat t)
        in if c = 0 then None
           else
             let (phase, buf) =
               tone_loop sine c (phase_inc (afSampleRate (tFormat t))) 0 (n div c) (tPhase t) buf
             in Some (n, buf, t\<lparr>tPhase := phase\<rparr>))"

definition tone_LoopbackLatencyMs :: fl where
  "tone_LoopbackLatencyMs = Fin 5"

section \<open>The stub\<close>

definition NewStubCapture :: tone where
  "NewStubCapture =
     \<lparr>tFormat = \<lparr>afSampleRate = 48000, afChannels = 2, afBitDepth = 32\<rparr>, tRunning = False, tPhase = Fin 0\<rparr>"

definition stub_Start :: "tone \<Rightarrow> tone" where
  "stub_Start s = s\<lparr>tRunning := True\<rparr>"

definition stub_Stop :: "tone \<Rightarrow> tone" where
  "stub_Stop s = s\<lparr>tRunning := False\<rparr>"

definition stub_LoopbackLatencyMs :: fl where
  "stub_LoopbackLatencyMs = Fin 0"

definition stub_amplitude :: rat where
  "stub_amplitude = rnd F64 (3 / 10)"

text \<open>The loop from index \<open>i\<close>; the last frame may be cut off by the end of the buffer.\<close>

function stub_loop :: "(fl \<Rightarrow> fl) \<Rightarrow> nat \<Rightarrow> fl \<Rightarrow> nat \<Rightarrow> fl \<Rightarrow> fl list \<Rightarrow> fl \<times> fl list" where
  "stub_loop sine c inc i phase buf =
     (if i < length buf \<and> 0 < c
      then
        let sample = tone_sample stub_amplitude sine phase
        in stub_loop sine c inc (i + c) (next_phase inc phase) (fill_frame i (min c (length buf - i)) sample buf)
      else (phase, buf))"
  by pat_completeness auto

lemma length_fill_frame [simp]: "length (fill_frame i c s buf) = length buf"
  by (induction i c s buf rule: fill_frame.induct) auto

termination stub_loop
  by (relation "measure (\<lambda>(sine, c, inc, i, phase, buf). length buf - i)") auto

declare stub_loop.simps [simp del]

definition stub_Read :: "(fl \<Rightarrow> fl) \<Rightarrow> fl list \<Rightarrow> tone \<Rightarrow> read_error + (nat \<times> fl list \<times> tone)" where
  "stub_Read sine buf s =
     (if \<not> tRunning s then Inl NotRunning
      else
        let (phase, buf') =
          stub_loop sine (afChannels (tFormat s)) (phase_inc (afSampleRate (tFormat s))) 0 (tPhase s) buf
        in Inr (length buf, buf', s\<lparr>tPhase := phase\<rparr>))"

section \<open>The phase stays in its interval\<close>

lemma to_fl_small:
  assumes "\<bar>x\<bar> \<le> of_int n" and "\<bar>n\<bar> < 2 ^ prec f"
  shows "to_fl f x = Fin (rnd f x)" "\<bar>rnd f x\<bar> \<le> of_int n"
proof -
  show b: "\<bar>rnd f x\<bar> \<le> of_int n" by (rule rnd_abs_le [OF rep_of_int [OF assms(2)] assms(1)])
  have "\<bar>of_int n\<bar> < pow2 (int (emax f))" by (rule small_int_range [OF assms(2)])
  with b have "\<bar>rnd f x\<bar> < pow2 (int (emax f))" by linarith
  then show "to_fl f x = Fin (rnd f x)" by (auto simp: to_fl_def Let_def)
qed

definition phase_ok :: "fl \<Rightarrow> bool" where
  "phase_ok phase \<longleftrightarrow> (\<exists>x. phase = Fin x \<and> 0 \<le> x \<and> x < two_pi)"

lemma phase_inc_small: "\<exists>d. phase_inc 48000 = Fin d \<and> 0 \<le> d \<and> d \<le> 1"
proof -
  have tp: "\<bar>440 * two_pi\<bar> \<le> of_int 3000" "0 \<le> 440 * two_pi" by (simp_all add: two_pi_def)
  define x where "x = rnd F64 (440 * two_pi)"
  have m: "fmulc F64 440 (Fin two_pi) = Fin x" "\<bar>x\<bar> \<le> 3000" "0 \<le> x"
    using to_fl_small [OF tp(1), of F64] rnd_nonneg [OF tp(2), of F64] by (simp_all add: x_def)
  have d: "\<bar>x / 48000\<bar> \<le> of_int 1" "0 \<le> x / 48000" using m(2,3) by simp_all
  show ?thesis
    using to_fl_small [OF d(1), of F64] rnd_nonneg [OF d(2), of F64] by (simp add: phase_inc_def m(1) [simplified])
qed

lemma next_phase_ok:
  assumes "phase_ok phase" and "inc = Fin d" and "0 \<le> d" and "d \<le> 1"
  shows "phase_ok (next_phase inc phase)"
proof -
  obtain x where x: "phase = Fin x" "0 \<le> x" "x < two_pi" using assms(1) by (auto simp: phase_ok_def)
  have b: "\<bar>x + d\<bar> \<le> of_int 8" "0 \<le> x + d" using x assms(3,4) by (simp_all add: two_pi_def)
  define y where "y = rnd F64 (x + d)"
  have y: "fadd F64 phase inc = Fin y" "y \<le> 8" "0 \<le> y"
    using to_fl_small [OF b(1), of F64] rnd_nonneg [OF b(2), of F64] by (simp_all add: x(1) assms(2) y_def)
  show ?thesis
  proof (cases "two_pi \<le> y")
    case True
    then have z: "\<bar>y - two_pi\<bar> \<le> of_int 2" "0 \<le> y - two_pi" using y(2) by (simp_all add: two_pi_def)
    have "rnd F64 (y - two_pi) < two_pi"
      using to_fl_small(2) [OF z(1), of F64] by (simp add: two_pi_def)
    then show ?thesis
      using True to_fl_small(1) [OF z(1), of F64] rnd_nonneg [OF z(2), of F64]
      by (simp add: next_phase_def y(1) fsub_Fin phase_ok_def)
  next
    case False
    then show ?thesis using y(3) by (simp add: next_phase_def y(1) phase_ok_def)
  qed
qed

section \<open>What the loops write\<close>

text \<open>The phase after \<open>k\<close> samples, and the samples.\<close>

definition phase_at :: "fl \<Rightarrow> fl \<Rightarrow> nat \<Rightarrow> fl" where
  "phase_at inc phase k = (next_phase inc ^^ k) phase"

definition tone_wave :: "rat \<Rightarrow> (fl \<Rightarrow> fl) \<Rightarrow> fl \<Rightarrow> fl \<Rightarrow> nat \<Rightarrow> fl list" where
  "tone_wave amplitude sine inc phase n = map (\<lambda>k. tone_sample amplitude sine (phase_at inc phase k)) [0..<n]"

lemma phase_at_Suc: "phase_at inc (next_phase inc phase) k = phase_at inc phase (Suc k)"
  by (simp add: phase_at_def funpow_swap1)

lemma tone_wave_Suc:
  "tone_wave a sine inc phase (Suc n) = tone_sample a sine phase # tone_wave a sine inc (next_phase inc phase) n"
proof -
  have "tone_wave a sine inc phase (Suc n) =
      tone_sample a sine (phase_at inc phase 0) # map (\<lambda>k. tone_sample a sine (phase_at inc phase (Suc k))) [0..<n]"
    by (simp add: tone_wave_def upt_conv_Cons map_Suc_upt [symmetric] del: upt_Suc)
  then show ?thesis by (simp add: tone_wave_def phase_at_Suc) (simp add: phase_at_def)
qed

lemma fill_frame_eq: "i + c \<le> length buf \<Longrightarrow> fill_frame i c s buf = take i buf @ replicate c s @ drop (i + c) buf"
proof (induction c arbitrary: i buf)
  case (Suc c)
  have "fill_frame i (Suc c) s buf = take (i + 1) (buf[i := s]) @ replicate c s @ drop (i + 1 + c) (buf[i := s])"
    using Suc.IH [of "i + 1" "buf[i := s]"] Suc.prems by simp
  also have "take (i + 1) (buf[i := s]) = take i buf @ [s]"
    using Suc.prems by (simp add: take_Suc_conv_app_nth)
  finally show ?case using Suc.prems by (simp add: drop_update_cancel)
qed simp

text \<open>Every sample of the wave \<open>c\<close> times.\<close>

definition spread :: "nat \<Rightarrow> 'a list \<Rightarrow> 'a list" where
  "spread c xs = concat (map (replicate c) xs)"

lemma length_spread [simp]: "length (spread c xs) = c * length xs"
  by (induction xs) (simp_all add: spread_def)

lemma spread_append [simp]: "spread c (xs @ ys) = spread c xs @ spread c ys"
  by (simp add: spread_def)

lemma length_tone_wave [simp]: "length (tone_wave a sine inc phase n) = n"
  by (simp add: tone_wave_def)

lemma tone_loop_eq:
  assumes "i * c + n * c \<le> length buf"
  shows "tone_loop sine c inc i n phase buf =
    (phase_at inc phase n, take (i * c) buf @ spread c (tone_wave (1 / 2) sine inc phase n) @ drop (i * c + n * c) buf)"
  using assms
proof (induction n arbitrary: i phase buf)
  case (Suc n)
  let ?s = "tone_sample (1 / 2) sine phase"
  have f: "fill_frame (i * c) c ?s buf = take (i * c) buf @ replicate c ?s @ drop (i * c + c) buf"
    using Suc.prems by (intro fill_frame_eq) simp
  have "(i + 1) * c + n * c \<le> length (fill_frame (i * c) c ?s buf)" using Suc.prems by simp
  note IH = Suc.IH [OF this, of "next_phase inc phase"]
  have "take ((i + 1) * c) (fill_frame (i * c) c ?s buf) = take (i * c) buf @ replicate c ?s"
    using Suc.prems by (simp add: f)
  moreover have "drop ((i + 1) * c + n * c) (fill_frame (i * c) c ?s buf) = drop (i * c + Suc n * c) buf"
    using Suc.prems unfolding f by (simp add: ac_simps)
  ultimately show ?case
    using IH by (simp add: Let_def tone_wave_Suc spread_def phase_at_Suc)
qed (simp add: phase_at_def tone_wave_def spread_def)

lemma stub_loop_eq:
  assumes "length buf = i + n * c" and "0 < c"
  shows "stub_loop sine c inc i phase buf =
    (phase_at inc phase n, take i buf @ spread c (tone_wave stub_amplitude sine inc phase n))"
  using assms
proof (induction n arbitrary: i phase buf)
  case 0
  then show ?case by (subst stub_loop.simps) (simp add: phase_at_def tone_wave_def spread_def)
next
  case (Suc n)
  let ?s = "tone_sample stub_amplitude sine phase"
  have step: "stub_loop sine c inc i phase buf = stub_loop sine c inc (i + c) (next_phase inc phase) (fill_frame i c ?s buf)"
    using Suc.prems by (subst stub_loop.simps) (simp add: Let_def min_absorb1)
  have f: "fill_frame i c ?s buf = take i buf @ replicate c ?s @ drop (i + c) buf"
    using Suc.prems by (intro fill_frame_eq) simp
  have "length (fill_frame i c ?s buf) = i + c + n * c" using Suc.prems by simp
  note IH = Suc.IH [OF this Suc.prems(2), of "next_phase inc phase"]
  have "take (i + c) (fill_frame i c ?s buf) = take i buf @ replicate c ?s" using Suc.prems by (simp add: f)
  then show ?case using IH by (simp add: step tone_wave_Suc spread_def phase_at_Suc)
qed

section \<open>Properties\<close>

lemma phase_at_add: "phase_at inc phase (m + n) = phase_at inc (phase_at inc phase m) n"
  by (simp add: phase_at_def add.commute [of m] funpow_add)

lemma tone_wave_add:
  "tone_wave a sine inc phase (m + n) = tone_wave a sine inc phase m @ tone_wave a sine inc (phase_at inc phase m) n"
proof (induction m arbitrary: phase)
  case (Suc m)
  then show ?case by (simp add: tone_wave_Suc phase_at_Suc)
qed (simp add: tone_wave_def phase_at_def)

lemma phase_at_ok: "phase_ok phase \<Longrightarrow> phase_ok (phase_at (phase_inc 48000) phase k)"
proof (induction k)
  case (Suc k)
  obtain d where "phase_inc 48000 = Fin d" "0 \<le> d" "d \<le> 1" using phase_inc_small by blast
  then show ?case using next_phase_ok [OF Suc.IH [OF Suc.prems]] by (simp add: phase_at_def)
qed (simp add: phase_at_def)

lemma tone_sample_range:
  assumes "sine phase = Fin q" and "\<bar>q\<bar> \<le> 1" and "0 \<le> a" and "a \<le> 1" and "rep F64 a" and "rep F32 b" and "a \<le> b" and "b \<le> 1"
  shows "\<exists>y. tone_sample a sine phase = Fin y \<and> \<bar>y\<bar> \<le> b"
proof -
  have "\<bar>a * q\<bar> \<le> a" using assms(2,3) by (simp add: abs_mult mult_left_le)
  then have p: "\<bar>a * q\<bar> \<le> of_int 1" "\<bar>rnd F64 (a * q)\<bar> \<le> a"
    using assms(4) rnd_abs_le [OF assms(5)] by auto
  define x where "x = rnd F64 (a * q)"
  have "\<bar>x\<bar> \<le> of_int 1" "\<bar>x\<bar> \<le> b" using p(2) assms(7,8) by (simp_all add: x_def)
  then show ?thesis
    using to_fl_small(1) [OF p(1), of F64] to_fl_small(1) [of x 1 F32] rnd_abs_le [OF assms(6), of x]
    by (simp add: tone_sample_def assms(1) x_def)
qed

lemma rep_one_half: "rep f (1 / 2)"
  using rep_dyadic [of 1 f "- 1"] by (cases f) (simp_all add: pow2_minus [of 1, simplified] pow2_def)

text \<open>A sequence of reads, with what each buffer held before.\<close>

fun tone_reads :: "(fl \<Rightarrow> fl) \<Rightarrow> fl list list \<Rightarrow> tone \<Rightarrow> (fl list \<times> tone) option" where
  "tone_reads sine [] t = Some ([], t)"
| "tone_reads sine (buf # bufs) t =
     (case tone_Read sine buf t of
        None \<Rightarrow> None
      | Some (n, out, t) \<Rightarrow> map_option (\<lambda>(rest, t). (take n out @ rest, t)) (tone_reads sine bufs t))"

lemma tone_Read_wave:
  assumes "tRunning t" and "afSampleRate (tFormat t) = 48000" and "0 < afChannels (tFormat t)"
  shows "tone_Read sine buf t = Some (length buf,
    spread (afChannels (tFormat t)) (tone_wave (1 / 2) sine (phase_inc 48000) (tPhase t) (length buf div afChannels (tFormat t))) @
    drop (length buf div afChannels (tFormat t) * afChannels (tFormat t)) buf,
    t\<lparr>tPhase := phase_at (phase_inc 48000) (tPhase t) (length buf div afChannels (tFormat t))\<rparr>)"
  using tone_loop_eq [of 0 "afChannels (tFormat t)" "length buf div afChannels (tFormat t)" buf] assms
  by (simp add: tone_Read_def Let_def)

lemma tone_reads_wave:
  assumes "tRunning t" and "tFormat t = \<lparr>afSampleRate = 48000, afChannels = c, afBitDepth = b\<rparr>" and "0 < c"
    and "\<forall>buf \<in> set bufs. c dvd length buf"
  shows "tone_reads sine bufs t =
    Some (spread c (tone_wave (1 / 2) sine (phase_inc 48000) (tPhase t) (length (concat bufs) div c)),
      t\<lparr>tPhase := phase_at (phase_inc 48000) (tPhase t) (length (concat bufs) div c)\<rparr>)"
  using assms(1,2,4)
proof (induction bufs arbitrary: t)
  case (Cons buf bufs)
  obtain n where n: "length buf = n * c" using Cons.prems(3) by (metis dvd_def list.set_intros(1) mult.commute)
  define t1 where "t1 = t\<lparr>tPhase := phase_at (phase_inc 48000) (tPhase t) n\<rparr>"
  have "tone_Read sine buf t = Some (n * c, spread c (tone_wave (1 / 2) sine (phase_inc 48000) (tPhase t) n), t1)"
    using tone_Read_wave [of t sine buf] Cons.prems(1,2) assms(3) n by (simp add: t1_def)
  moreover have "tone_reads sine bufs t1 = Some (spread c (tone_wave (1 / 2) sine (phase_inc 48000) (tPhase t1) (length (concat bufs) div c)),
      t1\<lparr>tPhase := phase_at (phase_inc 48000) (tPhase t1) (length (concat bufs) div c)\<rparr>)"
    using Cons.prems by (intro Cons.IH) (simp_all add: t1_def)
  moreover have "length (concat (buf # bufs)) div c = n + length (concat bufs) div c" using n assms(3) by simp
  ultimately show ?case
    by (simp add: tone_wave_add phase_at_add t1_def mult.commute)
qed (simp add: spread_def tone_wave_def phase_at_def)

text \<open>
  The test tone. Whatever the sizes of the buffers, in whole frames, the samples of successive reads
  are one wave, unbroken at the borders, the same on every channel; each is at most a half in magnitude, and
  the phase never leaves \<open>[0, 2\<pi>)\<close>, however long it runs: rounding does not accumulate. The sine is any
  function that maps finite numbers into \<open>[-1, 1]\<close>.
\<close>

theorem test_tone_signal:
  assumes "\<forall>x. \<exists>q. sine (Fin x) = Fin q \<and> \<bar>q\<bar> \<le> 1" and "0 < c" and "\<forall>buf \<in> set bufs. c dvd length buf"
  shows "\<exists>wave phase. tone_reads sine bufs (tone_Start (NewTestToneCapture 48000 c)) =
      Some (spread c wave, (tone_Start (NewTestToneCapture 48000 c))\<lparr>tPhase := phase\<rparr>) \<and>
    length wave = length (concat bufs) div c \<and> phase_ok phase \<and>
    wave = tone_wave (1 / 2) sine (phase_inc 48000) (Fin 0) (length wave) \<and>
    (\<forall>s \<in> set wave. \<exists>y. s = Fin y \<and> \<bar>y\<bar> \<le> 1 / 2)"
proof -
  let ?t = "tone_Start (NewTestToneCapture 48000 c)" and ?n = "length (concat bufs) div c"
  have t: "tRunning ?t" "tFormat ?t = \<lparr>afSampleRate = 48000, afChannels = c, afBitDepth = 32\<rparr>" "tPhase ?t = Fin 0"
    by (simp_all add: tone_Start_def NewTestToneCapture_def)
  have ok: "phase_ok (phase_at (phase_inc 48000) (Fin 0) k)" for k
    by (rule phase_at_ok) (simp add: phase_ok_def two_pi_def)
  have "\<exists>y. tone_sample (1 / 2) sine (phase_at (phase_inc 48000) (Fin 0) k) = Fin y \<and> \<bar>y\<bar> \<le> 1 / 2" for k
  proof -
    obtain x q where "phase_at (phase_inc 48000) (Fin 0) k = Fin x" "sine (Fin x) = Fin q" "\<bar>q\<bar> \<le> 1"
      using ok [of k] assms(1) unfolding phase_ok_def by blast
    then show ?thesis using tone_sample_range [of sine "Fin x" q "1 / 2" "1 / 2"] rep_one_half by simp
  qed
  then show ?thesis
    using tone_reads_wave [OF t(1,2) assms(2,3), of sine] ok
    unfolding t(3) by (intro exI conjI) (auto simp: tone_wave_def)
qed

theorem test_tone_signal_witness:
  "\<exists>wave phase. tone_reads (\<lambda>x. Fin 1) [replicate 4 NaN, [Fin 7, Fin 8]] (tone_Start (NewTestToneCapture 48000 2)) =
      Some (spread 2 wave, (tone_Start (NewTestToneCapture 48000 2))\<lparr>tPhase := phase\<rparr>) \<and>
    length wave = 3 \<and> phase_ok phase \<and>
    wave = tone_wave (1 / 2) (\<lambda>x. Fin 1) (phase_inc 48000) (Fin 0) (length wave) \<and>
    (\<forall>s \<in> set wave. \<exists>y. s = Fin y \<and> \<bar>y\<bar> \<le> 1 / 2)"
  using test_tone_signal [of "\<lambda>x. Fin 1" 2 "[replicate 4 NaN, [Fin 7, Fin 8]]"] by simp

text \<open>The stub reads the same wave, with its own amplitude.\<close>

lemma stub_Read_wave:
  assumes "tRunning s" and "tFormat s = tFormat NewStubCapture" and "length buf = n * 2"
  shows "stub_Read sine buf s =
    Inr (length buf, spread 2 (tone_wave stub_amplitude sine (phase_inc 48000) (tPhase s) n),
      s\<lparr>tPhase := phase_at (phase_inc 48000) (tPhase s) n\<rparr>)"
  using stub_loop_eq [of buf 0 n 2 sine "phase_inc 48000" "tPhase s"] assms
  by (simp add: stub_Read_def NewStubCapture_def)

end
