(* ===== verification/Live.thy ===== *)
theory Live
  imports Pipeline Tone
begin

text \<open>
  The audio loop with its source (\<^verbatim>\<open>internal/capture/capture.go\<close> and \<^verbatim>\<open>cmd/soundswarm-server/main.go\<close>): the
  interface \<^verbatim>\<open>AudioCapture\<close> as a locale, the loop of \<^verbatim>\<open>runAudioPipeline\<close> over any implementation of it, and the
  three implementations. The loop is a function of the methods it calls, as the Go code dispatches on them.
\<close>

section \<open>The loop\<close>

text \<open>What one call of \<^verbatim>\<open>Read\<close> does: it panics, waits, fails, or returns a count, the buffer and the new source.\<close>

datatype 's reading = ReadPanic | Waiting | ReadError | Reading nat "fl list" 's

text \<open>
  A round of the loop, an event at the source between two rounds, an iteration of the sender, and the
  cancellation of the loop's context.
\<close>

datatype 'e live_op = ReadRound "nat \<Rightarrow> nat option" i64 | Arrive 'e | SendNext | CancelLoop

record 's live =
  lvSource :: 's
  lvBuf :: "fl list"
  lvPipe :: pipeline
  lvCancelled :: bool
  lvStream :: stream_mgr

definition live_round ::
  "(fl \<Rightarrow> int) \<Rightarrow> audio_path \<Rightarrow> (fl list \<Rightarrow> 's \<Rightarrow> 's reading) \<Rightarrow> (nat \<Rightarrow> nat option) \<Rightarrow> i64 \<Rightarrow> 's live \<Rightarrow>
   (pipeline_log list \<times> 's live) option" where
  "live_round unrep ap rd choice now lv =
     (if lvCancelled lv then Some ([], lv)
      else case rd (lvBuf lv) (lvSource lv) of
        ReadPanic \<Rightarrow> None
      | Waiting \<Rightarrow> Some ([], lv)
      | ReadError \<Rightarrow>
          map_option (\<lambda>(logs, p, m). (logs, lv\<lparr>lvPipe := p, lvStream := m\<rparr>))
            (pipeline_round unrep choice ap CapError now (lvPipe lv) (lvStream lv))
      | Reading n buf s \<Rightarrow>
          map_option (\<lambda>(logs, p, m). (logs, lv\<lparr>lvSource := s, lvBuf := buf, lvPipe := p, lvStream := m\<rparr>))
            (pipeline_round unrep choice ap (CapRead n buf) now (lvPipe lv) (lvStream lv)))"

text \<open>A run of the loop yields the frames sent; \<open>None\<close> is a panic.\<close>

fun run_live ::
  "(fl \<Rightarrow> int) \<Rightarrow> audio_path \<Rightarrow> (fl list \<Rightarrow> 's \<Rightarrow> 's reading) \<Rightarrow> ('e \<Rightarrow> 's \<Rightarrow> 's option) \<Rightarrow> 'e live_op list \<Rightarrow>
   's live \<Rightarrow> (frame list \<times> 's live) option" where
  "run_live unrep ap rd ev [] lv = Some ([], lv)"
| "run_live unrep ap rd ev (ReadRound choice now # ops) lv =
     (case live_round unrep ap rd choice now lv of
        None \<Rightarrow> None
      | Some (logs, lv) \<Rightarrow> run_live unrep ap rd ev ops lv)"
| "run_live unrep ap rd ev (Arrive e # ops) lv =
     (case ev e (lvSource lv) of
        None \<Rightarrow> None
      | Some s \<Rightarrow> run_live unrep ap rd ev ops (lv\<lparr>lvSource := s\<rparr>))"
| "run_live unrep ap rd ev (SendNext # ops) lv =
     (case iteration (lvStream lv) of
        None \<Rightarrow> run_live unrep ap rd ev ops lv
      | Some (f, m) \<Rightarrow>
          map_option (\<lambda>(fs, lv). (f # fs, lv)) (run_live unrep ap rd ev ops (lv\<lparr>lvStream := m\<rparr>)))"
| "run_live unrep ap rd ev (CancelLoop # ops) lv = run_live unrep ap rd ev ops (lv\<lparr>lvCancelled := True\<rparr>)"

definition start_live :: "audio_path \<Rightarrow> i64 \<Rightarrow> 's \<Rightarrow> stream_mgr \<Rightarrow> 's live option" where
  "start_live ap now s m =
     map_option (\<lambda>(p, len). \<lparr>lvSource = s, lvBuf = replicate len (Fin 0), lvPipe = p, lvCancelled = False, lvStream = m\<rparr>)
       (start_pipeline ap now)"

section \<open>The rounds as a path\<close>

text \<open>What the loop reads in a run, and when the sender takes a frame: the operations of the audio path.\<close>

fun live_path ::
  "(fl list \<Rightarrow> 's \<Rightarrow> 's reading) \<Rightarrow> ('e \<Rightarrow> 's \<Rightarrow> 's option) \<Rightarrow> 'e live_op list \<Rightarrow> bool \<Rightarrow> fl list \<Rightarrow> 's \<Rightarrow> path_op list" where
  "live_path rd ev [] c buf s = []"
| "live_path rd ev (ReadRound choice now # ops) c buf s =
     (if c then live_path rd ev ops c buf s
      else case rd buf s of
        ReadPanic \<Rightarrow> []
      | Waiting \<Rightarrow> live_path rd ev ops c buf s
      | ReadError \<Rightarrow> Round choice CapError now # live_path rd ev ops c buf s
      | Reading n buf s \<Rightarrow> Round choice (CapRead n buf) now # live_path rd ev ops c buf s)"
| "live_path rd ev (Arrive e # ops) c buf s =
     (case ev e s of None \<Rightarrow> [] | Some s \<Rightarrow> live_path rd ev ops c buf s)"
| "live_path rd ev (SendNext # ops) c buf s = Deliver # live_path rd ev ops c buf s"
| "live_path rd ev (CancelLoop # ops) c buf s = live_path rd ev ops True buf s"

text \<open>The source at the end, and the samples read.\<close>

fun live_source ::
  "(fl list \<Rightarrow> 's \<Rightarrow> 's reading) \<Rightarrow> ('e \<Rightarrow> 's \<Rightarrow> 's option) \<Rightarrow> 'e live_op list \<Rightarrow> bool \<Rightarrow> fl list \<Rightarrow> 's \<Rightarrow> 's" where
  "live_source rd ev [] c buf s = s"
| "live_source rd ev (ReadRound choice now # ops) c buf s =
     (if c then live_source rd ev ops c buf s
      else case rd buf s of
        Reading n buf s \<Rightarrow> live_source rd ev ops c buf s
      | _ \<Rightarrow> live_source rd ev ops c buf s)"
| "live_source rd ev (Arrive e # ops) c buf s =
     (case ev e s of None \<Rightarrow> s | Some s \<Rightarrow> live_source rd ev ops c buf s)"
| "live_source rd ev (SendNext # ops) c buf s = live_source rd ev ops c buf s"
| "live_source rd ev (CancelLoop # ops) c buf s = live_source rd ev ops True buf s"

fun samples_read :: "path_op list \<Rightarrow> fl list" where
  "samples_read [] = []"
| "samples_read (Round choice (CapRead n buf) now # ops) = take n buf @ samples_read ops"
| "samples_read (_ # ops) = samples_read ops"

section \<open>The interface\<close>

locale audio_source =
  fixes fmt :: "'s \<Rightarrow> audio_format"
    and rd :: "fl list \<Rightarrow> 's \<Rightarrow> 's reading"
    and ev :: "'e \<Rightarrow> 's \<Rightarrow> 's option"
    and ok :: "'s \<Rightarrow> bool"
  assumes read_total: "ok s \<Longrightarrow> rd buf s \<noteq> ReadPanic"
    and read_full: "ok s \<Longrightarrow> rd buf s = Reading n out s' \<Longrightarrow>
      (n = 0 \<or> n = length buf) \<and> length out = length buf \<and> ok s' \<and> fmt s' = fmt s"
    and event_ok: "ok s \<Longrightarrow> \<exists>s'. ev e s = Some s' \<and> ok s' \<and> fmt s' = fmt s"
begin

lemma path_full:
  assumes "ok s" and "length buf = 480 * afChannels (apFormat ap)"
  shows "\<forall>op \<in> set (live_path rd ev ops c buf s). full_read ap op"
  using assms
proof (induction ops arbitrary: c buf s)
  case (Cons op ops)
  then show ?case
  proof (cases op)
    case (ReadRound choice now)
    then show ?thesis using Cons read_full [OF Cons.prems(1), of buf]
      by (auto simp: full_read_def split: reading.split)
  next
    case (Arrive e)
    then show ?thesis using Cons event_ok [OF Cons.prems(1), of e] by auto
  qed (auto simp: full_read_def)
qed simp

text \<open>The loop is the audio path over what it reads.\<close>

lemma run_live_path:
  assumes "ok (lvSource lv)"
  shows "map_option (\<lambda>(sent, lv'). (sent, lvPipe lv', lvStream lv', lvSource lv')) (run_live unrep ap rd ev ops lv) =
    map_option (\<lambda>(sent, p, m). (sent, p, m, live_source rd ev ops (lvCancelled lv) (lvBuf lv) (lvSource lv)))
      (run_path unrep ap (live_path rd ev ops (lvCancelled lv) (lvBuf lv) (lvSource lv)) (lvPipe lv) (lvStream lv))"
  using assms
proof (induction ops arbitrary: lv)
  case (Cons op ops)
  then show ?case
  proof (cases op)
    case (ReadRound choice now)
    show ?thesis
    proof (cases "lvCancelled lv")
      case False
      then show ?thesis
        using Cons ReadRound read_total [OF Cons.prems, of "lvBuf lv"] read_full [OF Cons.prems, of "lvBuf lv"]
        by (auto simp: live_round_def split: reading.split option.split)
    qed (use Cons ReadRound in \<open>simp add: live_round_def\<close>)
  next
    case (Arrive e)
    then show ?thesis using Cons event_ok [OF Cons.prems, of e] by auto
  next
    case SendNext
    show ?thesis
    proof (cases "iteration (lvStream lv)")
      case (Some fm)
      obtain f m1 where "fm = (f, m1)" by force
      then show ?thesis using Cons.IH [of "lv\<lparr>lvStream := m1\<rparr>"] Cons.prems SendNext Some
        by (auto simp: option.map_comp o_def split_beta map_option_case split: option.splits)
    qed (use Cons SendNext in simp)
  qed simp
qed simp

lemma live_delivers:
  assumes "setup_audio (fmt s) = Inr ap" and "start_live ap t s m = Some lv" and "idle m" and "ok s"
  shows "\<exists>sent lv' kept. run_live unrep ap rd ev ops lv = Some (sent, lv') \<and> idle (lvStream lv') \<and>
    lvSource lv' = live_source rd ev ops False (lvBuf lv) s \<and>
    sent @ queued (lvStream lv') = queued m @ kept \<and>
    subseq kept (path_stream unrep ap (live_path rd ev ops False (lvBuf lv) s) (lvPipe lv)) \<and>
    (path_room (frames_per_round ap) (live_path rd ev ops False (lvBuf lv) s) (length (queued m)) \<longrightarrow>
       kept = path_stream unrep ap (live_path rd ev ops False (lvBuf lv) s) (lvPipe lv))"
proof -
  have ok: "path_ok ap" using path_ok_setup [OF assms(1)] by simp
  obtain p where p: "lv = \<lparr>lvSource = s, lvBuf = replicate (480 * afChannels (apFormat ap)) (Fin 0), lvPipe = p,
      lvCancelled = False, lvStream = m\<rparr>" "pipe_wf ap p"
    using start_pipe_wf [OF ok, of t] assms(2) by (auto simp: start_live_def)
  have full: "\<forall>op \<in> set (live_path rd ev ops False (lvBuf lv) s). full_read ap op"
    by (intro path_full [OF assms(4)]) (simp add: p(1))
  obtain sent p' m' kept where r: "run_path unrep ap (live_path rd ev ops False (lvBuf lv) s) p m = Some (sent, p', m')" "idle m'"
    "sent @ queued m' = queued m @ kept"
    "subseq kept (path_stream unrep ap (live_path rd ev ops False (lvBuf lv) s) p)"
    "path_room (frames_per_round ap) (live_path rd ev ops False (lvBuf lv) s) (length (queued m)) \<longrightarrow>
      kept = path_stream unrep ap (live_path rd ev ops False (lvBuf lv) s) p"
    using path_delivers_run [OF ok p(2) assms(3) full, of unrep] by blast
  have "map_option (\<lambda>(sent, lv'). (sent, lvPipe lv', lvStream lv', lvSource lv')) (run_live unrep ap rd ev ops lv) =
    Some (sent, p', m', live_source rd ev ops False (lvBuf lv) s)"
    using run_live_path [of lv unrep ap ops] assms(4) r(1) by (simp add: p(1))
  then show ?thesis using r(2-) by (auto simp: p(1))
qed

end

section \<open>The Windows capture\<close>

text \<open>\<^verbatim>\<open>Stop\<close> during \<^verbatim>\<open>Read\<close> is a step of the monitor's model; here a call of \<^verbatim>\<open>Read\<close> is one step.\<close>

definition dev_read :: "fl list \<Rightarrow> wasapi \<Rightarrow> wasapi reading" where
  "dev_read buf w =
     (case Read (length buf) (wRunning w) (wRunning w) w of
        ReadPanics \<Rightarrow> ReadPanic
      | ReadWaits \<Rightarrow> Waiting
      | ReadFails e \<Rightarrow> ReadError
      | Samples out w \<Rightarrow> Reading (length buf) out w)"

text \<open>A wake-up of the capture goroutine, and \<^verbatim>\<open>Stop\<close>.\<close>

datatype dev_event = Packets "packet_env list" | Halt

primrec dev_step :: "dev_event \<Rightarrow> wasapi \<Rightarrow> wasapi option" where
  "dev_step (Packets ps) w = map_option snd (processCaptureBuffer ps w)"
| "dev_step Halt w = Some (snd (Stop w))"

definition dev_ok :: "wasapi \<Rightarrow> bool" where
  "dev_ok w \<longleftrightarrow> packed w \<and> ring_wf (wRing w)"

lemma process_wf:
  assumes "dev_ok w"
  shows "\<exists>released r. processCaptureBuffer ps w = Some (released, w\<lparr>wRing := r\<rparr>) \<and> ring_wf r"
proof (cases "wCaptureClient w = 0")
  case True
  then show ?thesis using assms
    by (cases ps) (auto simp: processCaptureBuffer_stop dev_ok_def intro!: exI [of _ "wRing w"])
next
  case False
  then show ?thesis
    using ring_puts_window [of "wRing w" "concat (map (packet_samples w) (takeWhile delivers ps))"] assms
    by (auto simp: process_puts dev_ok_def)
qed

lemma dev_read_wf:
  assumes "ring_wf (wRing w)"
  shows "dev_read buf w =
    (if \<not> wRunning w then ReadError
     else case ring_read (length buf) (wRing w) of
       None \<Rightarrow> Waiting
     | Some (out, r) \<Rightarrow> Reading (length buf) out (w\<lparr>wRing := r\<rparr>))"
proof (cases "ringAvailable (wRing w) < int (length buf)")
  case False
  then have "length buf \<le> ringWrite (wRing w) - ringRead (wRing w)" by (simp add: ringAvailable_def)
  then show ?thesis using False ring_copy_unread [OF assms] by (simp add: dev_read_def Read_def ring_read_def)
qed (simp add: dev_read_def Read_def ring_read_def)

lemma ring_read_wf:
  assumes "ring_wf r" and "ring_read n r = Some (out, r')"
  shows "length out = n \<and> ring_wf r'"
proof -
  have n: "n \<le> ringWrite r - ringRead r"
    using assms by (auto simp: ring_read_def ringAvailable_def ring_wf_def split: if_splits)
  then show ?thesis
    using assms ring_copy_unread [OF assms(1) n] by (auto simp: ring_read_def ring_wf_def split: if_splits)
qed

interpretation dev: audio_source wFormat dev_read dev_step dev_ok
proof unfold_locales
  fix w buf n out w'
  assume ok: "dev_ok w"
  then have wf: "ring_wf (wRing w)" by (simp add: dev_ok_def)
  show "dev_read buf w \<noteq> ReadPanic" by (auto simp: dev_read_wf [OF wf] split: option.split)
  assume "dev_read buf w = Reading n out w'"
  then show "(n = 0 \<or> n = length buf) \<and> length out = length buf \<and> dev_ok w' \<and> wFormat w' = wFormat w"
    using ok ring_read_wf [OF wf]
    by (auto simp: dev_read_wf [OF wf] dev_ok_def packed_def split: if_splits option.splits)
next
  fix w e
  assume ok: "dev_ok w"
  show "\<exists>w'. dev_step e w = Some w' \<and> dev_ok w' \<and> wFormat w' = wFormat w"
  proof (cases e)
    case (Packets ps)
    then show ?thesis using process_wf [OF ok, of ps] ok by (auto simp: dev_ok_def)
  next
    case Halt
    then show ?thesis using ok by (simp add: Stop_def dev_ok_def packed_def)
  qed
qed

section \<open>The test tone and the stub\<close>

text \<open>Nothing happens to a generated signal between two reads, but that it is stopped.\<close>

definition tone_reading :: "(fl \<Rightarrow> fl) \<Rightarrow> fl list \<Rightarrow> tone \<Rightarrow> tone reading" where
  "tone_reading sine buf t = (case tone_Read sine buf t of None \<Rightarrow> ReadPanic | Some (n, out, t) \<Rightarrow> Reading n out t)"

definition stub_reading :: "(fl \<Rightarrow> fl) \<Rightarrow> fl list \<Rightarrow> tone \<Rightarrow> tone reading" where
  "stub_reading sine buf t = (case stub_Read sine buf t of Inl e \<Rightarrow> ReadError | Inr (n, out, t) \<Rightarrow> Reading n out t)"

definition tone_halt :: "unit \<Rightarrow> tone \<Rightarrow> tone option" where
  "tone_halt u t = Some (tone_Stop t)"

definition stub_halt :: "unit \<Rightarrow> tone \<Rightarrow> tone option" where
  "stub_halt u t = Some (stub_Stop t)"

definition tone_ok :: "tone \<Rightarrow> bool" where
  "tone_ok t \<longleftrightarrow> 0 < afChannels (tFormat t)"

lemma length_tone_loop [simp]: "length (snd (tone_loop sine c inc i n phase buf)) = length buf"
  by (induction sine c inc i n phase buf rule: tone_loop.induct) (simp_all add: Let_def)

lemma length_stub_loop [simp]: "length (snd (stub_loop sine c inc i phase buf)) = length buf"
  by (induction sine c inc i phase buf rule: stub_loop.induct) (subst stub_loop.simps, simp add: Let_def)

interpretation tn: audio_source tFormat "tone_reading sine" tone_halt tone_ok
proof unfold_locales
  fix t buf n out t'
  assume ok: "tone_ok t"
  show "tone_reading sine buf t \<noteq> ReadPanic"
    using ok by (auto simp: tone_reading_def tone_Read_def tone_ok_def Let_def split: prod.split)
  assume "tone_reading sine buf t = Reading n out t'"
  then show "(n = 0 \<or> n = length buf) \<and> length out = length buf \<and> tone_ok t' \<and> tFormat t' = tFormat t"
    using ok by (auto simp: tone_reading_def tone_Read_def tone_ok_def Let_def split_beta split: if_splits)
qed (auto simp: tone_halt_def tone_Stop_def tone_ok_def)

interpretation st: audio_source tFormat "stub_reading sine" stub_halt tone_ok
proof unfold_locales
  fix t buf n out t'
  assume ok: "tone_ok t"
  show "stub_reading sine buf t \<noteq> ReadPanic"
    by (auto simp: stub_reading_def stub_Read_def Let_def split: prod.split sum.split)
  assume "stub_reading sine buf t = Reading n out t'"
  then show "(n = 0 \<or> n = length buf) \<and> length out = length buf \<and> tone_ok t' \<and> tFormat t' = tFormat t"
    using ok by (auto simp: stub_reading_def stub_Read_def tone_ok_def Let_def split_beta split: if_splits)
qed (auto simp: stub_halt_def stub_Stop_def tone_ok_def)


section \<open>What the device captures is what the loop reads\<close>

text \<open>The traffic on the ring in a run: nothing more moves once the capture is stopped.\<close>

fun dev_traffic :: "wasapi \<Rightarrow> nat \<Rightarrow> bool \<Rightarrow> dev_event live_op list \<Rightarrow> fl buf_op list" where
  "dev_traffic w n c [] = []"
| "dev_traffic w n c (ReadRound choice now # ops) = (if c then [] else [Take n]) @ dev_traffic w n c ops"
| "dev_traffic w n c (Arrive (Packets ps) # ops) =
     Put (concat (map (packet_samples w) (takeWhile delivers ps))) # dev_traffic w n c ops"
| "dev_traffic w n c (Arrive Halt # ops) = []"
| "dev_traffic w n c (SendNext # ops) = dev_traffic w n c ops"
| "dev_traffic w n c (CancelLoop # ops) = dev_traffic w n True ops"

lemma halted_quiet:
  assumes "\<not> wRunning w" and "wCaptureClient w = 0"
  shows "samples_read (live_path dev_read dev_step ops c buf w) = [] \<and>
    wRing (live_source dev_read dev_step ops c buf w) = wRing w"
  using assms
proof (induction ops arbitrary: c w)
  case (Cons op ops)
  have r: "dev_read buf w = ReadError" using Cons.prems by (simp add: dev_read_def Read_def)
  have p: "processCaptureBuffer ps w = Some ([], w)" for ps
    using Cons.prems by (cases ps) (simp_all add: processCaptureBuffer_stop)
  have s: "Stop w = ([], w)" using Cons.prems by (simp add: Stop_def)
  show ?case
  proof (cases op)
    case (Arrive e)
    then show ?thesis using Cons by (cases e) (simp_all add: p s)
  qed (use Cons r in simp_all)
qed simp

lemma dev_traffic_ring:
  assumes "wRunning w" and "wCaptureClient w \<noteq> 0" and "dev_ok w"
  shows "buf_run ring_puts ring_read (dev_traffic w (length buf) c ops) (wRing w) =
    Some (samples_read (live_path dev_read dev_step ops c buf w), wRing (live_source dev_read dev_step ops c buf w))"
  using assms
proof (induction ops arbitrary: c buf w)
  case (Cons op ops)
  have wf: "ring_wf (wRing w)" "packed w" using Cons.prems(3) by (simp_all add: dev_ok_def)
  have tr: "dev_traffic (w\<lparr>wRing := r\<rparr>) n c ops = dev_traffic w n c ops" for r n c
    by (induction w n c ops rule: dev_traffic.induct) simp_all
  note IH = Cons.IH [of "w\<lparr>wRing := r\<rparr>" for r, unfolded tr]
  show ?case
  proof (cases op)
    case (ReadRound choice now)
    show ?thesis
    proof (cases "\<not> c \<and> ring_read (length buf) (wRing w) \<noteq> None")
      case True
      then obtain out r where r: "ring_read (length buf) (wRing w) = Some (out, r)" by auto
      have "length out = length buf" "ring_wf r" using ring_read_wf [OF wf(1) r] by simp_all
      then show ?thesis
        using IH [of r out c] Cons.prems True ReadRound r by (simp add: dev_read_wf [OF wf(1)] dev_ok_def)
    qed (use Cons ReadRound in \<open>auto simp: dev_read_wf [OF wf(1)] split: option.splits\<close>)
  next
    case (Arrive e)
    show ?thesis
    proof (cases e)
      case (Packets ps)
      obtain r where r: "ring_puts (concat (map (packet_samples w) (takeWhile delivers ps))) (wRing w) = Some r" "ring_wf r"
        using ring_puts_window [OF wf(1)] by blast
      then show ?thesis
        using IH [of r buf c] Cons.prems Arrive Packets wf(2) by (simp add: process_puts dev_ok_def)
    next
      case Halt
      define w' where "w' = snd (Stop w)"
      have "\<not> wRunning w'" "wCaptureClient w' = 0" "wRing w' = wRing w"
        using Cons.prems(1) by (simp_all add: w'_def Stop_def)
      then show ?thesis
        using halted_quiet [of w'] by (simp add: Arrive Halt flip: w'_def)
    qed
  qed (use Cons in simp_all)
qed simp


section \<open>The generated signal\<close>

fun tone_rounds :: "'e live_op list \<Rightarrow> nat" where
  "tone_rounds [] = 0"
| "tone_rounds (ReadRound choice now # ops) = Suc (tone_rounds ops)"
| "tone_rounds (SendNext # ops) = tone_rounds ops"
| "tone_rounds (_ # ops) = 0"

lemma spread_phase_at:
  "spread c (tone_wave a sine inc phase n) @ spread c (tone_wave a sine inc (phase_at inc phase n) m) =
    spread c (tone_wave a sine inc phase (n + m))"
  by (simp add: tone_wave_add)

lemma cancelled_quiet: "samples_read (live_path rd ev ops True buf s) = []"
proof (induction ops arbitrary: s)
  case (Cons op ops)
  then show ?case by (cases op) (simp_all split: option.split)
qed simp

lemma stopped_tone_quiet:
  assumes "\<not> tRunning t"
  shows "samples_read (live_path (tone_reading sine) tone_halt ops c buf t) = []"
  using assms
proof (induction ops arbitrary: c buf t)
  case (Cons op ops)
  then show ?case
    by (cases op) (simp_all add: tone_reading_def tone_Read_def tone_halt_def tone_Stop_def)
qed simp

lemma tone_path_wave:
  assumes "tRunning t" and "tFormat t = \<lparr>afSampleRate = 48000, afChannels = c, afBitDepth = b\<rparr>" and "0 < c"
    and "length buf = n * c"
  shows "samples_read (live_path (tone_reading sine) tone_halt ops False buf t) =
    spread c (tone_wave (1 / 2) sine (phase_inc 48000) (tPhase t) (n * tone_rounds ops))"
  using assms(1,2,4)
proof (induction ops arbitrary: buf t)
  case Nil
  then show ?case by (simp add: tone_wave_def spread_def)
next
  case (Cons op ops)
  have nil: "spread c (tone_wave (1 / 2) sine inc phase 0) = []" for inc phase
    by (simp add: tone_wave_def spread_def)
  show ?case
  proof (cases op)
    case (ReadRound choice now)
    let ?wave = "spread c (tone_wave (1 / 2) sine (phase_inc 48000) (tPhase t) n)"
    let ?t = "t\<lparr>tPhase := phase_at (phase_inc 48000) (tPhase t) n\<rparr>"
    have "tone_reading sine buf t = Reading (n * c) ?wave ?t"
      using tone_Read_wave [of t sine buf] Cons.prems assms(3) by (simp add: tone_reading_def)
    moreover have "length ?wave = n * c" by (simp add: mult.commute)
    ultimately show ?thesis
      using Cons.IH [of ?t ?wave] Cons.prems ReadRound by (simp add: spread_phase_at)
  next
    case (Arrive e)
    have "tone_halt e t = Some (tone_Stop t)" "\<not> tRunning (tone_Stop t)" by (simp_all add: tone_halt_def tone_Stop_def)
    then show ?thesis using stopped_tone_quiet by (simp add: Arrive nil)
  next
    case CancelLoop
    then show ?thesis by (simp add: cancelled_quiet nil)
  qed (use Cons in simp)
qed


section \<open>Properties\<close>

lemma pcm16_append: "pcm16 unrep (xs @ ys) = pcm16 unrep xs @ pcm16 unrep ys"
  by (simp add: pcm16_def)

text \<open>On the stereo path the payloads of the frames are the samples read, one after the other.\<close>

lemma stereo_payloads:
  assumes "apDemuxer ap = None" and "\<forall>op \<in> set ops. full_read ap op"
  shows "concat (map fData (path_stream unrep ap ops p)) = pcm16 unrep (samples_read ops)"
  using assms
proof (induction unrep ap ops p rule: path_stream.induct)
  case (2 unrep ap choice n buf now ops p)
  then show ?case
    by (cases "n = 0") (auto simp: full_read_def round_frames_def pcm16_append split: prod.split)
qed (simp_all add: pcm16_def)

text \<open>What the device captures is what the loop reads and, encoded, hands to the sender.\<close>

lemma device_run:
  assumes "setup_audio (wFormat w) = Inr ap" and "start_live ap t w m = Some lv" and "idle m"
    and "wRunning w" and "wCaptureClient w \<noteq> 0" and "packed w" and "ring_inv (wRing w)"
    and "peak (dev_traffic w (length (lvBuf lv)) False ops) (length (ring_unread (wRing w))) \<le> ringSize (wRing w)"
    and "path = live_path dev_read dev_step ops False (lvBuf lv) w"
  shows "\<exists>sent lv' kept. run_live unrep ap dev_read dev_step ops lv = Some (sent, lv') \<and>
    samples_read path @ ring_unread (wRing (lvSource lv')) =
      ring_unread (wRing w) @ written (dev_traffic w (length (lvBuf lv)) False ops) \<and>
    sent @ queued (lvStream lv') = queued m @ kept \<and> subseq kept (path_stream unrep ap path (lvPipe lv)) \<and>
    (path_room (frames_per_round ap) path (length (queued m)) \<longrightarrow>
       kept = path_stream unrep ap path (lvPipe lv)) \<and>
    (apDemuxer ap = None \<longrightarrow> concat (map fData (path_stream unrep ap path (lvPipe lv))) = pcm16 unrep (samples_read path))"
proof -
  have ok: "dev_ok w" using assms(6,7) by (simp add: dev_ok_def ring_inv_def)
  have "length (lvBuf lv) = 480 * afChannels (apFormat ap)"
    using start_pipe_wf [of ap t] path_ok_setup [OF assms(1)] assms(2) by (auto simp: start_live_def)
  then have full: "\<forall>op \<in> set path. full_read ap op" unfolding assms(9) by (rule dev.path_full [OF ok])
  obtain r where "buf_run ring_puts ring_read (dev_traffic w (length (lvBuf lv)) False ops) (wRing w) =
      Some (fst (fifo_run (dev_traffic w (length (lvBuf lv)) False ops) (ring_unread (wRing w))), r)"
    "ring_unread r = snd (fifo_run (dev_traffic w (length (lvBuf lv)) False ops) (ring_unread (wRing w)))"
    using rb.run_refines [OF assms(7,8)] by blast
  then have "samples_read path @ ring_unread (wRing (live_source dev_read dev_step ops False (lvBuf lv) w)) =
      ring_unread (wRing w) @ written (dev_traffic w (length (lvBuf lv)) False ops)"
    using dev_traffic_ring [OF assms(4,5) ok, of "lvBuf lv" False ops]
      fifo_run_order [of "dev_traffic w (length (lvBuf lv)) False ops" "ring_unread (wRing w)"]
    by (simp add: assms(9))
  then show ?thesis
    using dev.live_delivers [OF assms(1-3) ok, of unrep ops] stereo_payloads [OF _ full] unfolding assms(9) by metis
qed

text \<open>
  C24: from the test tone to the sender. However its rounds and the sender interleave, nothing panics, and
  what the loop has read after \<open>k\<close> rounds is the first \<open>480 k\<close> samples of one sine wave, the same on both
  channels; the frames sent and queued carry those samples, encoded, in order, all of them unless the queue
  overflows.
\<close>

theorem test_tone_sent:
  assumes "t = tone_Start (NewTestToneCapture 48000 2)" and "setup_audio (tFormat t) = Inr ap"
    and "start_live ap now t m = Some lv" and "idle m"
    and "path = live_path (tone_reading sine) tone_halt ops False (lvBuf lv) t"
  shows "\<exists>sent lv' kept. run_live unrep ap (tone_reading sine) tone_halt ops lv = Some (sent, lv') \<and>
    samples_read path = spread 2 (tone_wave (1 / 2) sine (phase_inc 48000) (Fin 0) (480 * tone_rounds ops)) \<and>
    sent @ queued (lvStream lv') = queued m @ kept \<and> subseq kept (path_stream unrep ap path (lvPipe lv)) \<and>
    (path_room (frames_per_round ap) path (length (queued m)) \<longrightarrow>
       kept = path_stream unrep ap path (lvPipe lv)) \<and>
    concat (map fData (path_stream unrep ap path (lvPipe lv))) = pcm16 unrep (samples_read path)"
proof -
  have t: "tRunning t" "tFormat t = \<lparr>afSampleRate = 48000, afChannels = 2, afBitDepth = 32\<rparr>" "tPhase t = Fin 0" "tone_ok t"
    by (simp_all add: assms(1) tone_Start_def NewTestToneCapture_def tone_ok_def)
  have ap: "apDemuxer ap = None" "apFormat ap = tFormat t" using assms(2) by (auto simp: t(2) setup_audio_eq)
  have len: "length (lvBuf lv) = 480 * 2"
    using start_pipe_wf [of ap now] path_ok_setup [OF assms(2)] assms(3) t(2) by (auto simp: start_live_def)
  have "\<forall>op \<in> set path. full_read ap op"
    unfolding assms(5) using len by (intro tn.path_full [OF t(4)]) (simp add: ap(2) t(2))
  then have "concat (map fData (path_stream unrep ap path (lvPipe lv))) = pcm16 unrep (samples_read path)"
    by (rule stereo_payloads [OF ap(1)])
  moreover have "samples_read path = spread 2 (tone_wave (1 / 2) sine (phase_inc 48000) (Fin 0) (480 * tone_rounds ops))"
    using tone_path_wave [OF t(1,2) _ len] by (simp add: assms(5) t(3))
  ultimately show ?thesis
    using tn.live_delivers [OF assms(2-4) t(4), where sine = sine and unrep = unrep and ops = ops] unfolding assms(5) by blast
qed


text \<open>A read that waits, a packet, a read, a frame sent, a stop, and a read after it.\<close>

definition wit_ops :: "dev_event live_op list" where
  "wit_ops = [ReadRound (\<lambda>_. None) 10007, Arrive (Packets [wit_packet16]), ReadRound (\<lambda>_. None) 10010, SendNext,
     Arrive Halt, ReadRound (\<lambda>_. None) 20010, CancelLoop]"

definition wit_live :: "'s \<Rightarrow> 's live" where
  "wit_live s = \<lparr>lvSource = s, lvBuf = replicate 960 (Fin 0), lvPipe = wit_pipe, lvCancelled = False, lvStream = sm_NewManager\<rparr>"

lemma wit_live: "start_live wit_path 7 s sm_NewManager = Some (wit_live s)"
  by (simp add: start_live_def wit_pipe wit_live_def)

theorem test_tone_sent_witness:
  "\<exists>sent lv' kept. run_live (\<lambda>_. 0) wit_path (tone_reading (\<lambda>x. x)) tone_halt
      [ReadRound (\<lambda>_. None) 10007, SendNext, ReadRound (\<lambda>_. None) 20007, Arrive (), ReadRound (\<lambda>_. None) 30007]
      (wit_live (tone_Start (NewTestToneCapture 48000 2))) = Some (sent, lv') \<and>
    samples_read (live_path (tone_reading (\<lambda>x. x)) tone_halt
      [ReadRound (\<lambda>_. None) 10007, SendNext, ReadRound (\<lambda>_. None) 20007, Arrive (), ReadRound (\<lambda>_. None) 30007]
      False (replicate 960 (Fin 0)) (tone_Start (NewTestToneCapture 48000 2))) =
      spread 2 (tone_wave (1 / 2) (\<lambda>x. x) (phase_inc 48000) (Fin 0) 960) \<and>
    sent @ queued (lvStream lv') = kept"
proof -
  let ?t = "tone_Start (NewTestToneCapture 48000 2)"
  let ?ops = "[ReadRound (\<lambda>_. None) 10007, SendNext, ReadRound (\<lambda>_. None) 20007, Arrive (), ReadRound (\<lambda>_. None) 30007]"
  have "setup_audio (tFormat ?t) = Inr wit_path"
    using wit_path by (simp add: tone_Start_def NewTestToneCapture_def wit_audio_def)
  moreover have "queued sm_NewManager = []" by (simp add: queued_def sm_NewManager_def)
  moreover have "480 * tone_rounds ?ops = 960" by simp
  moreover have "lvBuf (wit_live ?t) = replicate 960 (Fin 0)" by (simp add: wit_live_def)
  ultimately show ?thesis
    using test_tone_sent [OF refl _ wit_live sm_NewManager_idle refl, where unrep = "\<lambda>_. 0" and sine = "\<lambda>x. x" and ops = ?ops]
    by (metis append_Nil)
qed

end
