(* ===== verification/Platform.thy ===== *)
theory Platform
  imports Bytes
begin

text \<open>
  The parts of the server that only talk to the platform: the Windows QoS handle
  (\<^verbatim>\<open>internal/stream/qos_windows.go\<close>), the mDNS service (\<^verbatim>\<open>internal/discovery/mdns.go\<close>) and the choice
  of a network address (\<^verbatim>\<open>internal/discovery/qrcode.go\<close>). What the system answers is an input, the calls that
  reach it are an output.
\<close>

section \<open>QoS\<close>

text \<open>\<open>None\<close> is the nil manager of a disabled QoS; a handle is a number, 0 once it is closed.\<close>

type_synonym qos = "nat option"

datatype qos_call = CreateHandle | AddSocketToFlow nat | CloseQosHandle nat

text \<open>The library loads or not; \<^verbatim>\<open>QOSCreateHandle\<close> answers a result, 0 for a failure, and a handle.\<close>

definition NewQOSManager :: "bool \<Rightarrow> nat \<times> nat \<Rightarrow> qos_call list \<times> qos" where
  "NewQOSManager loads create =
     (if \<not> loads then ([], None)
      else if fst create = 0 then ([CreateHandle], None)
      else ([CreateHandle], Some (snd create)))"

datatype qos_error = SyscallConnFailed | ControlFailed | FlowFailed

text \<open>\<^verbatim>\<open>SyscallConn\<close> works or not, then \<^verbatim>\<open>Control\<close> runs the call, whose result is 0 for a failure, or fails itself.\<close>

definition AddUDPSocketToVoiceFlow :: "bool \<Rightarrow> bool \<Rightarrow> nat \<Rightarrow> qos \<Rightarrow> qos_call list \<times> qos_error option" where
  "AddUDPSocketToVoiceFlow sysConn control ret qm =
     (case qm of
        None \<Rightarrow> ([], None)
      | Some handle \<Rightarrow>
          if handle = 0 then ([], None)
          else if \<not> sysConn then ([], Some SyscallConnFailed)
          else if \<not> control then ([], Some ControlFailed)
          else ([AddSocketToFlow handle], if ret = 0 then Some FlowFailed else None))"

definition qos_Close :: "qos \<Rightarrow> qos_call list \<times> qos" where
  "qos_Close qm =
     (case qm of
        None \<Rightarrow> ([], None)
      | Some handle \<Rightarrow> if handle = 0 then ([], qm) else ([CloseQosHandle handle], Some 0))"

text \<open>\<^verbatim>\<open>NewManager\<close> of the stream package only logs a failure to mark the socket.\<close>

definition stream_qos :: "bool \<Rightarrow> nat \<times> nat \<Rightarrow> bool \<Rightarrow> bool \<Rightarrow> nat \<Rightarrow> qos_call list \<times> qos" where
  "stream_qos loads create sysConn control ret =
     (let (calls, qm) = NewQOSManager loads create
      in (calls @ fst (AddUDPSocketToVoiceFlow sysConn control ret qm), qm))"

section \<open>The mDNS service\<close>

record mdns_request =
  mrInstance :: string
  mrService :: string
  mrDomain :: string
  mrPort :: int
  mrText :: "string list"

definition ServiceType :: string where
  "ServiceType = ''_soundswarm._tcp''"

definition ServiceDomain :: string where
  "ServiceDomain = ''local.''"

text \<open>\<open>register\<close> stands for \<^verbatim>\<open>zeroconf.Register\<close>, which gives a server or fails.\<close>

definition NewMDNSServer ::
  "(mdns_request \<Rightarrow> 'h option) \<Rightarrow> string \<Rightarrow> int \<Rightarrow> string \<Rightarrow> 'h option" where
  "NewMDNSServer register osHostname port sessionID =
     (let hostname = (if osHostname = [] then ''soundswarm-server'' else osHostname)
      in register
        \<lparr>mrInstance = hostname, mrService = ServiceType, mrDomain = ServiceDomain, mrPort = port,
         mrText = [''session='' @ sessionID, ''version=4'']\<rparr>)"

text \<open>The servers on which \<^verbatim>\<open>Shutdown\<close> is called; the field may be nil.\<close>

definition mdns_Stop :: "'h option \<Rightarrow> 'h list" where
  "mdns_Stop m = (case m of None \<Rightarrow> [] | Some server \<Rightarrow> [server])"

text \<open>
  \<^verbatim>\<open>DiscoverServers\<close>: the resolver sends the entries it finds into a channel of ten, a goroutine appends them
  to the results, and the caller returns the results as they are once the context is done. The operations
  of the two goroutines until then are a schedule; a send into a full channel waits.
\<close>

datatype 'e discover_op = Found 'e | Collect

record 'e discovery =
  dcChan :: "'e list"
  dcResults :: "'e list"

fun discover_step :: "'e discover_op \<Rightarrow> 'e discovery \<Rightarrow> 'e discovery" where
  "discover_step (Found e) d = (if length (dcChan d) < 10 then d\<lparr>dcChan := dcChan d @ [e]\<rparr> else d)"
| "discover_step Collect d =
     (case dcChan d of
        [] \<Rightarrow> d
      | e # es \<Rightarrow> d\<lparr>dcChan := es, dcResults := dcResults d @ [e]\<rparr>)"

datatype discover_error = CreateResolver | Browse

definition DiscoverServers :: "bool \<Rightarrow> bool \<Rightarrow> 'e discover_op list \<Rightarrow> discover_error + 'e list" where
  "DiscoverServers resolver browse ops =
     (if \<not> resolver then Inl CreateResolver
      else if \<not> browse then Inl Browse
      else Inr (dcResults (fold discover_step ops \<lparr>dcChan = [], dcResults = []\<rparr>)))"

section \<open>Addresses\<close>

datatype net_addr = IPNet "byte list" | OtherAddr

text \<open>\<^verbatim>\<open>To4\<close> of the standard library: four bytes, or an IPv4 address mapped into sixteen.\<close>

definition To4 :: "byte list \<Rightarrow> byte list option" where
  "To4 ip =
     (if length ip = 4 then Some ip
      else if length ip = 16 \<and> take 10 ip = replicate 10 0 \<and> ip ! 10 = 0xff \<and> ip ! 11 = 0xff then Some (drop 12 ip)
      else None)"

text \<open>A byte and an IPv4 address in decimal, as \<^verbatim>\<open>IP.String\<close> writes them.\<close>

definition digit :: "nat \<Rightarrow> char" where
  "digit n = char_of (48 + n)"

definition show_byte :: "byte \<Rightarrow> string" where
  "show_byte b =
     (let n = unat b
      in if n < 10 then [digit n]
         else if n < 100 then [digit (n div 10), digit (n mod 10)]
         else [digit (n div 100), digit (n div 10 mod 10), digit (n mod 10)])"

fun show_ip :: "byte list \<Rightarrow> string" where
  "show_ip [] = []"
| "show_ip [b] = show_byte b"
| "show_ip (b # bs) = show_byte b @ ''.'' @ show_ip bs"

fun first_ipv4 :: "net_addr list \<Rightarrow> string option" where
  "first_ipv4 [] = None"
| "first_ipv4 (OtherAddr # as) = first_ipv4 as"
| "first_ipv4 (IPNet ip # as) =
     (case To4 ip of
        Some ip \<Rightarrow> Some (show_ip ip)
      | None \<Rightarrow> first_ipv4 as)"

datatype iface_error = InterfaceNotFound string | NoAddrs string | NoIPv4 string

text \<open>The interface, if there is one, answers its addresses or an error.\<close>

definition GetLocalIPForInterface :: "(string \<Rightarrow> net_addr list option option) \<Rightarrow> string \<Rightarrow> iface_error + string" where
  "GetLocalIPForInterface interfaces ifaceName =
     (case interfaces ifaceName of
        None \<Rightarrow> Inl (InterfaceNotFound ifaceName)
      | Some None \<Rightarrow> Inl (NoAddrs ifaceName)
      | Some (Some addrs) \<Rightarrow>
          (case first_ipv4 addrs of Some ip \<Rightarrow> Inr ip | None \<Rightarrow> Inl (NoIPv4 ifaceName)))"

text \<open>\<open>dial\<close> is the local address the system would use for an outbound packet.\<close>

definition GetLocalIP :: "byte list option \<Rightarrow> string option" where
  "GetLocalIP dial = map_option show_ip dial"

section \<open>Properties\<close>

fun close_times :: "nat \<Rightarrow> qos \<Rightarrow> qos_call list" where
  "close_times 0 qm = []"
| "close_times (Suc n) qm = (let (calls, qm) = qos_Close qm in calls @ close_times n qm)"

lemma close_closed: "close_times n None = []" "close_times n (Some 0) = []"
  by (induction n) (simp_all add: qos_Close_def)

text \<open>
  Over any calls the QoS handle is closed at most once and never used again: opening, marking the
  socket and closing any number of times reach the library as create, mark, close, each at most once, and a
  library that is missing or fails is not called again.
\<close>

theorem qos_handle_once:
  "(case stream_qos loads (ret, h) sysConn control r of (calls, qm) \<Rightarrow> calls @ close_times n qm) =
    (if \<not> loads then []
     else if ret = 0 then [CreateHandle]
     else CreateHandle # (if h \<noteq> 0 \<and> sysConn \<and> control then [AddSocketToFlow h] else []) @
       (if h \<noteq> 0 \<and> 0 < n then [CloseQosHandle h] else []))"
  by (cases n) (auto simp: stream_qos_def NewQOSManager_def AddUDPSocketToVoiceFlow_def close_closed qos_Close_def)

text \<open>The address of an interface is its first IPv4 address, mapped ones included.\<close>

lemma first_ipv4_first:
  "first_ipv4 addrs =
    (case List.map_filter (\<lambda>a. case a of IPNet ip \<Rightarrow> To4 ip | OtherAddr \<Rightarrow> None) addrs of
       [] \<Rightarrow> None | ip # _ \<Rightarrow> Some (show_ip ip))"
  by (induction addrs rule: first_ipv4.induct) (auto simp: map_filter_simps split: option.split)

lemma first_ipv4_example:
  "first_ipv4 [OtherAddr, IPNet (replicate 16 0), IPNet (replicate 10 0 @ [0xff, 0xff, 192, 168, 0, 7]), IPNet [10, 0, 0, 1]] =
    Some ''192.168.0.7''"
  by code_simp

text \<open>The entries the channel took in a schedule.\<close>

fun entries_sent :: "'e discover_op list \<Rightarrow> 'e discovery \<Rightarrow> 'e list" where
  "entries_sent [] d = []"
| "entries_sent (Found e # ops) d =
     (if length (dcChan d) < 10 then [e] else []) @ entries_sent ops (discover_step (Found e) d)"
| "entries_sent (Collect # ops) d = entries_sent ops (discover_step Collect d)"

lemma discover_conserves:
  "dcResults (fold discover_step ops d) @ dcChan (fold discover_step ops d) =
    dcResults d @ dcChan d @ entries_sent ops d"
  by (induction ops d rule: entries_sent.induct) (auto split: list.splits)

lemma discover_chan_bound: "length (dcChan d) \<le> 10 \<Longrightarrow> length (dcChan (fold discover_step ops d)) \<le> 10"
proof (induction ops arbitrary: d)
  case (Cons op ops)
  have "length (dcChan (discover_step op d)) \<le> 10"
    using Cons.prems by (cases op) (auto split: list.split)
  then show ?case using Cons.IH by simp
qed simp

text \<open>
  What \<^verbatim>\<open>DiscoverServers\<close> returns are the entries sent, in order, less at most the last ten of them: those
  the goroutine has not taken out of the channel when the context ends are lost.
\<close>

theorem discovery_loses_at_most_ten:
  "\<exists>found lost. DiscoverServers True True ops = Inr found \<and>
    entries_sent ops \<lparr>dcChan = [], dcResults = []\<rparr> = found @ lost \<and> length lost \<le> 10"
  using discover_conserves [of ops "\<lparr>dcChan = [], dcResults = []\<rparr>"]
    discover_chan_bound [of "\<lparr>dcChan = [], dcResults = []\<rparr>" ops]
  by (simp add: DiscoverServers_def) metis

lemma discovery_loses: "DiscoverServers True True [Found (7 :: nat), Found 8, Collect] = Inr [7]"
  by (simp add: DiscoverServers_def)

end
