(* ===== verification/Startup.thy ===== *)
theory Startup
  imports System Live Platform
begin

text \<open>
  \<^verbatim>\<open>cmd/soundswarm-server/main.go\<close>, \<^verbatim>\<open>main\<close>: the order in which the components start, where each failure ends
  the process, and the deferred calls that take them down; with the \<^verbatim>\<open>Start\<close>, \<^verbatim>\<open>Stop\<close> and \<^verbatim>\<open>acceptLoop\<close> of the
  TCP server. Flags, logging and the signal are not modelled; the outcomes of the system are inputs.
\<close>

section \<open>The listener of the control server\<close>

record tcp_server =
  tcPort :: int
  tcListening :: bool
  tcQuit :: bool

definition NewTCPServer :: "int \<Rightarrow> tcp_server" where
  "NewTCPServer port = \<lparr>tcPort = port, tcListening = False, tcQuit = False\<rparr>"

definition tcp_Start :: "bool \<Rightarrow> tcp_server \<Rightarrow> tcp_server option" where
  "tcp_Start listen s = (if listen then Some (s\<lparr>tcListening := True\<rparr>) else None)"

text \<open>Closing \<^verbatim>\<open>quit\<close> twice panics.\<close>

definition tcp_Stop :: "tcp_server \<Rightarrow> tcp_server option" where
  "tcp_Stop s = (if tcQuit s then None else Some (s\<lparr>tcQuit := True, tcListening := False\<rparr>))"

datatype accept = Accepted conn | AcceptFailed

text \<open>
  The results of \<^verbatim>\<open>Accept\<close>, each with whether \<^verbatim>\<open>quit\<close> is closed by then; the result is the connections given to
  handlers and whether the loop has returned. An error while the server runs is logged and the call repeated.
\<close>

fun acceptLoop :: "(accept \<times> bool) list \<Rightarrow> conn list \<times> bool" where
  "acceptLoop [] = ([], False)"
| "acceptLoop ((Accepted cn, quit) # rs) = (let (cns, returned) = acceptLoop rs in (cn # cns, returned))"
| "acceptLoop ((AcceptFailed, quit) # rs) = (if quit then ([], True) else acceptLoop rs)"

section \<open>The source of the audio\<close>

datatype source = ToneSource tone | DeviceSource wasapi

primrec src_format :: "source \<Rightarrow> audio_format" where
  "src_format (ToneSource t) = tFormat t"
| "src_format (DeviceSource w) = wFormat w"

primrec src_latency :: "source \<Rightarrow> fl" where
  "src_latency (ToneSource t) = tone_LoopbackLatencyMs"
| "src_latency (DeviceSource w) = wLatency w"

primrec src_Stop :: "source \<Rightarrow> com_call list \<times> source" where
  "src_Stop (ToneSource t) = ([], ToneSource (tone_Stop t))"
| "src_Stop (DeviceSource w) = (let (calls, w) = Stop w in (calls, DeviceSource w))"

primrec src_running :: "source \<Rightarrow> bool" where
  "src_running (ToneSource t) = tRunning t"
| "src_running (DeviceSource w) = wRunning w"

primrec src_objects :: "source \<Rightarrow> nat list" where
  "src_objects (ToneSource t) = []"
| "src_objects (DeviceSource w) = com_objects w"

definition src_read :: "(fl \<Rightarrow> fl) \<Rightarrow> fl list \<Rightarrow> source \<Rightarrow> source reading" where
  "src_read sine buf src =
     (case src of
        ToneSource t \<Rightarrow> map_reading ToneSource (tone_reading sine buf t)
      | DeviceSource w \<Rightarrow> map_reading DeviceSource (dev_read buf w))"

text \<open>What happens at the source between two reads: packets concern a device only.\<close>

primrec src_step :: "dev_event \<Rightarrow> source \<Rightarrow> source option" where
  "src_step (Packets ps) src =
     (case src of
        ToneSource t \<Rightarrow> Some (ToneSource t)
      | DeviceSource w \<Rightarrow> map_option DeviceSource (dev_step (Packets ps) w))"
| "src_step Halt src = Some (snd (src_Stop src))"

definition src_ok :: "source \<Rightarrow> bool" where
  "src_ok src = (case src of ToneSource t \<Rightarrow> tone_ok t | DeviceSource w \<Rightarrow> dev_ok w)"

definition start_source :: "bool \<Rightarrow> start_env \<Rightarrow> start_error option \<times> source" where
  "start_source testTone env =
     (if testTone then (None, ToneSource (tone_Start (NewTestToneCapture 48000 2)))
      else let (err, w) = Start env NewWASAPICapture in (err, DeviceSource w))"

section \<open>Starting\<close>

record boot_env =
  btRandID :: "byte list option"
  btRandToken :: "byte list option"
  btNow :: go_time
  btPort :: int
  btUdpPort :: i64
  btTestTone :: bool
  btUdpListen :: bool
  btDevice :: start_env
  btHostname :: string
  btRegister :: "mdns_request \<Rightarrow> nat option"
  btTcpListen :: bool
  btClock :: i64

datatype deferred = StopSessions | StopStream | StopSource | StopMdns | StopHttp | StopTcp | CancelPipeline

datatype main_error =
    SessionError sess_error | StreamError | CaptureError start_error | AudioError setup_error | TcpError

record running =
  rnSys :: sys
  rnSource :: source
  rnPath :: audio_path
  rnPipe :: "(pipeline \<times> nat) option"
  rnMdns :: "nat option"
  rnHttp :: bool
  rnTcp :: tcp_server
  rnCancelled :: bool
  rnDefers :: "deferred list"
  rnCom :: "com_call list"

text \<open>
  A failure is \<^verbatim>\<open>os.Exit(1)\<close>, which runs no deferred call: the second component lists those skipped. The HTTP
  server's \<^verbatim>\<open>Start\<close> only launches a goroutine and never fails.
\<close>

definition main :: "boot_env \<Rightarrow> (main_error \<times> deferred list) + running" where
  "main env =
     (case CreateSession (btRandID env) (btRandToken env) (btNow env) NewManager of
        (Inl e, mgr) \<Rightarrow> Inl (SessionError e, [StopSessions])
      | (Inr u, mgr) \<Rightarrow>
          if \<not> btUdpListen env then Inl (StreamError, [StopSessions])
          else
            let (err, src) = start_source (btTestTone env) (btDevice env)
            in case err of
                 Some e \<Rightarrow> Inl (CaptureError e, [StopSessions, StopStream])
               | None \<Rightarrow>
                   (case setup_audio (src_format src) of
                      Inl e \<Rightarrow> Inl (AudioError e, [StopSessions, StopStream, StopSource])
                    | Inr path \<Rightarrow>
                        let s = the (mSession mgr);
                            mdns = NewMDNSServer (btRegister env) (btHostname env) (btPort env + 1) (sID s);
                            defers = [StopSessions, StopStream, StopSource] @
                              (if mdns \<noteq> None then [StopMdns] else []) @ [StopHttp]
                        in case tcp_Start (btTcpListen env) (NewTCPServer (btPort env + 1)) of
                             None \<Rightarrow> Inl (TcpError, defers)
                           | Some tcp \<Rightarrow>
                               Inr \<lparr>rnSys = start_sys s (src_latency src) (btUdpPort env) (btPort env),
                                 rnSource = src, rnPath = path, rnPipe = start_pipeline path (btClock env),
                                 rnMdns = mdns, rnHttp = True, rnTcp = tcp, rnCancelled = False,
                                 rnDefers = defers @ [StopTcp, CancelPipeline], rnCom = []\<rparr>))"

section \<open>Shutting down\<close>

definition on_server :: "(server \<Rightarrow> server) \<Rightarrow> running \<Rightarrow> running" where
  "on_server f rn = rn\<lparr>rnSys := (rnSys rn)\<lparr>yServer := f (yServer (rnSys rn))\<rparr>\<rparr>"

text \<open>\<open>None\<close> is a panic.\<close>

primrec run_deferred :: "deferred \<Rightarrow> running \<Rightarrow> running option" where
  "run_deferred StopSessions rn =
     map_option (\<lambda>m. on_server (svMgr_update (\<lambda>_. m)) rn) (mgr_Stop (svMgr (yServer (rnSys rn))))"
| "run_deferred StopStream rn =
     map_option (\<lambda>m. on_server (svStream_update (\<lambda>_. m)) rn) (sm_Stop (svStream (yServer (rnSys rn))))"
| "run_deferred StopSource rn =
     (let (calls, src) = src_Stop (rnSource rn) in Some (rn\<lparr>rnSource := src, rnCom := rnCom rn @ calls\<rparr>))"
| "run_deferred StopMdns rn = Some (rn\<lparr>rnMdns := None\<rparr>)"
| "run_deferred StopHttp rn = Some (rn\<lparr>rnHttp := False\<rparr>)"
| "run_deferred StopTcp rn = map_option (\<lambda>t. rn\<lparr>rnTcp := t\<rparr>) (tcp_Stop (rnTcp rn))"
| "run_deferred CancelPipeline rn = Some (rn\<lparr>rnCancelled := True\<rparr>)"

fun run_all :: "deferred list \<Rightarrow> running \<Rightarrow> running option" where
  "run_all [] rn = Some rn"
| "run_all (d # ds) rn = (case run_deferred d rn of None \<Rightarrow> None | Some rn \<Rightarrow> run_all ds rn)"

text \<open>After the signal \<^verbatim>\<open>main\<close> returns; the deferred calls run in the reverse order.\<close>

definition shutdown :: "running \<Rightarrow> running option" where
  "shutdown rn = run_all (rev (rnDefers rn)) rn"

section \<open>Lemmas\<close>

lemma CreateSession_Inr:
  assumes "CreateSession r1 r2 now NewManager = (Inr u, mgr)"
  shows "\<exists>s. mgr = NewManager\<lparr>mSession := Some s\<rparr> \<and> sess_inv s \<and> sess_ids s = {} \<and> store s = []"
  using assms
  by (auto simp: CreateSession_def NewSession_def sess_inv_def sess_ids_def split: sum.splits option.splits)

lemma main_Inr:
  assumes "main env = Inr rn"
  shows "\<exists>s src. CreateSession (btRandID env) (btRandToken env) (btNow env) NewManager = (Inr (), NewManager\<lparr>mSession := Some s\<rparr>) \<and>
    btUdpListen env \<and> btTcpListen env \<and> start_source (btTestTone env) (btDevice env) = (None, src) \<and>
    setup_audio (src_format src) = Inr (rnPath rn) \<and> sess_inv s \<and> sess_ids s = {} \<and> store s = [] \<and>
    rnSource rn = src \<and> rnSys rn = start_sys s (src_latency src) (btUdpPort env) (btPort env) \<and>
    rnPipe rn = start_pipeline (rnPath rn) (btClock env) \<and>
    rnTcp rn = \<lparr>tcPort = btPort env + 1, tcListening = True, tcQuit = False\<rparr> \<and> rnHttp rn \<and> \<not> rnCancelled rn \<and> rnCom rn = [] \<and>
    rnMdns rn = NewMDNSServer (btRegister env) (btHostname env) (btPort env + 1) (sID s) \<and>
    rnDefers rn = [StopSessions, StopStream, StopSource] @ (if rnMdns rn \<noteq> None then [StopMdns] else []) @
      [StopHttp, StopTcp, CancelPipeline]"
proof -
  obtain r mgr where c: "CreateSession (btRandID env) (btRandToken env) (btNow env) NewManager = (r, mgr)" by force
  then obtain u where r: "r = Inr u" using assms by (cases r) (auto simp: main_def)
  obtain s where s: "mgr = NewManager\<lparr>mSession := Some s\<rparr>" "sess_inv s" "sess_ids s = {}" "store s = []"
    using CreateSession_Inr [OF c [unfolded r]] by blast
  obtain err src where st: "start_source (btTestTone env) (btDevice env) = (err, src)" by force
  show ?thesis
    using assms s(2-4) c
    by (auto simp: main_def r s(1) st Let_def tcp_Start_def NewTCPServer_def split: if_splits option.splits sum.splits)
qed

lemma Stop_objects: "wRunning w \<Longrightarrow> released (fst (Stop w)) = com_objects w \<and> com_objects (snd (Stop w)) = [] \<and> \<not> wRunning (snd (Stop w))"
  by (simp add: Stop_def com_objects_def released_def release_if_def map_filter_simps)

lemma map_reading_eq_ReadPanic: "map_reading f r = ReadPanic \<longleftrightarrow> r = ReadPanic"
  by (cases r) auto

lemma map_reading_eq_Reading:
  "map_reading f r = Reading n out s' \<longleftrightarrow> (\<exists>s. r = Reading n out s \<and> s' = f s)"
  by (cases r) auto

lemma start_source_running: "start_source tone env = (None, src) \<Longrightarrow> src_running src"
  by (auto simp: start_source_def Start_def tone_Start_def measureLoopbackLatency_def Let_def NewWASAPICapture_def
      split: if_splits prod.splits)

lemma src_Stop_objects:
  "src_running src \<Longrightarrow> released (fst (src_Stop src)) = src_objects src \<and> src_objects (snd (src_Stop src)) = [] \<and>
     \<not> src_running (snd (src_Stop src))"
  using Stop_objects by (cases src) (simp_all add: released_def map_filter_simps tone_Stop_def split_beta)

text \<open>Whatever \<^verbatim>\<open>main\<close> chose implements the interface of the audio loop.\<close>

interpretation src: audio_source src_format "src_read sine" src_step src_ok
proof unfold_locales
  fix src buf n out src'
  assume ok: "src_ok src"
  show "src_read sine buf src \<noteq> ReadPanic"
    using ok tn.read_total dev.read_total
    by (cases src) (simp_all add: src_read_def src_ok_def map_reading_eq_ReadPanic)
  assume r: "src_read sine buf src = Reading n out src'"
  show "(n = 0 \<or> n = length buf) \<and> length out = length buf \<and> src_ok src' \<and> src_format src' = src_format src"
  proof (cases src)
    case (ToneSource t)
    then obtain t' where "tone_reading sine buf t = Reading n out t'" "src' = ToneSource t'"
      using r by (auto simp: src_read_def map_reading_eq_Reading)
    then show ?thesis using tn.read_full [of t sine buf n out t'] ok by (simp add: ToneSource src_ok_def)
  next
    case (DeviceSource w)
    then obtain w' where "dev_read buf w = Reading n out w'" "src' = DeviceSource w'"
      using r by (auto simp: src_read_def map_reading_eq_Reading)
    then show ?thesis using dev.read_full [of w buf n out w'] ok by (simp add: DeviceSource src_ok_def)
  qed
next
  fix src e
  assume ok: "src_ok src"
  show "\<exists>src'. src_step e src = Some src' \<and> src_ok src' \<and> src_format src' = src_format src"
  proof (cases src)
    case (ToneSource t)
    then show ?thesis using ok by (cases e) (simp_all add: src_ok_def tone_ok_def tone_Stop_def)
  next
    case (DeviceSource w)
    then obtain w' where "dev_step e w = Some w'" "dev_ok w'" "wFormat w' = wFormat w"
      using dev.event_ok [of w e] ok by (auto simp: src_ok_def)
    moreover from this have "src_step e src = Some (DeviceSource w')"
      by (cases e) (auto simp: DeviceSource split_beta)
    ultimately show ?thesis by (simp add: DeviceSource src_ok_def)
  qed
qed

lemma start_source_ok:
  assumes "start_source tone env = (None, src)" and "setup_audio (src_format src) = Inr ap"
    and "case src of ToneSource t \<Rightarrow> True | DeviceSource w \<Rightarrow> packed w"
  shows "src_ok src"
proof (cases src)
  case (DeviceSource w)
  have "0 < ringSize (wRing w) \<and> ring_wf (wRing w)"
    using assms(1,2) by (auto simp: start_source_def DeviceSource Start_def set_format_def measureLoopbackLatency_def
        Let_def NewWASAPICapture_def setup_audio_eq new_ring_def ring_wf_def split: if_splits prod.splits)
  then show ?thesis using assms(3) by (simp add: src_ok_def DeviceSource dev_ok_def)
next
  case (ToneSource t)
  then show ?thesis using assms(1)
    by (auto simp: src_ok_def start_source_def tone_Start_def NewTestToneCapture_def tone_ok_def split: if_splits prod.splits)
qed

section \<open>Properties\<close>

text \<open>
  \<^verbatim>\<open>main\<close> gets the server running exactly when random numbers are available, the UDP socket and the TCP
  listener open, and the source starts with stereo, 5.1 or 7.1 at 48 kHz. Neither mDNS nor the HTTP port
  matters: without them the server runs, unannounced or without its pages.
\<close>

theorem startup_requires:
  "(\<exists>rn. main env = Inr rn) \<longleftrightarrow>
    (\<exists>s. CreateSession (btRandID env) (btRandToken env) (btNow env) NewManager = (Inr (), NewManager\<lparr>mSession := Some s\<rparr>)) \<and>
    btUdpListen env \<and> btTcpListen env \<and>
    (\<exists>src. start_source (btTestTone env) (btDevice env) = (None, src) \<and>
      afChannels (src_format src) \<in> {2, 6, 8} \<and> afSampleRate (src_format src) = 48000)"
    (is "?l \<longleftrightarrow> ?r")
proof
  assume ?l
  then obtain rn where "main env = Inr rn" by blast
  from main_Inr [OF this] show ?r by (auto simp: setup_audio_eq split: if_splits)
next
  assume ?r
  then show ?l by (auto simp: main_def Let_def setup_audio_eq tcp_Start_def)
qed

text \<open>
  C22: what is running then. The system starts in a state that satisfies its invariant, with an idle sender;
  the source runs and the audio path fits its format; the pipeline has its buffers; and the laptop's
  compensation is the latency the source reports.
\<close>

theorem startup_state:
  assumes "main env = Inr rn"
  shows "sys_inv (rnSys rn) \<and> idle (svStream (yServer (rnSys rn))) \<and> src_running (rnSource rn) \<and>
    setup_audio (src_format (rnSource rn)) = Inr (rnPath rn) \<and>
    (\<exists>p. rnPipe rn = Some (p, 480 * afChannels (src_format (rnSource rn))) \<and> pipe_wf (rnPath rn) p) \<and>
    loopbackLatencyMs (svLatency (yServer (rnSys rn))) = src_latency (rnSource rn)"
proof -
  obtain s src where m: "start_source (btTestTone env) (btDevice env) = (None, src)" "rnSource rn = src"
    "setup_audio (src_format src) = Inr (rnPath rn)" "sess_inv s" "sess_ids s = {}" "store s = []"
    "rnSys rn = start_sys s (src_latency src) (btUdpPort env) (btPort env)" "rnPipe rn = start_pipeline (rnPath rn) (btClock env)"
    using main_Inr [OF assms] by blast
  have "path_ok (rnPath rn)" "apFormat (rnPath rn) = src_format src" using path_ok_setup [OF m(3)] by simp_all
  then have "\<exists>p. rnPipe rn = Some (p, 480 * afChannels (src_format src)) \<and> pipe_wf (rnPath rn) p"
    using start_pipe_wf [of "rnPath rn" "btClock env"] m(8) by auto
  moreover have "sys_inv (rnSys rn)" unfolding m(7) by (rule start_sys_inv [OF m(5,6,4)])
  moreover have "idle (svStream (yServer (rnSys rn)))"
    by (simp add: m(7) start_sys_def start_server_def StartReceiver_def idle_def sm_inv_def held_def sm_NewManager_def)
  moreover have "loopbackLatencyMs (svLatency (yServer (rnSys rn))) = src_latency src"
    by (simp add: m(7) start_sys_def start_server_def SetLoopbackCompensation_def)
  ultimately show ?thesis using m(2,3) start_source_running [OF m(1)] by blast
qed

text \<open>
  From power-on to the queue. Once \<^verbatim>\<open>main\<close> has started, with the test tone or with a device whose block size
  fits its channels, the audio loop never panics: whatever packets arrive, whenever the loop reads, the
  sender sends, or the loop or the source is stopped, the sender stays ready, and what has been sent and
  what is queued are frames of the buffers read, stamped by the running clock, in order, each at most once.
\<close>

theorem started_server_plays:
  assumes "main env = Inr rn" and "case rnSource rn of ToneSource t \<Rightarrow> True | DeviceSource w \<Rightarrow> packed w"
  shows "\<exists>lv. start_live (rnPath rn) (btClock env) (rnSource rn) (svStream (yServer (rnSys rn))) = Some lv \<and>
    (\<forall>sine unrep ops. \<exists>sent lv'. run_live unrep (rnPath rn) (src_read sine) src_step ops lv = Some (sent, lv') \<and>
      idle (lvStream lv') \<and>
      subseq (sent @ queued (lvStream lv'))
        (path_stream unrep (rnPath rn) (live_path (src_read sine) src_step ops False (lvBuf lv) (rnSource rn)) (lvPipe lv)))"
proof -
  obtain s where m: "start_source (btTestTone env) (btDevice env) = (None, rnSource rn)"
    "setup_audio (src_format (rnSource rn)) = Inr (rnPath rn)"
    "rnSys rn = start_sys s (src_latency (rnSource rn)) (btUdpPort env) (btPort env)"
    using main_Inr [OF assms(1)] by blast
  let ?m = "svStream (yServer (rnSys rn))"
  have i: "idle ?m" "queued ?m = []"
    by (simp_all add: m(3) start_sys_def start_server_def StartReceiver_def idle_def sm_inv_def held_def sm_NewManager_def queued_def)
  obtain lv where lv: "start_live (rnPath rn) (btClock env) (rnSource rn) ?m = Some lv"
    using start_pipe_wf [of "rnPath rn" "btClock env"] path_ok_setup [OF m(2)] by (auto simp: start_live_def)
  have "\<exists>sent lv'. run_live unrep (rnPath rn) (src_read sine) src_step ops lv = Some (sent, lv') \<and> idle (lvStream lv') \<and>
      subseq (sent @ queued (lvStream lv'))
        (path_stream unrep (rnPath rn) (live_path (src_read sine) src_step ops False (lvBuf lv) (rnSource rn)) (lvPipe lv))"
    for sine unrep ops
    using src.live_delivers [OF m(2) lv i(1) start_source_ok [OF m(1,2) assms(2)], where sine = sine and unrep = unrep and ops = ops]
    unfolding i(2) by auto
  then show ?thesis using lv by blast
qed


text \<open>The test tone on free ports, without mDNS.\<close>

definition wit_env :: boot_env where
  "wit_env =
     \<lparr>btRandID = Some (replicate 6 0), btRandToken = Some (replicate 32 1), btNow = 0, btPort = 8080, btUdpPort = 8082,
      btTestTone = True, btUdpListen = True,
      btDevice = \<lparr>seCoInit = None, seCreate = (0, 1), seEndpoint = (0, 2), seActivate = (0, 3),
        seMixFormat = (0, wMix NewWASAPICapture), seInitialize = 0, seEvent = 5, seService = (0, 4), seStart = 0, seLatency = (0, 0)\<rparr>,
      btHostname = [], btRegister = (\<lambda>_. None), btTcpListen = True, btClock = 9\<rparr>"

lemma wit_env_starts: "\<exists>rn. main wit_env = Inr rn"
proof -
  obtain s where "NewSession (Some (replicate 6 0)) (Some (replicate 32 1)) 0 = Inr s"
    by (simp add: NewSession_def generateSessionID_def generateToken_def)
  then have "CreateSession (Some (replicate 6 0)) (Some (replicate 32 1)) 0 NewManager = (Inr (), NewManager\<lparr>mSession := Some s\<rparr>)"
    by (simp add: CreateSession_def)
  then show ?thesis
    by (auto simp: main_def wit_env_def Let_def start_source_def tone_Start_def NewTestToneCapture_def
        setup_audio_eq tcp_Start_def)
qed

theorem started_server_plays_witness:
  "\<exists>rn lv. main wit_env = Inr rn \<and>
    start_live (rnPath rn) 9 (rnSource rn) (svStream (yServer (rnSys rn))) = Some lv \<and>
    (\<exists>sent lv'. run_live (\<lambda>_. 0) (rnPath rn) (src_read (\<lambda>x. x)) src_step
      [ReadRound (\<lambda>_. None) 10009, SendNext, Arrive Halt] lv = Some (sent, lv') \<and> idle (lvStream lv'))"
proof -
  obtain rn where rn: "main wit_env = Inr rn" using wit_env_starts by blast
  have "start_source True (btDevice wit_env) = (None, rnSource rn)"
    using main_Inr [OF rn] by (auto simp: wit_env_def)
  then have "case rnSource rn of ToneSource t \<Rightarrow> True | DeviceSource w \<Rightarrow> packed w"
    by (cases "rnSource rn") (auto simp: start_source_def)
  moreover have "btClock wit_env = 9" by (simp add: wit_env_def)
  ultimately show ?thesis using started_server_plays [OF rn] rn by metis
qed

theorem startup_state_witness:
  "\<exists>rn. main wit_env = Inr rn \<and> sys_inv (rnSys rn) \<and> idle (svStream (yServer (rnSys rn))) \<and>
    setup_audio (src_format (rnSource rn)) = Inr (rnPath rn)"
  using wit_env_starts startup_state [of wit_env] by blast


end
