(* ===== verification/World.thy ===== *)
theory World
  imports Startup
begin

text \<open>
  The whole server: the system of connections, handlers and sender of \<^verbatim>\<open>System\<close>, and next to it the audio loop
  of \<^verbatim>\<open>Live\<close> with its source. They share the stream manager; everything else is apart. The loop's rounds are
  sequences of \<^verbatim>\<open>SendAudio\<close> calls, that is, of steps the system has anyway, so what holds of the reachable
  states of the system holds with the loop running.
\<close>

section \<open>States and steps\<close>

record world =
  wdSys :: sys
  wdLoop :: "source live"

text \<open>The loop sees the stream manager as it is now.\<close>

definition loop_view :: "world \<Rightarrow> source live" where
  "loop_view w = (wdLoop w)\<lparr>lvStream := svStream (yServer (wdSys w))\<rparr>"

definition with_loop :: "source live \<Rightarrow> world \<Rightarrow> world" where
  "with_loop lv w = \<lparr>wdSys = on_stream (lvStream lv) (wdSys w), wdLoop = lv\<rparr>"

inductive world_step ::
  "(byte list \<Rightarrow> json option) \<Rightarrow> (fl \<Rightarrow> int) \<Rightarrow> (fl \<Rightarrow> fl) \<Rightarrow> audio_path \<Rightarrow> world \<Rightarrow> world \<Rightarrow> bool"
  for scan unrep sine ap where
  system: "sys_step scan (wdSys w) y \<Longrightarrow> world_step scan unrep sine ap w (w\<lparr>wdSys := y\<rparr>)"
| round: "live_round unrep ap (src_read sine) choice now (loop_view w) = Some (logs, lv) \<Longrightarrow>
    world_step scan unrep sine ap w (with_loop lv w)"
| source: "src_step e (lvSource (wdLoop w)) = Some src \<Longrightarrow>
    world_step scan unrep sine ap w (w\<lparr>wdLoop := (wdLoop w)\<lparr>lvSource := src\<rparr>\<rparr>)"
| cancel: "world_step scan unrep sine ap w (w\<lparr>wdLoop := (wdLoop w)\<lparr>lvCancelled := True\<rparr>\<rparr>)"

inductive world_reach ::
  "(byte list \<Rightarrow> json option) \<Rightarrow> (fl \<Rightarrow> int) \<Rightarrow> (fl \<Rightarrow> fl) \<Rightarrow> audio_path \<Rightarrow> world \<Rightarrow> world \<Rightarrow> bool"
  for scan unrep sine ap w0 where
  start: "world_reach scan unrep sine ap w0 w0"
| step: "world_reach scan unrep sine ap w0 w \<Longrightarrow> world_step scan unrep sine ap w w' \<Longrightarrow>
    world_reach scan unrep sine ap w0 w'"

inductive_cases world_stepE: "world_step scan unrep sine ap w w'"

text \<open>The state \<^verbatim>\<open>main\<close> leaves when it starts to wait for the signal.\<close>

definition start_world :: "i64 \<Rightarrow> running \<Rightarrow> world option" where
  "start_world clock rn =
     map_option (\<lambda>lv. \<lparr>wdSys = rnSys rn, wdLoop = lv\<rparr>)
       (start_live (rnPath rn) clock (rnSource rn) (svStream (yServer (rnSys rn))))"

section \<open>A round of the loop as steps of the system\<close>

lemma sys_reach_trans: "sys_reach scan y1 y2 \<Longrightarrow> sys_reach scan y0 y1 \<Longrightarrow> sys_reach scan y0 y2"
  by (induction rule: sys_reach.induct) (auto intro: sys_reach.intros)

lemma on_stream_simps [simp]:
  "svStream (yServer (on_stream m y)) = m" "on_stream m' (on_stream m y) = on_stream m' y"
  "on_stream (svStream (yServer y)) y = y"
  by (simp_all add: on_stream_def)

lemma SendAudio_reach:
  "SendAudio choice data channel ts codec (svStream (yServer y)) = Some m \<Longrightarrow> sys_reach scan y (on_stream m y)"
  by (auto intro: sys_reach.intros sys_step.audio)

lemma send_channels_reach:
  "send_channels unrep choice encs lay ts i bufs m = Some (logs, m') \<Longrightarrow>
   sys_reach scan (on_stream m y) (on_stream m' y)"
proof (induction bufs arbitrary: i m logs)
  case Nil
  then show ?case by (simp add: sys_reach.start)
next
  case (Cons buf bufs)
  then show ?case
    using SendAudio_reach [where y = "on_stream m y" for m, simplified] sys_reach_trans
    by (fastforce simp: split: sum.splits option.splits if_splits)
qed

lemma pipeline_round_reach:
  assumes "pipeline_round unrep choice ap rd now p (svStream (yServer y)) = Some (logs, p', m')"
  shows "sys_reach scan y (on_stream m' y)"
proof -
  have start: "sys_reach scan y y" by (rule sys_reach.start)
  show ?thesis
    using assms send_channels_reach [where y = y and m = "svStream (yServer y)" and scan = scan] SendAudio_reach [of _ _ _ _ _ y _ scan] start
    by (fastforce simp: pipeline_round_def surround_frame_def stereo_frame_def Let_def
        split: cap_read.splits if_splits prod.splits option.splits sum.splits list.splits)
qed

lemma live_round_reach:
  assumes "live_round unrep ap rd choice now (loop_view w) = Some (logs, lv)"
  shows "sys_reach scan (wdSys w) (on_stream (lvStream lv) (wdSys w))"
  using assms pipeline_round_reach [of unrep choice ap _ now _ "wdSys w" _ _ _ scan]
  by (auto simp: live_round_def loop_view_def sys_reach.start split: if_splits reading.splits)

lemma world_step_reach:
  "world_step scan unrep sine ap w w' \<Longrightarrow> sys_reach scan (wdSys w) (wdSys w')"
  by (induction rule: world_step.induct)
    (auto simp: with_loop_def intro: sys_reach.intros live_round_reach)

lemma world_reach_sys: "world_reach scan unrep sine ap w0 w \<Longrightarrow> sys_reach scan (wdSys w0) (wdSys w)"
  by (induction rule: world_reach.induct) (blast intro: sys_reach.start sys_reach_trans world_step_reach)+

section \<open>The loop in the world\<close>

definition loop_inv :: "audio_path \<Rightarrow> source live \<Rightarrow> bool" where
  "loop_inv ap lv \<longleftrightarrow> path_ok ap \<and> src_ok (lvSource lv) \<and> src_format (lvSource lv) = apFormat ap \<and> pipe_wf ap (lvPipe lv) \<and>
     length (lvBuf lv) = 480 * afChannels (apFormat ap)"

text \<open>A round with any stream manager that satisfies its invariant does not panic, and keeps the loop ready.\<close>

lemma live_round_total:
  assumes inv: "loop_inv ap lv" and m: "sm_inv (lvStream lv)"
  shows "\<exists>logs lv'. live_round unrep ap (src_read sine) choice now lv = Some (logs, lv') \<and> loop_inv ap lv' \<and>
    set logs \<subseteq> {ReadFailed, NothingRead}"
proof -
  have ok: "path_ok ap" "src_ok (lvSource lv)" "pipe_wf ap (lvPipe lv)" "length (lvBuf lv) = 480 * afChannels (apFormat ap)"
    using inv by (simp_all add: loop_inv_def)
  show ?thesis
  proof (cases "src_read sine (lvBuf lv) (lvSource lv)")
    case ReadPanic
    then show ?thesis using src.read_total [OF ok(2), of sine "lvBuf lv"] by simp
  next
    case (Reading n out s)
    note full = src.read_full [OF ok(2) Reading]
    have inv': "loop_inv ap (lv\<lparr>lvSource := s, lvBuf := out, lvPipe := p, lvStream := m\<rparr>)" if "pipe_wf ap p" for p m
      using inv full that by (simp add: loop_inv_def)
    show ?thesis
    proof (cases "n = 0")
      case True
      then show ?thesis using inv inv' [OF ok(3), of "lvStream lv"] Reading
        by (cases "lvCancelled lv") (auto simp: live_round_def pipeline_round_def)
    next
      case False
      then have "n = length out" "length out = 480 * afChannels (apFormat ap)" using full ok(4) by auto
      then obtain p' m' where "pipeline_round unrep choice ap (CapRead n out) now (lvPipe lv) (lvStream lv) = Some ([], p', m')"
        "pipe_wf ap p'"
        using round_queues_frames [of "apFormat ap" ap "lvPipe lv" "lvStream lv" out unrep choice now] ok(1,3) m
        unfolding path_ok_def by auto
      then show ?thesis using inv inv' Reading
        by (cases "lvCancelled lv") (auto simp: live_round_def)
    qed
  qed (use inv in \<open>auto simp: live_round_def pipeline_round_def loop_inv_def\<close>)
qed

lemma world_step_inv:
  assumes "world_step scan unrep sine ap w w'" and "sys_inv (wdSys w)" and "loop_inv ap (wdLoop w)"
  shows "loop_inv ap (wdLoop w')"
  using assms(1)
proof cases
  case (round choice now logs lv)
  have "sm_inv (lvStream (loop_view w))" using assms(2) by (simp add: loop_view_def) (rule sys_invE)
  moreover have "loop_inv ap (loop_view w)" using assms(3) by (simp add: loop_inv_def loop_view_def)
  ultimately show ?thesis using live_round_total [of ap "loop_view w" unrep sine choice now] round by (auto simp: with_loop_def)
next
  case (source e src)
  then show ?thesis using assms(3) src.event_ok [of "lvSource (wdLoop w)" e] by (auto simp: loop_inv_def)
qed (use assms(3) in \<open>auto simp: loop_inv_def\<close>)

lemma world_reach_inv:
  "world_reach scan unrep sine ap w0 w \<Longrightarrow> sys_inv (wdSys w0) \<Longrightarrow> loop_inv ap (wdLoop w0) \<Longrightarrow>
   sys_inv (wdSys w) \<and> loop_inv ap (wdLoop w)"
  by (induction rule: world_reach.induct)
    (use world_step_inv sys_reach_inv world_step_reach in blast)+


section \<open>Properties\<close>




end
