(* ===== verification/Delivery.thy ===== *)
theory Delivery
  imports Live
begin

text \<open>
  From the device to the phone: the datagrams the sender writes in a run of the audio loop
  (\<^verbatim>\<open>runAudioPipeline\<close> of \<^verbatim>\<open>main.go\<close> with \<^verbatim>\<open>broadcastLoop\<close> of \<^verbatim>\<open>internal/stream/manager.go\<close>), and what a client
  makes of them. The composition of \<^verbatim>\<open>Live\<close>, \<^verbatim>\<open>Pipeline\<close> and \<^verbatim>\<open>Stream\<close>.
\<close>

section \<open>The datagrams of a run\<close>

text \<open>What an iteration of the sender writes; the writes succeed.\<close>

definition wire_out :: "stream_mgr \<Rightarrow> datagram list" where
  "wire_out m =
     (case loop_recv False m of
        None \<Rightarrow> []
      | Some m1 \<Rightarrow> fst (loop_send (\<lambda>_. False) (gm_keys (smClients m1)) m1))"

fun live_wire ::
  "(fl \<Rightarrow> int) \<Rightarrow> audio_path \<Rightarrow> (fl list \<Rightarrow> 's \<Rightarrow> 's reading) \<Rightarrow> ('e \<Rightarrow> 's \<Rightarrow> 's option) \<Rightarrow> 'e live_op list \<Rightarrow>
   's live \<Rightarrow> datagram list" where
  "live_wire unrep ap rd ev [] lv = []"
| "live_wire unrep ap rd ev (ReadRound choice now # ops) lv =
     (case live_round unrep ap rd choice now lv of
        None \<Rightarrow> []
      | Some (logs, lv) \<Rightarrow> live_wire unrep ap rd ev ops lv)"
| "live_wire unrep ap rd ev (Arrive e # ops) lv =
     (case ev e (lvSource lv) of
        None \<Rightarrow> []
      | Some s \<Rightarrow> live_wire unrep ap rd ev ops (lv\<lparr>lvSource := s\<rparr>))"
| "live_wire unrep ap rd ev (SendNext # ops) lv =
     (case iteration (lvStream lv) of
        None \<Rightarrow> live_wire unrep ap rd ev ops lv
      | Some (f, m) \<Rightarrow> wire_out (lvStream lv) @ live_wire unrep ap rd ev ops (lv\<lparr>lvStream := m\<rparr>))"
| "live_wire unrep ap rd ev (CancelLoop # ops) lv = live_wire unrep ap rd ev ops (lv\<lparr>lvCancelled := True\<rparr>)"

text \<open>The same over the path that the loop reads.\<close>

fun path_wire ::
  "(fl \<Rightarrow> int) \<Rightarrow> audio_path \<Rightarrow> path_op list \<Rightarrow> pipeline \<Rightarrow> stream_mgr \<Rightarrow> datagram list" where
  "path_wire unrep ap [] p m = []"
| "path_wire unrep ap (Round choice rd now # ops) p m =
     (case pipeline_round unrep choice ap rd now p m of
        None \<Rightarrow> []
      | Some (logs, p, m) \<Rightarrow> path_wire unrep ap ops p m)"
| "path_wire unrep ap (Deliver # ops) p m =
     (case iteration m of
        None \<Rightarrow> path_wire unrep ap ops p m
      | Some (f, m') \<Rightarrow> wire_out m @ path_wire unrep ap ops p m')"

context audio_source
begin

lemma live_wire_path:
  assumes "ok (lvSource lv)"
  shows "live_wire unrep ap rd ev ops lv =
    path_wire unrep ap (live_path rd ev ops (lvCancelled lv) (lvBuf lv) (lvSource lv)) (lvPipe lv) (lvStream lv)"
  using assms
proof (induction ops arbitrary: lv)
  case (Cons op ops)
  then show ?case
  proof (cases op)
    case (ReadRound choice now)
    show ?thesis
    proof (cases "lvCancelled lv")
      case False
      then show ?thesis
        using Cons ReadRound read_total [OF Cons.prems, of "lvBuf lv"] read_full [OF Cons.prems, of "lvBuf lv"]
        by (auto simp: live_round_def split: reading.split option.split)
    qed (use Cons ReadRound in \<open>simp add: live_round_def\<close>)
  next
    case (Arrive e)
    then show ?thesis using Cons event_ok [OF Cons.prems, of e] by auto
  next
    case SendNext
    then show ?thesis using Cons by (simp split: option.split)
  qed simp
qed simp

end

section \<open>What a client receives\<close>

text \<open>A client with an address of its own.\<close>

definition reachable_client :: "stream_mgr \<Rightarrow> string \<Rightarrow> client_stream \<Rightarrow> bool" where
  "reachable_client m k cs \<longleftrightarrow> gm_get (smClients m) k = Some cs \<and>
     (\<forall>j cj. gm_get (smClients m) j = Some cj \<longrightarrow> j \<noteq> k \<longrightarrow> csAddr cj \<noteq> csAddr cs)"

definition received :: "udp_addr \<Rightarrow> datagram list \<Rightarrow> (proto_error + packet) list" where
  "received a ds = map (unmarshal \<circ> snd) [d \<leftarrow> ds. fst d = a]"

lemma received_append: "received a (ds @ ds') = received a ds @ received a ds'"
  by (simp add: received_def)

lemma iteration_wire:
  assumes m: "idle m" and i: "iteration m = Some (f, m')" and k: "reachable_client m k cs"
  shows "received (csAddr cs) (wire_out m) = (if wants (fChannel f) cs then map Inr (numbered (csSeqNum cs) [f]) else []) \<and>
    reachable_client m' k (if wants (fChannel f) cs then bump cs else cs)"
proof -
  obtain p ps where q: "smQueue m = p # ps"
    using m i by (auto simp: iteration_def loop_recv_def idle_def split: list.splits)
  define m1 where "m1 = m\<lparr>smQueue := ps, smSending := Some p\<rparr>"
  have m1: "loop_recv False m = Some m1" using m q by (simp add: loop_recv_def idle_def m1_def)
  have inv: "sm_inv m1" using m q by (auto simp: idle_def sm_inv_def held_def m1_def)
  have f: "f = frame_of (smBufs m1) p" and m': "m' = snd (loop_send (\<lambda>_. False) (gm_keys (smClients m1)) m1)"
    using i m1 by (auto simp: iteration_def in_flight_def m1_def)
  have len: "length (fData f) \<le> MaxPayloadSize" using inv by (auto simp: f frame_of_def sm_inv_def m1_def)
  have cl: "smClients m1 = smClients m" by (simp add: m1_def)
  have ro: "range_order (smClients m1) (gm_keys (smClients m1))" using inv by (simp add: range_order_keys sm_inv_wf)
  obtain ds m2 where d: "doSendAudio (\<lambda>_. False) (gm_keys (smClients m1)) (fData f) (fChannel f) (fTimestamp f) (fCodec f) m1 = (ds, m2)"
    by force
  have "sm_inv m2 \<and> gm_get (smClients m2) =
      (\<lambda>k. map_option (\<lambda>cs. if wants (fChannel f) cs then bump cs else cs) (gm_get (smClients m) k)) \<and>
      received (csAddr cs) ds = (if wants (fChannel f) cs then map Inr (numbered (csSeqNum cs) [f]) else [])"
    using one_datagram [OF inv ro len, of k cs "\<lambda>_. False"] k d
    by (simp add: cl reachable_client_def received_def)
  moreover have "wire_out m = ds \<and> smClients m' = smClients m2"
    using d by (simp add: wire_out_def m1 m' loop_send_def f frame_of_def m1_def Let_def pool_put_def)
  ultimately show ?thesis using k by (auto simp: reachable_client_def split: if_splits)
qed

text \<open>
  Over any run of the path a client receives the frames sent that it wants, in order, numbered on from its
  last number.
\<close>

lemma path_wire_numbered:
  assumes "path_ok ap" and "pipe_wf ap p" and "idle m" and "\<forall>op \<in> set ops. full_read ap op"
    and "reachable_client m k cs" and "run_path unrep ap ops p m = Some (sent, p', m')"
  shows "received (csAddr cs) (path_wire unrep ap ops p m) =
    map Inr (numbered (csSeqNum cs) [f \<leftarrow> sent. wants (fChannel f) cs])"
  using assms
proof (induction arbitrary: cs sent rule: path_induct [where unrep = unrep])
  case (Nil p m)
  then show ?case by (simp add: received_def)
next
  case (Empty ops p m)
  then show ?case by simp
next
  case (Get f m1 ops p m)
  define cs1 where "cs1 = (if wants (fChannel f) cs then bump cs else cs)"
  have w: "received (csAddr cs) (wire_out m) = (if wants (fChannel f) cs then map Inr (numbered (csSeqNum cs) [f]) else [])"
    "reachable_client m1 k cs1"
    using iteration_wire [OF Get(2,1,5)] by (simp_all add: cs1_def)
  have cs1: "csAddr cs1 = csAddr cs" "wants ch cs1 = wants ch cs"
    "csSeqNum cs1 = (if wants (fChannel f) cs then csSeqNum cs + 1 else csSeqNum cs)" for ch
    by (simp_all add: cs1_def) (simp add: bump_def)
  obtain rest where r: "sent = f # rest" "run_path unrep ap ops p m1 = Some (rest, p', m')" using Get(1,6) by auto
  then have "received (csAddr cs) (path_wire unrep ap ops p m1) =
      map Inr (numbered (csSeqNum cs1) [f \<leftarrow> rest. wants (fChannel f) cs])"
    using Get(4) [OF w(2)] by (simp add: cs1)
  then show ?case using w(1) by (simp add: Get(1) received_append r(1) cs1)
next
  case (Skip choice rd now ops p m)
  then show ?case by (cases rd) (simp_all add: pipeline_round_def)
next
  case (Put choice n buf now p1 m1 ops p m)
  then have "reachable_client m1 k cs" by (simp add: reachable_client_def undisturbed_def)
  then show ?case using Put by simp
qed


section \<open>The samples of one speaker\<close>

lemma channel_of_append:
  assumes "c dvd length xs" and "k < c"
  shows "channel_of c k (xs @ ys) = channel_of c k xs @ channel_of c k ys"
proof -
  obtain n where n: "length xs = c * n" using assms(1) by (auto simp: dvd_def)
  have front: "map (\<lambda>s. (xs @ ys) ! (s * c + k)) [0..<n] = map (\<lambda>s. xs ! (s * c + k)) [0..<n]"
  proof (rule map_cong [OF refl])
    fix s assume "s \<in> set [0..<n]"
    then have "Suc s * c \<le> n * c" by (intro mult_le_mono1) simp
    then have "s * c + k < length xs" using assms(2) by (simp add: n mult.commute)
    then show "(xs @ ys) ! (s * c + k) = xs ! (s * c + k)" by (simp add: nth_append)
  qed
  have "(s + n) * c + k = length xs + (s * c + k)" for s by (simp add: n algebra_simps)
  then have rear: "(xs @ ys) ! ((s + n) * c + k) = ys ! (s * c + k)" for s
    by (simp only: nth_append_length_plus)
  have len: "length (xs @ ys) div c = n + length ys div c" "length xs div c = n" using assms(2) by (simp_all add: n)
  have split: "[0..<n + length ys div c] = [0..<n] @ map (\<lambda>i. i + n) [0..<length ys div c]"
    unfolding map_add_upt by (subst upt_add_eq_append [of 0 n]) (simp_all only: le0 add.commute)
  show ?thesis by (simp only: channel_of_def len split map_append front map_map comp_def rear)
qed

text \<open>The frames of a surround path with the mask of one speaker carry the samples of that speaker.\<close>

lemma round_frames_speaker:
  assumes "apDemuxer ap = Some lay" and "distinct (mapping lay)" and "length (mapping lay) = channels lay" and "k < channels lay"
  shows "[f \<leftarrow> round_frames unrep ap ts buf. fChannel f = mapping lay ! k] =
    [\<lparr>fData = pcm16 unrep (channel_of (channels lay) k buf), fChannel = mapping lay ! k, fTimestamp = ts, fCodec = CodecPCM\<rparr>]"
proof -
  have "[j \<leftarrow> [0..<channels lay]. mapping lay ! j = mapping lay ! k] = [k]"
    using filter_single [of "[0..<channels lay]" "\<lambda>j. mapping lay ! j = mapping lay ! k" k] assms(2-4)
    by (simp add: nth_eq_iff_index_eq)
  then show ?thesis by (simp add: round_frames_def assms(1) filter_map comp_def)
qed

lemma speaker_payloads:
  assumes "apDemuxer ap = Some lay" and "distinct (mapping lay)" and "length (mapping lay) = channels lay" and "k < channels lay"
    and "channels lay = afChannels (apFormat ap)" and "\<forall>op \<in> set ops. full_read ap op"
  shows "concat (map fData [f \<leftarrow> path_stream unrep ap ops p. fChannel f = mapping lay ! k]) =
    pcm16 unrep (channel_of (channels lay) k (samples_read ops))"
  using assms
proof (induction unrep ap ops p rule: path_stream.induct)
  case (2 unrep ap choice n buf now ops p)
  show ?case
  proof (cases "n = 0")
    case False
    then have "length buf = n" "channels lay dvd length buf" using 2(3-) by (auto simp: full_read_def)
    then show ?thesis using 2 False
      by (auto simp: round_frames_speaker pcm16_append channel_of_append split: prod.split)
  qed (use 2 in auto)
qed (simp_all add: pcm16_def channel_of_def)

lemma path_stream_masks:
  assumes "apDemuxer ap = Some lay" and "length (mapping lay) = channels lay" and "f \<in> set (path_stream unrep ap ops p)"
  shows "fChannel f \<in> set (mapping lay)"
  using assms
  by (induction unrep ap ops p rule: path_stream.induct) (auto simp: round_frames_def split: if_splits prod.splits)

lemma numbered_fields:
  "map Payload (numbered s fs) = map fData fs"
  "map SeqNum (numbered s fs) = map (\<lambda>i. s + of_nat (Suc i)) [0..<length fs]"
proof -
  show "map Payload (numbered s fs) = map fData fs"
    by (induction s fs rule: numbered.induct) (simp_all add: audio_packet_def)
  show "map SeqNum (numbered s fs) = map (\<lambda>i. s + of_nat (Suc i)) [0..<length fs]"
    by (induction s fs rule: numbered.induct)
      (simp_all add: audio_packet_def upt_conv_Cons map_Suc_upt [symmetric] comp_def add.assoc del: upt_Suc)
qed

text \<open>What a client receives in a run of the loop over the device.\<close>

lemma client_receives:
  assumes "setup_audio (wFormat w) = Inr ap" and "start_live ap t w m = Some lv" and "idle m" and ok: "dev_ok w"
    and "reachable_client m k cs" and r: "run_live unrep ap dev_read dev_step ops lv = Some (sent, lv')"
  shows "received (csAddr cs) (live_wire unrep ap dev_read dev_step ops lv) =
      map Inr (numbered (csSeqNum cs) [f \<leftarrow> sent. wants (fChannel f) cs]) \<and>
    (\<forall>op \<in> set (live_path dev_read dev_step ops False (lvBuf lv) w). full_read ap op)"
proof -
  have path_ok: "path_ok ap" using path_ok_setup [OF assms(1)] by simp
  obtain p where lv: "lvSource lv = w" "lvPipe lv = p" "lvStream lv = m" "\<not> lvCancelled lv" "pipe_wf ap p"
    "length (lvBuf lv) = 480 * afChannels (apFormat ap)"
    using start_pipe_wf [OF path_ok, of t] assms(2) by (auto simp: start_live_def)
  define path where "path = live_path dev_read dev_step ops False (lvBuf lv) w"
  have full: "\<forall>op \<in> set path. full_read ap op" unfolding path_def by (rule dev.path_full [OF ok lv(6)])
  have "run_path unrep ap path p m = Some (sent, lvPipe lv', lvStream lv')"
    using dev.run_live_path [of lv unrep ap ops, symmetric] ok r lv by (auto simp: path_def)
  then have "received (csAddr cs) (path_wire unrep ap path p m) =
      map Inr (numbered (csSeqNum cs) [f \<leftarrow> sent. wants (fChannel f) cs])"
    by (rule path_wire_numbered [OF path_ok lv(5) assms(3) full assms(5)])
  then show ?thesis using full dev.live_wire_path [of lv unrep ap ops] ok lv by (auto simp: path_def)
qed

section \<open>From the device to the phone\<close>

text \<open>
  C4: what a phone hears is what the device captured. Whatever the interleaving of the capture goroutine's
  wake-ups, the loop's rounds, the sender's iterations, a cancellation and a stop, as long as the reader is
  never more than the ring behind: nothing panics; what the loop reads, followed by what is still in the
  ring, is exactly what the device delivered, in order; the frames sent and queued are those of the buffers
  read, in order, all of them unless the queue overflows, and on the stereo path their payloads are those
  samples, encoded. A client with its own address gets, as packets that parse, exactly the frames sent that
  it wants, in order and numbered on without a gap.
\<close>

theorem client_hears_capture:
  assumes "setup_audio (wFormat w) = Inr ap" and "start_live ap t w m = Some lv" and "idle m"
    and "wRunning w" and "wCaptureClient w \<noteq> 0" and "packed w" and "ring_inv (wRing w)"
    and "peak (dev_traffic w (length (lvBuf lv)) False ops) (length (ring_unread (wRing w))) \<le> ringSize (wRing w)"
    and "path = live_path dev_read dev_step ops False (lvBuf lv) w" and "reachable_client m k cs"
  shows "\<exists>sent lv' kept. run_live unrep ap dev_read dev_step ops lv = Some (sent, lv') \<and>
    samples_read path @ ring_unread (wRing (lvSource lv')) =
      ring_unread (wRing w) @ written (dev_traffic w (length (lvBuf lv)) False ops) \<and>
    sent @ queued (lvStream lv') = queued m @ kept \<and> subseq kept (path_stream unrep ap path (lvPipe lv)) \<and>
    (path_room (frames_per_round ap) path (length (queued m)) \<longrightarrow> kept = path_stream unrep ap path (lvPipe lv)) \<and>
    (apDemuxer ap = None \<longrightarrow> concat (map fData (path_stream unrep ap path (lvPipe lv))) = pcm16 unrep (samples_read path)) \<and>
    received (csAddr cs) (live_wire unrep ap dev_read dev_step ops lv) =
      map Inr (numbered (csSeqNum cs) [f \<leftarrow> sent. wants (fChannel f) cs])"
proof -
  have ok: "dev_ok w" using assms(6,7) by (simp add: dev_ok_def ring_inv_def)
  show ?thesis
    using device_run [OF assms(1-9), of unrep] client_receives [OF assms(1-3) ok assms(10), of unrep ops] by fastforce
qed

text \<open>One phone; a read that waits, a packet, a read, a frame sent, a stop, and a read after it.\<close>

definition wit_phone :: client_stream where
  "wit_phone = new_stream ''a'' \<lparr>IP = [10, 0, 0, 1], Port = 5004\<rparr> ChannelFrontLeft"

definition wit_stream :: stream_mgr where
  "wit_stream = sm_AddClient ''a'' (\<lparr>IP = [10, 0, 0, 1], Port = 5004\<rparr>, ChannelFrontLeft) sm_NewManager"

definition wit_started :: "wasapi live" where
  "wit_started = (wit_live wit_device)\<lparr>lvStream := wit_stream\<rparr>"

theorem client_hears_capture_witness:
  "\<exists>sent lv'. run_live (\<lambda>_. 0) wit_path dev_read dev_step wit_ops wit_started = Some (sent, lv') \<and>
    samples_read (live_path dev_read dev_step wit_ops False (replicate 960 (Fin 0)) wit_device) @
      ring_unread (wRing (lvSource lv')) = packet_samples wit_device wit_packet16 \<and>
    received (csAddr wit_phone) (live_wire (\<lambda>_. 0) wit_path dev_read dev_step wit_ops wit_started) =
      map Inr (numbered (csSeqNum wit_phone) [f \<leftarrow> sent. wants (fChannel f) wit_phone])"
proof -
  have d: "wRunning wit_device" "wCaptureClient wit_device \<noteq> 0" "packed wit_device" "wFormat wit_device = wit_audio"
    "ring_inv (wRing wit_device)" "delivers wit_packet16"
    by (simp_all add: wit_device_def packed_def wit_audio_def new_ring_inv wit_packet16_def delivers_def)
  have size: "ringSize (wRing wit_device) = 1000" by (simp add: wit_device_def new_ring_def)
  have u: "ring_unread (wRing wit_device) = []" by (simp add: wit_device_def ring_unread_def new_ring_def)
  have len: "length (packet_samples wit_device wit_packet16) = 960"
    by (simp add: packet_samples_def wit_device_def wit_packet16_def wit_audio_def Let_def)
  have buf: "lvBuf wit_started = replicate 960 (Fin 0)" by (simp add: wit_started_def wit_live_def)
  have tr: "dev_traffic wit_device 960 False wit_ops =
      [Take 960, Put (packet_samples wit_device wit_packet16), Take 960]"
    by (simp add: wit_ops_def d(6))
  have "peak (dev_traffic wit_device (length (lvBuf wit_started)) False wit_ops)
      (length (ring_unread (wRing wit_device))) \<le> ringSize (wRing wit_device)"
    by (simp add: tr u size buf len)
  moreover have "setup_audio (wFormat wit_device) = Inr wit_path" by (simp add: d(4) wit_path)
  moreover have "start_live wit_path 7 wit_device wit_stream = Some wit_started"
    by (simp add: start_live_def wit_pipe wit_started_def wit_live_def)
  moreover have "idle wit_stream"
    by (simp add: wit_stream_def idle_def sm_inv_def held_def sm_AddClient_def sm_NewManager_def)
  moreover have "reachable_client wit_stream ''a'' wit_phone"
    by (simp add: reachable_client_def wit_stream_def wit_phone_def sm_AddClient_def gm_get_put sm_NewManager_def)
  ultimately show ?thesis
    using client_hears_capture [OF _ _ _ d(1-3,5) _ refl, where ops = wit_ops and unrep = "\<lambda>_. 0"
        and ap = wit_path and t = 7 and m = wit_stream and lv = wit_started and k = "''a''" and cs = wit_phone]
    by (auto simp: tr u buf)
qed


section \<open>One phone, one speaker\<close>

lemma layout_masks:
  assumes "lay \<in> {Layout51, Layout71}"
  shows "distinct (mapping lay)" "length (mapping lay) = channels lay" "ChannelStereoMix \<notin> set (mapping lay)"
  using assms by (auto simp: layout_defs channel_defs)

lemma wants_own_speaker:
  assumes "csActive cs" and "csChannelAssign cs \<noteq> ChannelStereoMix" and "fChannel f \<noteq> ChannelStereoMix"
  shows "wants (fChannel f) cs \<longleftrightarrow> fChannel f = csChannelAssign cs"
  using assms by (auto simp: wants_def)

text \<open>
  C23: a phone that is assigned a speaker plays that speaker. With a 5.1 or 7.1 source and an empty queue at
  the start that never overflows, under every interleaving in which the reader keeps up: the packets a client
  assigned to the \<open>c\<close>-th speaker receives are numbered without a gap, and their payloads, followed by those
  still queued for that speaker, are the encoding of every \<open>c\<close>-th sample of the frames read, which are what
  the device delivered.
\<close>

theorem speaker_hears_its_channel:
  assumes "setup_audio (wFormat w) = Inr ap" and "apDemuxer ap = Some lay" and "start_live ap t w m = Some lv"
    and "idle m" and "queued m = []"
    and "wRunning w" and "wCaptureClient w \<noteq> 0" and "packed w" and "ring_inv (wRing w)"
    and "peak (dev_traffic w (length (lvBuf lv)) False ops) (length (ring_unread (wRing w))) \<le> ringSize (wRing w)"
    and "path = live_path dev_read dev_step ops False (lvBuf lv) w" and "path_room (channels lay) path 0"
    and "reachable_client m k cs" and "csActive cs" and "csChannelAssign cs = mapping lay ! c" and "c < channels lay"
  shows "\<exists>sent lv' pkts. run_live unrep ap dev_read dev_step ops lv = Some (sent, lv') \<and>
    received (csAddr cs) (live_wire unrep ap dev_read dev_step ops lv) = map Inr pkts \<and>
    map SeqNum pkts = map (\<lambda>i. csSeqNum cs + of_nat (Suc i)) [0..<length pkts] \<and>
    concat (map Payload pkts) @ concat (map fData [f \<leftarrow> queued (lvStream lv'). fChannel f = mapping lay ! c]) =
      pcm16 unrep (channel_of (channels lay) c (samples_read path)) \<and>
    samples_read path @ ring_unread (wRing (lvSource lv')) =
      ring_unread (wRing w) @ written (dev_traffic w (length (lvBuf lv)) False ops)"
proof -
  have ok: "dev_ok w" using assms(8,9) by (simp add: dev_ok_def ring_inv_def)
  have "path_ok ap" using path_ok_setup [OF assms(1)] by simp
  then have lay: "lay \<in> {Layout51, Layout71}" "channels lay = afChannels (apFormat ap)"
    by (cases rule: path_ok_cases; use assms(2) in simp)+
  note masks = layout_masks [OF lay(1)]
  obtain sent lv' kept where r: "run_live unrep ap dev_read dev_step ops lv = Some (sent, lv')"
    "samples_read path @ ring_unread (wRing (lvSource lv')) =
      ring_unread (wRing w) @ written (dev_traffic w (length (lvBuf lv)) False ops)"
    "sent @ queued (lvStream lv') = path_stream unrep ap path (lvPipe lv)"
    using device_run [OF assms(1,3,4,6-11), of unrep] assms(2,5,12) by (auto simp: frames_per_round_def)
  have w: "received (csAddr cs) (live_wire unrep ap dev_read dev_step ops lv) =
      map Inr (numbered (csSeqNum cs) [f \<leftarrow> sent. wants (fChannel f) cs])"
    and full: "\<forall>op \<in> set path. full_read ap op"
    using client_receives [OF assms(1,3,4) ok assms(13) r(1)] by (simp_all add: assms(11))
  have "fChannel f \<in> set (mapping lay)" if "f \<in> set sent" for f
    using path_stream_masks [OF assms(2) masks(2), of f unrep path "lvPipe lv"] that arg_cong [OF r(3), of set] by auto
  then have "wants (fChannel f) cs \<longleftrightarrow> fChannel f = mapping lay ! c" if "f \<in> set sent" for f
    using wants_own_speaker [OF assms(14), of f] masks(2,3) assms(15,16) that by (metis nth_mem)
  then have own: "[f \<leftarrow> sent. wants (fChannel f) cs] = [f \<leftarrow> sent. fChannel f = mapping lay ! c]"
    by (rule filter_cong [OF refl])
  have "concat (map fData [f \<leftarrow> sent @ queued (lvStream lv'). fChannel f = mapping lay ! c]) =
      pcm16 unrep (channel_of (channels lay) c (samples_read path))"
    unfolding r(3) by (rule speaker_payloads [OF assms(2) masks(1,2) assms(16) lay(2) full])
  then show ?thesis
    using r(1,2) w unfolding own
    by (intro exI [of _ sent] exI [of _ lv'] exI [of _ "numbered (csSeqNum cs) [f \<leftarrow> sent. fChannel f = mapping lay ! c]"])
      (simp add: numbered_fields numbered_fields(1) [THEN arg_cong, of length, simplified])
qed

text \<open>Runs so short that the queue cannot overflow.\<close>

lemma path_room_short: "k + c * length ops \<le> BroadcastCap \<Longrightarrow> path_room c ops k"
  by (induction c ops k rule: path_room.induct) (auto simp: algebra_simps)

lemma length_live_path: "length (live_path rd ev ops c buf s) \<le> length ops"
proof (induction ops arbitrary: c buf s)
  case (Cons op ops)
  then show ?case by (cases op) (auto simp: le_SucI split: reading.split option.split)
qed simp

definition wit_audio51 :: audio_format where
  "wit_audio51 = \<lparr>afSampleRate = 48000, afChannels = 6, afBitDepth = 32\<rparr>"

definition wit_device51 :: wasapi where
  "wit_device51 = wit_device\<lparr>wFormat := wit_audio51, wBytesPerFrame := 12, wRing := new_ring 3000\<rparr>"

definition wit_path51 :: audio_path where
  "wit_path51 = \<lparr>apFormat = wit_audio51, apDemuxer = Some Layout51, apEncoders = replicate 6 (frame_encoder 1)\<rparr>"

theorem speaker_hears_its_channel_witness:
  "\<exists>lv sent lv' pkts. start_live wit_path51 7 wit_device51 wit_stream = Some lv \<and>
    run_live (\<lambda>_. 0) wit_path51 dev_read dev_step [Arrive (Packets [wit_packet16]), ReadRound (\<lambda>_. None) 10007, SendNext] lv =
      Some (sent, lv') \<and>
    received (csAddr wit_phone) (live_wire (\<lambda>_. 0) wit_path51 dev_read dev_step
      [Arrive (Packets [wit_packet16]), ReadRound (\<lambda>_. None) 10007, SendNext] lv) = map Inr pkts \<and>
    map SeqNum pkts = map (\<lambda>i. of_nat (Suc i)) [0..<length pkts]"
proof -
  let ?ops = "[Arrive (Packets [wit_packet16]), ReadRound (\<lambda>_. None) 10007, SendNext]"
  let ?p = "packet_samples wit_device51 wit_packet16"
  have ok: "setup_audio (wFormat wit_device51) = Inr wit_path51"
    by (simp add: setup_audio_eq wit_device51_def wit_audio51_def wit_path51_def)
  obtain lv where lv: "start_live wit_path51 7 wit_device51 wit_stream = Some lv" "length (lvBuf lv) = 2880"
    using start_pipe_wf [of wit_path51 7] path_ok_setup [OF ok]
    by (auto simp: start_live_def wit_path51_def wit_audio51_def)
  have d: "wRunning wit_device51" "wCaptureClient wit_device51 \<noteq> 0" "packed wit_device51" "ring_inv (wRing wit_device51)"
    by (simp_all add: wit_device51_def wit_device_def packed_def wit_audio51_def new_ring_inv)
  have s: "ringSize (wRing wit_device51) = 3000" "ring_unread (wRing wit_device51) = []" "length ?p = 2880" "delivers wit_packet16"
    by (simp_all add: wit_device51_def wit_device_def new_ring_def ring_unread_def packet_samples_def wit_packet16_def
        wit_audio51_def delivers_def Let_def)
  have m: "idle wit_stream" "queued wit_stream = []" "reachable_client wit_stream ''a'' wit_phone" "csActive wit_phone"
    "csChannelAssign wit_phone = mapping Layout51 ! 0" "csSeqNum wit_phone = 0"
    by (simp_all add: wit_stream_def idle_def sm_inv_def held_def sm_AddClient_def sm_NewManager_def queued_def
        reachable_client_def wit_phone_def gm_get_put new_stream_def layout_defs)
  have "peak (dev_traffic wit_device51 (length (lvBuf lv)) False ?ops) (length (ring_unread (wRing wit_device51))) \<le>
      ringSize (wRing wit_device51)"
    by (simp add: s lv(2))
  moreover have "path_room (channels Layout51) (live_path dev_read dev_step ?ops False (lvBuf lv) wit_device51) 0"
    using length_live_path [of dev_read dev_step ?ops False "lvBuf lv" wit_device51]
    by (intro path_room_short) (simp add: Layout51_def BroadcastCap_def)
  ultimately show ?thesis
    using speaker_hears_its_channel [OF ok _ lv(1) m(1,2) d _ refl _ m(3-5), where unrep = "\<lambda>_. 0" and ops = ?ops]
      lv(1) m(6) by (fastforce simp: wit_path51_def Layout51_def)
qed

end
