(* ===== verification/Monitor.thy ===== *)
theory Monitor
  imports Prelude
begin

text \<open>
  The three goroutines that meet at the ring's condition variable (\<^verbatim>\<open>internal/capture/wasapi_windows.go\<close>):
  the pipeline in \<^verbatim>\<open>Read\<close>, the capture loop, which signals under the mutex after each packet, and \<^verbatim>\<open>Stop\<close>,
  which clears \<^verbatim>\<open>running\<close> and broadcasts without the mutex. Samples are counted only; what they are is
  the matter of \<^verbatim>\<open>Ring\<close>.
\<close>

section \<open>States\<close>

text \<open>
  The reader: about to take the mutex and test the condition; holding it, with the condition found to be
  false but not yet on the list of waiters; waiting; returned with samples, or with an error (each later
  \<^verbatim>\<open>Read\<close> then gives an error at once).
\<close>

datatype reader = Testing | Deciding | Waiting | Got | Failed

datatype writer = Polling | Writing | Exited

datatype stopper = NotCalled | Cleared | Joining | Returned

record mon =
  mRunning :: bool
  mAvail :: nat
  mNeed :: nat
  mReader :: reader
  mWriter :: writer
  mStop :: stopper

definition mon_start :: "nat \<Rightarrow> mon" where
  "mon_start n =
     \<lparr>mRunning = True, mAvail = 0, mNeed = n, mReader = Testing, mWriter = Polling, mStop = NotCalled\<rparr>"

definition wake :: "reader \<Rightarrow> reader" where
  "wake r = (if r = Waiting then Testing else r)"

section \<open>Steps\<close>

inductive mon_step :: "mon \<Rightarrow> mon \<Rightarrow> bool" where
  read_ok: "mReader m = Testing \<Longrightarrow> mNeed m \<le> mAvail m \<Longrightarrow> mRunning m \<Longrightarrow>
    mon_step m (m\<lparr>mReader := Got, mAvail := mAvail m - mNeed m\<rparr>)"
| read_fails: "mReader m = Testing \<Longrightarrow> \<not> mRunning m \<Longrightarrow> mon_step m (m\<lparr>mReader := Failed\<rparr>)"
| read_decides: "mReader m = Testing \<Longrightarrow> mAvail m < mNeed m \<Longrightarrow> mRunning m \<Longrightarrow>
    mon_step m (m\<lparr>mReader := Deciding\<rparr>)"
| read_waits: "mReader m = Deciding \<Longrightarrow> mon_step m (m\<lparr>mReader := Waiting\<rparr>)"
| read_again: "mReader m = Got \<Longrightarrow> mon_step m (m\<lparr>mReader := Testing, mNeed := n\<rparr>)"
| write_polls: "mWriter m = Polling \<Longrightarrow> mRunning m \<Longrightarrow> mon_step m (m\<lparr>mWriter := Writing\<rparr>)"
| write_packet: "mWriter m = Writing \<Longrightarrow> mReader m \<noteq> Deciding \<Longrightarrow>
    mon_step m (m\<lparr>mWriter := Polling, mAvail := mAvail m + k, mReader := wake (mReader m)\<rparr>)"
| write_none: "mWriter m = Writing \<Longrightarrow> mon_step m (m\<lparr>mWriter := Polling\<rparr>)"
| write_exits: "mWriter m = Polling \<Longrightarrow> \<not> mRunning m \<Longrightarrow> mon_step m (m\<lparr>mWriter := Exited\<rparr>)"
| stop_clears: "mStop m = NotCalled \<Longrightarrow> mon_step m (m\<lparr>mStop := Cleared, mRunning := False\<rparr>)"
| stop_broadcasts: "mStop m = Cleared \<Longrightarrow>
    mon_step m (m\<lparr>mStop := Joining, mReader := wake (mReader m)\<rparr>)"
| stop_returns: "mStop m = Joining \<Longrightarrow> mWriter m = Exited \<Longrightarrow> mon_step m (m\<lparr>mStop := Returned\<rparr>)"

inductive mon_reach :: "mon \<Rightarrow> mon \<Rightarrow> bool" for m0 where
  init: "mon_reach m0 m0"
| step: "mon_reach m0 m \<Longrightarrow> mon_step m m' \<Longrightarrow> mon_reach m0 m'"

section \<open>Invariant\<close>

text \<open>
  A reader that waits, or is about to, found too few samples, and none has come since; \<^verbatim>\<open>running\<close> is cleared
  exactly when \<^verbatim>\<open>Stop\<close> was called, the writer leaves only after that, \<^verbatim>\<open>Stop\<close> returns only after the writer,
  and no reader fails before it.
\<close>

definition mon_inv :: "mon \<Rightarrow> bool" where
  "mon_inv m \<longleftrightarrow>
     (mReader m \<in> {Deciding, Waiting} \<longrightarrow> mAvail m < mNeed m) \<and>
     (mRunning m \<longleftrightarrow> mStop m = NotCalled) \<and> (mWriter m = Exited \<longrightarrow> \<not> mRunning m) \<and>
     (mStop m = Returned \<longrightarrow> mWriter m = Exited) \<and> (mReader m = Failed \<longrightarrow> \<not> mRunning m)"

lemma mon_step_inv: "mon_step m m' \<Longrightarrow> mon_inv m \<Longrightarrow> mon_inv m'"
  by (induction rule: mon_step.induct) (auto simp: mon_inv_def wake_def)

lemma mon_reach_inv: "mon_reach m0 m \<Longrightarrow> mon_inv m0 \<Longrightarrow> mon_inv m"
  by (induction rule: mon_reach.induct) (blast intro: mon_step_inv)+

lemma mon_start_inv: "mon_inv (mon_start n)"
  by (simp add: mon_inv_def mon_start_def)

text \<open>Nothing can happen any more.\<close>

definition stuck :: "mon \<Rightarrow> bool" where
  "stuck m \<longleftrightarrow> (\<forall>m'. \<not> mon_step m m')"

inductive_cases mon_stepE: "mon_step m m'"

lemma tester_takes:
  assumes "mon_step m m'" and "mReader m = Testing" and "mNeed m \<le> mAvail m" and "mRunning m'" and "mReader m' \<noteq> Testing"
  shows "mReader m' = Got \<and> mAvail m' = mAvail m - mNeed m"
  using assms by (cases rule: mon_step.cases) (auto simp: wake_def)

section \<open>Properties\<close>


text \<open>A reader that waits while a packet is on its way.\<close>

lemma wit_waiting: "mon_reach (mon_start 2) ((mon_start 2)\<lparr>mReader := Waiting, mWriter := Writing\<rparr>)"
proof -
  have "mon_step (mon_start 2) ((mon_start 2)\<lparr>mReader := Deciding\<rparr>)"
    by (rule read_decides) (simp_all add: mon_start_def)
  moreover have "mon_step ((mon_start 2)\<lparr>mReader := Deciding\<rparr>) ((mon_start 2)\<lparr>mReader := Waiting\<rparr>)"
    using read_waits [of "(mon_start 2)\<lparr>mReader := Deciding\<rparr>"] by simp
  moreover have "mon_step ((mon_start 2)\<lparr>mReader := Waiting\<rparr>) ((mon_start 2)\<lparr>mReader := Waiting, mWriter := Writing\<rparr>)"
    using write_polls [of "(mon_start 2)\<lparr>mReader := Waiting\<rparr>"] by (simp add: mon_start_def)
  ultimately show ?thesis by (blast intro: mon_reach.intros)
qed


section \<open>The end of a run\<close>

text \<open>The runs of \<^verbatim>\<open>Stop\<close>, the writer and one reader, with the reader's step at the given place.\<close>

definition mon_at :: "nat \<Rightarrow> reader \<Rightarrow> writer \<Rightarrow> stopper \<Rightarrow> mon" where
  "mon_at n rd wr st =
     \<lparr>mRunning = (st = NotCalled), mAvail = 0, mNeed = n, mReader = rd, mWriter = wr, mStop = st\<rparr>"

lemma mon_at_start: "mon_at n Testing Polling NotCalled = mon_start n"
  by (simp add: mon_at_def mon_start_def)

lemma mon_at_steps:
  "0 < n \<Longrightarrow> mon_step (mon_at n Testing wr NotCalled) (mon_at n Deciding wr NotCalled)"
  "mon_step (mon_at n Deciding wr st) (mon_at n Waiting wr st)"
  "st \<noteq> NotCalled \<Longrightarrow> mon_step (mon_at n Testing wr st) (mon_at n Failed wr st)"
  "mon_step (mon_at n rd wr NotCalled) (mon_at n rd wr Cleared)"
  "rd \<noteq> Waiting \<Longrightarrow> mon_step (mon_at n rd wr Cleared) (mon_at n rd wr Joining)"
  "st \<noteq> NotCalled \<Longrightarrow> mon_step (mon_at n rd Polling st) (mon_at n rd Exited st)"
  "mon_step (mon_at n rd Exited Joining) (mon_at n rd Exited Returned)"
  using read_decides [of "mon_at n Testing wr NotCalled"] read_waits [of "mon_at n Deciding wr st"]
    read_fails [of "mon_at n Testing wr st"] stop_clears [of "mon_at n rd wr NotCalled"]
    stop_broadcasts [of "mon_at n rd wr Cleared"] write_exits [of "mon_at n rd Polling st"]
    stop_returns [of "mon_at n rd Exited Joining"]
  by (simp_all add: mon_at_def wake_def)

lemma mon_at_stuck: "rd \<in> {Waiting, Failed} \<Longrightarrow> stuck (mon_at n rd Exited Returned)"
  unfolding stuck_def by (auto elim!: mon_stepE simp: mon_at_def)

lemma stuck_end:
  assumes "mon_reach (mon_start n) m" and "stuck m"
  shows "mStop m = Returned \<and> (mReader m = Failed \<or> mReader m = Waiting)"
proof -
  have i: "mon_inv m" using assms(1) mon_start_inv by (rule mon_reach_inv)
  have w: "mWriter m = Exited"
    using assms(2) unfolding stuck_def by (cases "mWriter m"; cases "mRunning m") (blast intro: mon_step.intros)+
  have "mStop m = Returned"
    using assms(2) w unfolding stuck_def by (cases "mStop m") (blast intro: mon_step.intros)+
  moreover have "mReader m = Failed \<or> mReader m = Waiting"
    using assms(2) i w unfolding stuck_def mon_inv_def by (cases "mReader m") (blast intro: mon_step.intros)+
  ultimately show ?thesis by blast
qed

lemma mon_at_init: "mon_reach (mon_start n) (mon_at n Testing Polling NotCalled)"
  by (simp add: mon_at_start mon_reach.init)

lemma end_failed: "mon_reach (mon_start n) (mon_at n Failed Exited Returned)"
proof -
  have "mon_reach (mon_start n) (mon_at n Testing Polling Cleared)"
    by (rule step [OF mon_at_init mon_at_steps(4)])
  then have "mon_reach (mon_start n) (mon_at n Failed Polling Cleared)"
    by (rule step [OF _ mon_at_steps(3)]) simp
  then have "mon_reach (mon_start n) (mon_at n Failed Polling Joining)"
    by (rule step [OF _ mon_at_steps(5)]) simp
  then have "mon_reach (mon_start n) (mon_at n Failed Exited Joining)"
    by (rule step [OF _ mon_at_steps(6)]) simp
  then show ?thesis by (rule step [OF _ mon_at_steps(7)])
qed

lemma end_waiting: "0 < n \<Longrightarrow> mon_reach (mon_start n) (mon_at n Waiting Exited Returned)"
proof -
  assume "0 < n"
  then have "mon_reach (mon_start n) (mon_at n Deciding Polling NotCalled)"
    by (rule step [OF mon_at_init mon_at_steps(1)])
  then have "mon_reach (mon_start n) (mon_at n Deciding Polling Cleared)"
    by (rule step [OF _ mon_at_steps(4)])
  then have "mon_reach (mon_start n) (mon_at n Deciding Polling Joining)"
    by (rule step [OF _ mon_at_steps(5)]) simp
  then have "mon_reach (mon_start n) (mon_at n Waiting Polling Joining)"
    by (rule step [OF _ mon_at_steps(2)])
  then have "mon_reach (mon_start n) (mon_at n Waiting Exited Joining)"
    by (rule step [OF _ mon_at_steps(6)]) simp
  then show ?thesis by (rule step [OF _ mon_at_steps(7)])
qed

text \<open>
  The two ways a capture can end. In a reachable state where nothing can happen any more \<^verbatim>\<open>Stop\<close> has
  returned, and the reader has either got its error or waits for ever; and both do happen, whatever number
  of samples the reader asks for. \<^verbatim>\<open>Stop\<close> clears the flag and broadcasts without the mutex, so both can
  fall between the reader's test and its wait; the capture loop then ends and nobody is left to wake it.
\<close>

theorem stop_can_strand_reader:
  "{(mStop m, mReader m) | m. mon_reach (mon_start (Suc n)) m \<and> stuck m} = {(Returned, Failed), (Returned, Waiting)}"
  (is "?ends = _")
proof
  show "?ends \<subseteq> {(Returned, Failed), (Returned, Waiting)}" by (auto dest: stuck_end)
  have "(Returned, rd) \<in> ?ends" if "rd \<in> {Failed, Waiting}" for rd
    using that end_failed [of "Suc n"] end_waiting [of "Suc n"] mon_at_stuck [of rd "Suc n"]
    by (auto intro!: exI [of _ "mon_at (Suc n) rd Exited Returned"] simp: mon_at_def)
  then show "{(Returned, Failed), (Returned, Waiting)} \<subseteq> ?ends" by blast
qed

end
