(* ===== verification/Wakeup.thy ===== *)
theory Wakeup
  imports Live Monitor
begin

text \<open>
  The capture device as its goroutines use it (\<^verbatim>\<open>internal/capture/wasapi_windows.go\<close>): one call of \<^verbatim>\<open>Read\<close> that
  may block, packets that arrive and wake it, and \<^verbatim>\<open>Stop\<close>. The ring and its samples are those of \<^verbatim>\<open>Capture\<close>;
  every schedule of them is shown to be a run of the goroutines of \<^verbatim>\<open>Monitor\<close>.
\<close>

section \<open>Schedules\<close>

text \<open>
  The caller: not in \<^verbatim>\<open>Read\<close>, about to test the condition (at the entry, or woken), waiting, or given the
  error that the capture has stopped.
\<close>

datatype caller = NoCall | Asking "fl list" | Blocked "fl list" | Over

record attached =
  atDev :: wasapi
  atCall :: caller

datatype call_op = Call "fl list" | Test | Packet packet_env | StopCall

definition woken :: "caller \<Rightarrow> caller" where
  "woken c = (case c of Blocked buf \<Rightarrow> Asking buf | _ \<Rightarrow> c)"

text \<open>The results of the calls that return, an error as \<open>None\<close>; the whole is \<open>None\<close> for a panic.\<close>

fun attend :: "call_op \<Rightarrow> attached \<Rightarrow> (fl list option list \<times> attached) option" where
  "attend (Call buf) a =
     (case atCall a of
        NoCall \<Rightarrow> Some ([], a\<lparr>atCall := Asking buf\<rparr>)
      | Over \<Rightarrow> Some ([None], a)
      | _ \<Rightarrow> Some ([], a))"
| "attend Test a =
     (case atCall a of
        Asking buf \<Rightarrow>
          (case dev_read buf (atDev a) of
             ReadPanic \<Rightarrow> None
           | reading.Waiting \<Rightarrow> Some ([], a\<lparr>atCall := Blocked buf\<rparr>)
           | ReadError \<Rightarrow> Some ([None], a\<lparr>atCall := Over\<rparr>)
           | Reading n out w \<Rightarrow> Some ([Some (take n out)], \<lparr>atDev = w, atCall = NoCall\<rparr>))
      | _ \<Rightarrow> Some ([], a))"
| "attend (Packet p) a =
     (case processCaptureBuffer [p] (atDev a) of
        None \<Rightarrow> None
      | Some (sizes, w) \<Rightarrow>
          Some ([], \<lparr>atDev = w, atCall = (if sizes = [] then atCall a else woken (atCall a))\<rparr>))"
| "attend StopCall a =
     Some ([], if wRunning (atDev a) then \<lparr>atDev = snd (Stop (atDev a)), atCall = woken (atCall a)\<rparr> else a)"

fun run_calls :: "('o \<Rightarrow> 'a \<Rightarrow> ('r list \<times> 'a) option) \<Rightarrow> 'o list \<Rightarrow> 'a \<Rightarrow> ('r list \<times> 'a) option" where
  "run_calls act [] a = Some ([], a)"
| "run_calls act (op # ops) a =
     (case act op a of
        None \<Rightarrow> None
      | Some (rs, a) \<Rightarrow> map_option (\<lambda>(rs', a). (rs @ rs', a)) (run_calls act ops a))"

section \<open>Simulation\<close>

text \<open>A model whose operations are each answered by steps of another.\<close>

locale schedule =
  fixes act :: "'o \<Rightarrow> 'a \<Rightarrow> ('r list \<times> 'a) option"
    and step :: "'m \<Rightarrow> 'm \<Rightarrow> bool"
    and match :: "'m \<Rightarrow> 'a \<Rightarrow> bool"
  assumes answered: "match m a \<Longrightarrow> \<exists>rs a' m'. act op a = Some (rs, a') \<and> step\<^sup>*\<^sup>* m m' \<and> match m' a'"
begin

lemma run_matches:
  "match m a \<Longrightarrow> \<exists>rs a' m'. run_calls act ops a = Some (rs, a') \<and> step\<^sup>*\<^sup>* m m' \<and> match m' a'"
proof (induction ops arbitrary: m a)
  case (Cons op ops)
  obtain rs a1 m1 where 1: "act op a = Some (rs, a1)" "step\<^sup>*\<^sup>* m m1" "match m1 a1"
    using answered [OF Cons.prems] by blast
  obtain rs' a2 m2 where "run_calls act ops a1 = Some (rs', a2)" "step\<^sup>*\<^sup>* m1 m2" "match m2 a2"
    using Cons.IH [OF 1(3)] by blast
  then show ?case using 1 by (auto intro: rtranclp_trans)
qed auto

end

text \<open>
  What the monitor counts are the samples in the ring. While the capture runs, the goroutine polls and
  nobody has called \<^verbatim>\<open>Stop\<close>; afterwards no caller is left waiting.
\<close>

fun call_match :: "caller \<Rightarrow> mon \<Rightarrow> bool" where
  "call_match NoCall m = (mReader m = Got)"
| "call_match (Asking buf) m = (mReader m = Testing \<and> mNeed m = length buf)"
| "call_match (Blocked buf) m = (mReader m = Waiting \<and> mNeed m = length buf)"
| "call_match Over m = (mReader m = Failed)"

definition mon_match :: "mon \<Rightarrow> attached \<Rightarrow> bool" where
  "mon_match m a \<longleftrightarrow>
     dev_ok (atDev a) \<and> (wRunning (atDev a) \<longleftrightarrow> wCaptureClient (atDev a) \<noteq> 0) \<and>
     mRunning m = wRunning (atDev a) \<and> int (mAvail m) = ringAvailable (wRing (atDev a)) \<and>
     call_match (atCall a) m \<and> (mRunning m \<longrightarrow> mWriter m = Polling \<and> mStop m = NotCalled) \<and>
     (\<not> mRunning m \<longrightarrow> mReader m \<noteq> Waiting)"

lemma mon_reach_steps: "mon_step\<^sup>*\<^sup>* m m' \<Longrightarrow> mon_reach m0 m \<Longrightarrow> mon_reach m0 m'"
  by (induction rule: rtranclp_induct) (auto intro: mon_reach.step)

text \<open>A packet is counted and wakes the caller; where none is delivered nothing happens.\<close>

lemma packet_answered:
  assumes "mon_match m a"
  shows "\<exists>a' m'. attend (Packet p) a = Some ([], a') \<and> mon_step\<^sup>*\<^sup>* m m' \<and> mon_match m' a'"
proof (cases "delivers p \<and> wRunning (atDev a)")
  case False
  then have "processCaptureBuffer [p] (atDev a) = Some ([], atDev a)"
    using assms by (auto simp: mon_match_def processCaptureBuffer_stop)
  then show ?thesis using assms by (cases a) auto
next
  case True
  let ?k = "length (packet_samples (atDev a) p)"
  let ?m1 = "m\<lparr>mWriter := Writing\<rparr>"
  let ?m2 = "?m1\<lparr>mWriter := Polling, mAvail := mAvail ?m1 + ?k, mReader := wake (mReader ?m1)\<rparr>"
  have i: "dev_ok (atDev a)" "wCaptureClient (atDev a) \<noteq> 0" "mRunning m" "mWriter m = Polling" "mStop m = NotCalled"
    "int (mAvail m) = ringAvailable (wRing (atDev a))" "call_match (atCall a) m"
    using assms True by (simp_all add: mon_match_def)
  obtain r where r: "ring_puts (packet_samples (atDev a) p) (wRing (atDev a)) = Some r" "ring_wf r"
    "ringRead r = ringRead (wRing (atDev a))" "ringWrite r = ringWrite (wRing (atDev a)) + ?k"
    using ring_puts_window i(1) unfolding dev_ok_def by blast
  have "processCaptureBuffer [p] (atDev a) = Some ([fst (snd (peBuffer p))], (atDev a)\<lparr>wRing := r\<rparr>)"
    using processCaptureBuffer_next [of "atDev a" p "[]"] i(1,2) True r(1) by (simp add: dev_ok_def)
  then have "attend (Packet p) a = Some ([], \<lparr>atDev = (atDev a)\<lparr>wRing := r\<rparr>, atCall = woken (atCall a)\<rparr>)" by simp
  moreover have "mReader m \<noteq> Deciding" using i(7) by (cases "atCall a") auto
  then have "mon_step m ?m1" "mon_step ?m1 ?m2"
    using write_polls [of m] write_packet [of ?m1 ?k] i(3,4) by simp_all
  then have "mon_step\<^sup>*\<^sup>* m ?m2" by (meson rtranclp.rtrancl_into_rtrancl rtranclp.rtrancl_refl)
  moreover have "call_match (woken (atCall a)) ?m2" using i(7) by (cases "atCall a") (auto simp: woken_def wake_def)
  then have "mon_match ?m2 \<lparr>atDev = (atDev a)\<lparr>wRing := r\<rparr>, atCall = woken (atCall a)\<rparr>"
    using i r True by (simp add: mon_match_def dev_ok_def ringAvailable_def wake_def)
  ultimately show ?thesis by blast
qed

lemma stop_answered:
  assumes "mon_match m a"
  shows "\<exists>a' m'. attend StopCall a = Some ([], a') \<and> mon_step\<^sup>*\<^sup>* m m' \<and> mon_match m' a'"
proof (cases "wRunning (atDev a)")
  case True
  let ?m1 = "m\<lparr>mStop := Cleared, mRunning := False\<rparr>"
  let ?m2 = "?m1\<lparr>mStop := Joining, mReader := wake (mReader ?m1)\<rparr>"
  let ?m3 = "?m2\<lparr>mWriter := Exited\<rparr>"
  let ?m4 = "?m3\<lparr>mStop := Returned\<rparr>"
  have i: "mWriter m = Polling" "mStop m = NotCalled" "call_match (atCall a) m" using assms True by (simp_all add: mon_match_def)
  have "mon_step m ?m1" "mon_step ?m1 ?m2" "mon_step ?m2 ?m3" "mon_step ?m3 ?m4"
    using stop_clears [of m] stop_broadcasts [of ?m1] write_exits [of ?m2] stop_returns [of ?m3] i by simp_all
  then have "mon_step\<^sup>*\<^sup>* m ?m4" by (meson rtranclp.rtrancl_into_rtrancl rtranclp.rtrancl_refl)
  moreover have "call_match (woken (atCall a)) ?m4" using i(3) by (cases "atCall a") (auto simp: woken_def wake_def)
  then have "mon_match ?m4 \<lparr>atDev = snd (Stop (atDev a)), atCall = woken (atCall a)\<rparr>"
    using assms True by (simp add: mon_match_def dev_ok_def packed_def Stop_def wake_def)
  ultimately show ?thesis using True by auto
qed (use assms in auto)

lemma dev_read_enough:
  assumes "dev_ok w" and "wRunning w" and "int (length buf) \<le> ringAvailable (wRing w)"
    and "r = (wRing w)\<lparr>ringRead := ringRead (wRing w) + length buf\<rparr>"
  shows "dev_read buf w = Reading (length buf) (take (length buf) (ring_unread (wRing w))) (w\<lparr>wRing := r\<rparr>)"
    "ring_wf r" "ringAvailable r = ringAvailable (wRing w) - int (length buf)"
proof -
  have wf: "ring_wf (wRing w)" using assms(1) by (simp add: dev_ok_def)
  have n: "length buf \<le> ringWrite (wRing w) - ringRead (wRing w)" using assms(3) by (simp add: ringAvailable_def)
  show "dev_read buf w = Reading (length buf) (take (length buf) (ring_unread (wRing w))) (w\<lparr>wRing := r\<rparr>)"
    using assms(2-4) ring_copy_unread [OF wf n] by (simp add: dev_read_wf [OF wf] ring_read_def)
  show "ring_wf r" "ringAvailable r = ringAvailable (wRing w) - int (length buf)"
    using wf assms(3) n by (auto simp: assms(4) ring_wf_def ringAvailable_def)
qed

lemma test_answered:
  assumes "mon_match m a"
  shows "\<exists>rs a' m'. attend Test a = Some (rs, a') \<and> mon_step\<^sup>*\<^sup>* m m' \<and> mon_match m' a'"
proof (cases "atCall a")
  case (Asking buf)
  have i: "mReader m = Testing" "mNeed m = length buf" "mRunning m = wRunning (atDev a)" "dev_ok (atDev a)"
    "int (mAvail m) = ringAvailable (wRing (atDev a))" "mRunning m \<longrightarrow> mWriter m = Polling \<and> mStop m = NotCalled"
    using assms Asking by (simp_all add: mon_match_def)
  note rd = dev_read_wf [of "atDev a" buf]
  consider (stopped) "\<not> wRunning (atDev a)"
    | (short) "wRunning (atDev a)" "ringAvailable (wRing (atDev a)) < int (length buf)"
    | (enough) "wRunning (atDev a)" "int (length buf) \<le> ringAvailable (wRing (atDev a))"
    by linarith
  then show ?thesis
  proof cases
    case stopped
    then have "mon_step m (m\<lparr>mReader := Failed\<rparr>)" using i by (intro read_fails) simp_all
    moreover have "attend Test a = Some ([None], a\<lparr>atCall := Over\<rparr>)" using stopped Asking rd i(4) by (simp add: dev_ok_def)
    moreover have "mon_match (m\<lparr>mReader := Failed\<rparr>) (a\<lparr>atCall := Over\<rparr>)" using assms by (simp add: mon_match_def)
    ultimately show ?thesis by blast
  next
    case short
    let ?m1 = "m\<lparr>mReader := Deciding\<rparr>"
    have "mon_step m ?m1" "mon_step ?m1 (?m1\<lparr>mReader := Waiting\<rparr>)"
      using read_decides [of m] read_waits [of ?m1] i short by simp_all
    then have "mon_step\<^sup>*\<^sup>* m (?m1\<lparr>mReader := Waiting\<rparr>)" by (meson rtranclp.rtrancl_into_rtrancl rtranclp.rtrancl_refl)
    moreover have "attend Test a = Some ([], a\<lparr>atCall := Blocked buf\<rparr>)"
      using short Asking rd i(4) by (simp add: dev_ok_def ring_read_def)
    moreover have "mon_match (?m1\<lparr>mReader := Waiting\<rparr>) (a\<lparr>atCall := Blocked buf\<rparr>)"
      using assms short i(2) by (simp add: mon_match_def)
    ultimately show ?thesis by blast
  next
    case enough
    let ?m = "m\<lparr>mReader := Got, mAvail := mAvail m - mNeed m\<rparr>"
    define r where "r = (wRing (atDev a))\<lparr>ringRead := ringRead (wRing (atDev a)) + length buf\<rparr>"
    note d = dev_read_enough [OF i(4) enough r_def]
    have "attend Test a =
        Some ([Some (take (length buf) (ring_unread (wRing (atDev a))))], \<lparr>atDev = (atDev a)\<lparr>wRing := r\<rparr>, atCall = NoCall\<rparr>)"
      using Asking by (simp add: d(1))
    moreover have "mon_step m ?m" using i enough by (intro read_ok) simp_all
    moreover have "mon_match ?m \<lparr>atDev = (atDev a)\<lparr>wRing := r\<rparr>, atCall = NoCall\<rparr>"
      using assms i enough d(2,3) by (auto simp: mon_match_def dev_ok_def)
    ultimately show ?thesis by blast
  qed
qed (use assms in auto)

lemma call_answered:
  assumes "mon_match m a"
  shows "\<exists>rs a' m'. attend (Call buf) a = Some (rs, a') \<and> mon_step\<^sup>*\<^sup>* m m' \<and> mon_match m' a'"
proof (cases "atCall a")
  case NoCall
  then have "mon_step m (m\<lparr>mReader := Testing, mNeed := length buf\<rparr>)"
    using assms by (intro read_again) (simp add: mon_match_def)
  moreover have "mon_match (m\<lparr>mReader := Testing, mNeed := length buf\<rparr>) (a\<lparr>atCall := Asking buf\<rparr>)"
    using assms by (simp add: mon_match_def)
  ultimately show ?thesis using NoCall by auto
qed (use assms in auto)

interpretation dc: schedule attend mon_step mon_match
proof unfold_locales
  fix m a op
  assume "mon_match m a"
  then show "\<exists>rs a' m'. attend op a = Some (rs, a') \<and> mon_step\<^sup>*\<^sup>* m m' \<and> mon_match m' a'"
    using packet_answered [of m a] stop_answered [of m a] test_answered [of m a] call_answered [of m a]
    by (cases op) blast+
qed

section \<open>Properties\<close>



end
