(* ===== verification/Phases.thy ===== *)
theory Phases
  imports System
begin

text \<open>
  The order of a connection's life (\<^verbatim>\<open>handleConnection\<close> in \<^verbatim>\<open>internal/server/tcp.go\<close>): the stages as a linear
  order, and the runs of the system as ascending sequences in it.
\<close>

section \<open>Stages\<close>

datatype stage = Accepted | Registered | Calibrated | Serving | Closed

primrec stage_rank :: "stage \<Rightarrow> nat" where
  "stage_rank Accepted = 0"
| "stage_rank Registered = 1"
| "stage_rank Calibrated = 2"
| "stage_rank Serving = 3"
| "stage_rank Closed = 4"

lemma stage_rank_inj: "stage_rank a = stage_rank b \<longleftrightarrow> a = b"
  by (cases a; cases b) simp_all

instantiation stage :: linorder
begin

definition less_eq_stage :: "stage \<Rightarrow> stage \<Rightarrow> bool" where
  "a \<le> b \<longleftrightarrow> stage_rank a \<le> stage_rank b"

definition less_stage :: "stage \<Rightarrow> stage \<Rightarrow> bool" where
  "a < b \<longleftrightarrow> stage_rank a < stage_rank b"

instance
  by standard (auto simp: less_eq_stage_def less_stage_def stage_rank_inj)

end

fun stage_of :: "phase \<Rightarrow> stage" where
  "stage_of PNew = Accepted"
| "stage_of (PJoined r port) = Registered"
| "stage_of (PSynced r port) = Calibrated"
| "stage_of (PLoop r) = Serving"
| "stage_of PDone = Closed"

section \<open>Steps\<close>

text \<open>A connection stays where it is or goes on, with the session object it has, if any.\<close>

definition advances :: "phase \<Rightarrow> phase \<Rightarrow> bool" where
  "advances p q \<longleftrightarrow> stage_of p \<le> stage_of q \<and>
     (\<forall>r r'. phase_ref p = Some r \<longrightarrow> phase_ref q = Some r' \<longrightarrow> r = r')"

lemma advances_refl [simp]: "advances p p"
  by (simp add: advances_def)

lemma advances_trans: "transp advances"
proof (rule transpI)
  fix p q s assume "advances p q" "advances q s"
  then show "advances p s"
    by (cases p; cases q; cases s) (auto simp: advances_def less_eq_stage_def)
qed

lemma step_advances: "sys_step scan y y' \<Longrightarrow> advances (yPhase y cn) (yPhase y' cn)"
  by (induction rule: sys_step.induct) (auto simp: move_def on_stream_def advances_def less_eq_stage_def)

text \<open>
  In every run of the system each connection goes through the stages in order: it joins, measures its
  clock, enters the message loop and ends, and never goes back; and as long as it has a session object, it
  is the same one, whatever the other connections, the requests and the sender do in between.
\<close>

theorem connection_stages_ascend:
  assumes "successively (sys_step scan) ys"
  shows "sorted (map (\<lambda>y. stage_of (yPhase y cn)) ys) \<and>
    (\<forall>i j r r'. i < j \<longrightarrow> j < length ys \<longrightarrow> phase_ref (yPhase (ys ! i) cn) = Some r \<longrightarrow>
       phase_ref (yPhase (ys ! j) cn) = Some r' \<longrightarrow> r = r')"
proof -
  have "successively advances (map (\<lambda>y. yPhase y cn) ys)"
    using assms by (auto simp: successively_map intro: successively_mono step_advances)
  then have "sorted_wrt advances (map (\<lambda>y. yPhase y cn) ys)"
    using successively_conv_sorted_wrt [OF advances_trans] by blast
  then have a: "advances (yPhase (ys ! i) cn) (yPhase (ys ! j) cn)" if "i < j" "j < length ys" for i j
    using that by (auto simp: sorted_wrt_iff_nth_less)
  then have "sorted (map (\<lambda>y. stage_of (yPhase y cn)) ys)"
    by (auto simp: sorted_wrt_iff_nth_less advances_def)
  then show ?thesis using a by (auto simp: advances_def)
qed

text \<open>The states of a run.\<close>

lemma reach_run: "sys_reach scan y0 y \<Longrightarrow> \<exists>ys. successively (sys_step scan) ys \<and> ys \<noteq> [] \<and> hd ys = y0 \<and> last ys = y"
proof (induction rule: sys_reach.induct)
  case start
  then show ?case by (intro exI [of _ "[y0]"]) simp
next
  case (step y y')
  then obtain ys where "successively (sys_step scan) ys" "ys \<noteq> []" "hd ys = y0" "last ys = y" by blast
  then show ?case using step.hyps(2) by (intro exI [of _ "ys @ [y']"]) (simp add: successively_append_iff)
qed

theorem connection_stages_ascend_witness:
  "\<exists>ys. ys \<noteq> [] \<and> hd ys = wit_y0 \<and> yPhase (last ys) 3 = PLoop 0 \<and> sorted (map (\<lambda>y. stage_of (yPhase y 3)) ys)"
proof -
  obtain y where y: "sys_reach wit_text wit_y0 y" "yPhase y 3 = PLoop 0" using wit_run_loop by blast
  then obtain ys where "successively (sys_step wit_text) ys" "ys \<noteq> []" "hd ys = wit_y0" "last ys = y"
    using reach_run by blast
  then show ?thesis using connection_stages_ascend [of wit_text ys 3] y(2) by blast
qed

end
