(* ===== verification/Com.thy ===== *)
theory Com
  imports Prelude
begin

text \<open>
  The calls into COM (\<^verbatim>\<open>internal/capture/wasapi_windows.go\<close>): an interface pointer is the address of a pointer
  to a table of function addresses, and each helper reads one entry of the table and calls it with the
  pointer and its arguments. What the functions do is Windows' business; which function is called, and with
  what, is the code's. The orders of the interfaces' methods are those Windows documents.
\<close>

section \<open>Calls through a table\<close>

text \<open>Memory as words of the size of a pointer, and a call as its target and arguments.\<close>

type_synonym words = "nat \<Rightarrow> nat"
type_synonym call = "nat \<times> nat list"

definition ptr_size :: nat where
  "ptr_size = 8"

definition callN :: "nat \<Rightarrow> nat list \<Rightarrow> call" where
  "callN fn args = (fn, args)"

definition slot :: "words \<Rightarrow> nat \<Rightarrow> nat \<Rightarrow> nat" where
  "slot mem obj k = (let vtable = mem obj in mem (vtable + k * ptr_size))"

definition vRelease :: "words \<Rightarrow> nat \<Rightarrow> call" where
  "vRelease mem obj = callN (slot mem obj 2) [obj]"

definition vGetDefaultAudioEndpoint :: "words \<Rightarrow> nat \<Rightarrow> nat \<Rightarrow> nat \<Rightarrow> nat \<Rightarrow> call" where
  "vGetDefaultAudioEndpoint mem enumerator dataFlow role device =
     callN (slot mem enumerator 4) [enumerator, dataFlow, role, device]"

definition vActivate :: "words \<Rightarrow> nat \<Rightarrow> nat \<Rightarrow> nat \<Rightarrow> nat \<Rightarrow> nat \<Rightarrow> call" where
  "vActivate mem device iid clsCtx params obj = callN (slot mem device 3) [device, iid, clsCtx, params, obj]"

definition vInitialize :: "words \<Rightarrow> nat \<Rightarrow> nat \<Rightarrow> nat \<Rightarrow> nat \<Rightarrow> nat \<Rightarrow> nat \<Rightarrow> nat \<Rightarrow> call" where
  "vInitialize mem client shareMode streamFlags bufferDuration periodicity format sessionGUID =
     callN (slot mem client 3) [client, shareMode, streamFlags, bufferDuration, periodicity, format, sessionGUID]"

definition vGetMixFormat :: "words \<Rightarrow> nat \<Rightarrow> nat \<Rightarrow> call" where
  "vGetMixFormat mem client format = callN (slot mem client 8) [client, format]"

definition vGetStreamLatency :: "words \<Rightarrow> nat \<Rightarrow> nat \<Rightarrow> call" where
  "vGetStreamLatency mem client latency = callN (slot mem client 5) [client, latency]"

definition vSetEventHandle :: "words \<Rightarrow> nat \<Rightarrow> nat \<Rightarrow> call" where
  "vSetEventHandle mem client eventHandle = callN (slot mem client 13) [client, eventHandle]"

definition vGetService :: "words \<Rightarrow> nat \<Rightarrow> nat \<Rightarrow> nat \<Rightarrow> call" where
  "vGetService mem client iid service = callN (slot mem client 14) [client, iid, service]"

definition vStart :: "words \<Rightarrow> nat \<Rightarrow> call" where
  "vStart mem client = callN (slot mem client 10) [client]"

definition vStop :: "words \<Rightarrow> nat \<Rightarrow> call" where
  "vStop mem client = callN (slot mem client 11) [client]"

definition vGetBuffer :: "words \<Rightarrow> nat \<Rightarrow> nat \<Rightarrow> nat \<Rightarrow> nat \<Rightarrow> nat \<Rightarrow> nat \<Rightarrow> call" where
  "vGetBuffer mem captureClient dat numFrames flags devicePos qpcPos =
     callN (slot mem captureClient 3) [captureClient, dat, numFrames, flags, devicePos, qpcPos]"

definition vReleaseBuffer :: "words \<Rightarrow> nat \<Rightarrow> nat \<Rightarrow> call" where
  "vReleaseBuffer mem captureClient numFrames = callN (slot mem captureClient 4) [captureClient, numFrames]"

definition vGetNextPacketSize :: "words \<Rightarrow> nat \<Rightarrow> nat \<Rightarrow> call" where
  "vGetNextPacketSize mem captureClient numFrames = callN (slot mem captureClient 5) [captureClient, numFrames]"

section \<open>The documented interfaces\<close>

datatype com_method =
    QueryInterface | AddRef | ReleaseObject
  | EnumAudioEndpoints | GetDefaultAudioEndpoint | GetDevice
  | Activate | OpenPropertyStore | GetId | GetState
  | Initialize | GetBufferSize | GetStreamLatency | GetCurrentPadding | IsFormatSupported | GetMixFormat
  | GetDevicePeriod | StartClient | StopClientStream | ResetClient | SetEventHandle | GetService
  | GetBuffer | ReleaseBuffer | GetNextPacketSize

definition IUnknown :: "com_method list" where
  "IUnknown = [QueryInterface, AddRef, ReleaseObject]"

definition IMMDeviceEnumerator :: "com_method list" where
  "IMMDeviceEnumerator = IUnknown @ [EnumAudioEndpoints, GetDefaultAudioEndpoint, GetDevice]"

definition IMMDevice :: "com_method list" where
  "IMMDevice = IUnknown @ [Activate, OpenPropertyStore, GetId, GetState]"

definition IAudioClient :: "com_method list" where
  "IAudioClient = IUnknown @
     [Initialize, GetBufferSize, GetStreamLatency, GetCurrentPadding, IsFormatSupported, GetMixFormat,
      GetDevicePeriod, StartClient, StopClientStream, ResetClient, SetEventHandle, GetService]"

definition IAudioCaptureClient :: "com_method list" where
  "IAudioCaptureClient = IUnknown @ [GetBuffer, ReleaseBuffer, GetNextPacketSize]"

lemmas com_interfaces = IUnknown_def IMMDeviceEnumerator_def IMMDevice_def IAudioClient_def IAudioCaptureClient_def

text \<open>An object of an interface: its table holds the addresses of the methods, in their order.\<close>

definition implements :: "words \<Rightarrow> (com_method \<Rightarrow> nat) \<Rightarrow> nat \<Rightarrow> com_method list \<Rightarrow> bool" where
  "implements mem entry obj ms \<longleftrightarrow> (\<forall>k < length ms. mem (mem obj + k * ptr_size) = entry (ms ! k))"

lemma slot_method: "implements mem entry obj ms \<Longrightarrow> k < length ms \<Longrightarrow> slot mem obj k = entry (ms ! k)"
  by (simp add: implements_def slot_def)

section \<open>Properties\<close>

text \<open>
  Every helper calls the method it is named after. On objects whose tables are laid out as Windows
  documents, each helper's slot is that method's, and the object itself is the first argument, followed by
  the helper's own in their order.
\<close>

theorem vtable_calls:
  assumes "implements mem entry enumerator IMMDeviceEnumerator" and "implements mem entry device IMMDevice"
    and "implements mem entry client IAudioClient" and "implements mem entry capture IAudioCaptureClient"
  shows "vGetDefaultAudioEndpoint mem enumerator a b c = (entry GetDefaultAudioEndpoint, [enumerator, a, b, c]) \<and>
    vActivate mem device a b c d = (entry Activate, [device, a, b, c, d]) \<and>
    vInitialize mem client a b c d e f = (entry Initialize, [client, a, b, c, d, e, f]) \<and>
    vGetMixFormat mem client a = (entry GetMixFormat, [client, a]) \<and>
    vGetStreamLatency mem client a = (entry GetStreamLatency, [client, a]) \<and>
    vSetEventHandle mem client a = (entry SetEventHandle, [client, a]) \<and>
    vGetService mem client a b = (entry GetService, [client, a, b]) \<and>
    vStart mem client = (entry StartClient, [client]) \<and> vStop mem client = (entry StopClientStream, [client]) \<and>
    vGetBuffer mem capture a b c d e = (entry GetBuffer, [capture, a, b, c, d, e]) \<and>
    vReleaseBuffer mem capture a = (entry ReleaseBuffer, [capture, a]) \<and>
    vGetNextPacketSize mem capture a = (entry GetNextPacketSize, [capture, a]) \<and>
    (\<forall>obj \<in> {enumerator, device, client, capture}. vRelease mem obj = (entry ReleaseObject, [obj]))"
  using assms [THEN slot_method]
  by (simp add: com_interfaces vGetDefaultAudioEndpoint_def vActivate_def vInitialize_def vGetMixFormat_def
      vGetStreamLatency_def vSetEventHandle_def vGetService_def vStart_def vStop_def vGetBuffer_def
      vReleaseBuffer_def vGetNextPacketSize_def vRelease_def callN_def)

text \<open>Four objects at 1 to 4, with their tables from 1000, 2000, 3000 and 4000 on.\<close>

definition wit_words :: "(com_method \<Rightarrow> nat) \<Rightarrow> words" where
  "wit_words entry a =
     (if a < 1000 then 1000 * a
      else entry ([IMMDeviceEnumerator, IMMDevice, IAudioClient, IAudioCaptureClient] ! (a div 1000 - 1) ! (a mod 1000 div 8)))"

lemma implements_upt:
  "implements mem entry obj ms \<longleftrightarrow> (\<forall>k \<in> set [0..<length ms]. mem (mem obj + k * ptr_size) = entry (ms ! k))"
  by (auto simp: implements_def)

lemma wit_words:
  "implements (wit_words entry) entry 1 IMMDeviceEnumerator" "implements (wit_words entry) entry 2 IMMDevice"
  "implements (wit_words entry) entry 3 IAudioClient" "implements (wit_words entry) entry 4 IAudioCaptureClient"
  by (simp_all add: implements_upt wit_words_def ptr_size_def com_interfaces upt_rec)

theorem vtable_calls_witness:
  "vInitialize (wit_words size) 3 0 393216 0 0 77 0 = (size Initialize, [3, 0, 393216, 0, 0, 77, 0])"
  using vtable_calls [OF wit_words [of size]] by blast

end
